(* ===== verification/Prelude.thy ===== *)
theory Prelude
  imports Main "HOL-Library.Word" "HOL-Library.Sublist"
begin

text \<open>
  Shared vocabulary of the development: machine integers and byte strings, results with an error
  branch, the named collections the component theories feed, and the interfaces several
  components rely on (a transition system with an invariant, a counting semaphore, a bounded
  channel, a byte codec), each with the lemmas its clients use.
\<close>

unbundle bit_operations_syntax

named_theorems rust_defs \<open>definitions of the Rust standard library operations the model uses\<close>
named_theorems addr_defs \<open>definitions of the address predicates\<close>

section \<open>Machine integers and results\<close>

type_synonym u8 = "8 word"
type_synonym u16 = "16 word"
type_synonym u32 = "32 word"
type_synonym u128 = "128 word"
type_synonym bytes = "u8 list"

text \<open>A fallible call is \<open>Inl\<close> of its error or \<open>Inr\<close> of its value; \<open>and_then\<close> is the \<open>?\<close> operator.\<close>

fun and_then :: "'e + 'a \<Rightarrow> ('a \<Rightarrow> 'e + 'b) \<Rightarrow> 'e + 'b" where
  "and_then (Inl e) f = Inl e"
| "and_then (Inr x) f = f x"

fun ok_or :: "'e \<Rightarrow> 'a option \<Rightarrow> 'e + 'a" where
  "ok_or e None = Inl e"
| "ok_or e (Some x) = Inr x"

definition ensure :: "bool \<Rightarrow> 'e \<Rightarrow> 'e + unit" where
  "ensure b e = (if b then Inr () else Inl e)"

definition is_ok :: "'e + 'a \<Rightarrow> bool" where
  "is_ok r = (case r of Inl _ \<Rightarrow> False | Inr _ \<Rightarrow> True)"

lemma is_ok_simps [simp]: "is_ok (Inr x)" "\<not> is_ok (Inl e)"
  by (simp_all add: is_ok_def)

lemma and_then_Inr_iff: "and_then r f = Inr y \<longleftrightarrow> (\<exists>x. r = Inr x \<and> f x = Inr y)"
  by (cases r) auto

lemma and_then_Inl_iff: "and_then r f = Inl e \<longleftrightarrow> r = Inl e \<or> (\<exists>x. r = Inr x \<and> f x = Inl e)"
  by (cases r) auto

lemma is_ok_and_then: "is_ok (and_then r f) \<longleftrightarrow> (\<exists>x. r = Inr x \<and> is_ok (f x))"
  by (cases r) auto

lemma is_ok_iff: "is_ok r \<longleftrightarrow> (\<exists>x. r = Inr x)"
  by (cases r) auto

lemma ok_or_Inr_iff [simp]: "ok_or e x = Inr y \<longleftrightarrow> x = Some y"
  by (cases x) auto

lemma is_ok_ok_or [simp]: "is_ok (ok_or e x) \<longleftrightarrow> x \<noteq> None"
  by (cases x) auto

lemma ensure_Inr_iff [simp]: "ensure b e = Inr u \<longleftrightarrow> b"
  by (simp add: ensure_def)

lemma ensure_Inl_iff [simp]: "ensure b e = Inl e' \<longleftrightarrow> \<not> b \<and> e' = e"
  by (auto simp: ensure_def)

lemma is_ok_ensure [simp]: "is_ok (ensure b e) \<longleftrightarrow> b"
  by (simp add: ensure_def)

fun unwrap_or :: "'a \<Rightarrow> 'a option \<Rightarrow> 'a" where
  "unwrap_or d None = d"
| "unwrap_or d (Some x) = x"

fun map_err :: "('e \<Rightarrow> 'f) \<Rightarrow> 'e + 'a \<Rightarrow> 'f + unit" where
  "map_err f (Inl e) = Inl (f e)"
| "map_err f (Inr x) = Inr ()"

lemma map_err_Inr_iff [simp]: "map_err f r = Inr u \<longleftrightarrow> is_ok r"
  by (cases r) auto

text \<open>\<open>Iterator::max_by_key\<close>: of several maximal elements the last one is returned.\<close>

fun max_by_key :: "('a \<Rightarrow> nat) \<Rightarrow> 'a list \<Rightarrow> 'a option" where
  "max_by_key f [] = None"
| "max_by_key f (x # xs) =
     (case max_by_key f xs of None \<Rightarrow> Some x | Some y \<Rightarrow> if f x \<le> f y then Some y else Some x)"

lemma max_by_key_None_iff [simp]: "max_by_key f xs = None \<longleftrightarrow> xs = []"
  by (cases xs) (auto split: option.splits if_splits)

lemma max_by_key_SomeD:
  "max_by_key f xs = Some y \<Longrightarrow> y \<in> set xs \<and> (\<forall>x \<in> set xs. f x \<le> f y)"
  by (induction xs arbitrary: y) (force split: option.splits if_splits)+

text \<open>\<open>usize::saturating_sub\<close> is the truncated subtraction of \<open>nat\<close>; named for the reader.\<close>

definition saturating_sub :: "nat \<Rightarrow> nat \<Rightarrow> nat" where
  [simp, rust_defs]: "saturating_sub a b = a - b"

section \<open>Big-endian 16-bit integers\<close>

definition be16_of_bytes :: "u8 \<Rightarrow> u8 \<Rightarrow> u16" where
  "be16_of_bytes a b = push_bit 8 (ucast a) OR ucast b"

definition be16_bytes :: "u16 \<Rightarrow> bytes" where
  "be16_bytes w = [ucast (drop_bit 8 w), ucast w]"

lemma be16_of_be16_bytes [simp]: "be16_of_bytes (ucast (drop_bit 8 w)) (ucast w) = w"
  by (simp add: be16_of_bytes_def) (rule bit_word_eqI, auto simp: bit_simps)

lemma length_be16_bytes [simp]: "length (be16_bytes w) = 2"
  by (simp add: be16_bytes_def)

lemma be16_bytes_of_bytes: "be16_bytes (be16_of_bytes a b) = [a, b]"
  unfolding be16_bytes_def be16_of_bytes_def
  by (intro list.inject [THEN iffD2] conjI refl bit_word_eqI) (auto simp: bit_simps dest: bit_imp_le_length)

lemma unat_be16_of_bytes: "unat (be16_of_bytes a b) = 256 * unat a + unat b"
proof -
  have d: "push_bit 8 (ucast a :: u16) AND ucast b = 0"
    by (rule bit_word_eqI) (auto simp: bit_simps dest: bit_imp_le_length)
  have "unat a < 256" "unat b < 256"
    using unsigned_less [of a] unsigned_less [of b] by simp_all
  then have "unat (push_bit 8 (ucast a :: u16)) = 256 * unat a"
    by (simp add: push_bit_eq_mult unat_word_ariths unsigned_ucast_eq take_bit_nat_eq_self)
  moreover have "push_bit 8 (ucast a :: u16) OR ucast b = push_bit 8 (ucast a) + ucast b"
    using d by (simp add: disjunctive_add_eq_or)
  ultimately show ?thesis
    using \<open>unat a < 256\<close> \<open>unat b < 256\<close>
    by (simp add: be16_of_bytes_def unat_word_ariths unsigned_ucast_eq take_bit_nat_eq_self)
qed

section \<open>Interfaces shared by several components\<close>

text \<open>
  A transition system whose steps keep an invariant. Its client lemma lifts the invariant to
  every reachable state.
\<close>

locale transition_system =
  fixes initial :: "'s \<Rightarrow> bool"
    and step :: "'s \<Rightarrow> 's \<Rightarrow> bool"
    and inv :: "'s \<Rightarrow> bool"
  assumes inv_initial: "initial s \<Longrightarrow> inv s"
    and inv_step: "inv s \<Longrightarrow> step s t \<Longrightarrow> inv t"
begin

lemma inv_steps: "step\<^sup>*\<^sup>* s t \<Longrightarrow> inv s \<Longrightarrow> inv t"
  by (induction rule: rtranclp_induct) (auto intro: inv_step)

lemma inv_reachable: "initial s \<Longrightarrow> step\<^sup>*\<^sup>* s t \<Longrightarrow> inv t"
  by (blast intro: inv_steps inv_initial)

end

text \<open>
  A handler run over a sequence of inputs, each step keeping an invariant and adding to an output.
\<close>

locale handler =
  fixes handle :: "'e \<Rightarrow> 's \<Rightarrow> 's"
    and inv :: "'s \<Rightarrow> bool"
  assumes inv_handle: "inv s \<Longrightarrow> inv (handle e s)"
begin

lemma inv_fold: "inv s \<Longrightarrow> inv (fold handle es s)"
  by (induction es arbitrary: s) (auto intro: inv_handle)

end

text \<open>A handler each turn of which adds to an output only from what its input carries loses, but never adds or reorders.\<close>

lemma fold_subseq:
  assumes turn: "\<And>x s. \<exists>ys. out (f x s) = out s @ ys \<and> subseq ys (carried x)"
  shows "\<exists>ys. out (fold f xs s) = out s @ ys \<and> subseq ys (concat (map carried xs))"
proof (induction xs arbitrary: s)
  case (Cons x xs)
  obtain ys zs where "out (f x s) = out s @ ys" "subseq ys (carried x)"
    "out (fold f xs (f x s)) = out (f x s) @ zs" "subseq zs (concat (map carried xs))"
    using turn [of x s] Cons.IH by blast
  then show ?case by (auto intro: list_emb_append_mono)
qed simp

text \<open>
  A counting semaphore: \<open>held\<close> permits are out, at most \<open>cap\<close> of them.
\<close>

locale semaphore =
  fixes acquire :: "'s \<Rightarrow> 's option"
    and release :: "'s \<Rightarrow> 's"
    and held :: "'s \<Rightarrow> nat"
    and cap :: nat
  assumes acquire_Some: "acquire s = Some s' \<Longrightarrow> held s < cap \<and> held s' = Suc (held s)"
    and acquire_None: "acquire s = None \<longleftrightarrow> cap \<le> held s"
    and held_release: "held (release s) = held s - 1"
begin

lemma acquire_bound: "acquire s = Some s' \<Longrightarrow> held s' \<le> cap"
  using acquire_Some by force

lemma release_bound: "held s \<le> cap \<Longrightarrow> held (release s) \<le> cap"
  by (simp add: held_release)

lemma acquire_release: "acquire s = Some s' \<Longrightarrow> held (release s') = held s"
  using acquire_Some [of s s'] by (simp add: held_release)

lemma acquire_after_release: "0 < held s \<Longrightarrow> held s \<le> cap \<Longrightarrow> acquire (release s) \<noteq> None"
  by (auto simp: acquire_None held_release)

end

text \<open>The reference semaphore: a counter.\<close>

definition counter_acquire :: "nat \<Rightarrow> nat \<Rightarrow> nat option" where
  "counter_acquire cap n = (if n < cap then Some (n + 1) else None)"

definition counter_release :: "nat \<Rightarrow> nat" where
  "counter_release n = n - 1"

interpretation counter: semaphore "counter_acquire cap" counter_release id cap for cap
  by unfold_locales (auto simp: counter_acquire_def counter_release_def split: if_splits)

text \<open>What every sender of the program does with \<open>try_send\<close>: a full channel drops the item.\<close>

definition send_or_drop :: "('a \<Rightarrow> 'q \<Rightarrow> 'q option) \<Rightarrow> 'a \<Rightarrow> 'q \<Rightarrow> 'q" where
  "send_or_drop try_send x q = (case try_send x q of None \<Rightarrow> q | Some q' \<Rightarrow> q')"

text \<open>
  A bounded first-in first-out channel with a sender that never waits (\<open>try_send\<close>).
\<close>

locale bounded_channel =
  fixes try_send :: "'a \<Rightarrow> 'q \<Rightarrow> 'q option"
    and receive :: "'q \<Rightarrow> ('a \<times> 'q) option"
    and items :: "'q \<Rightarrow> 'a list"
    and cap :: nat
  assumes try_send_Some: "try_send x q = Some q' \<Longrightarrow> length (items q) < cap \<and> items q' = items q @ [x]"
    and try_send_None: "try_send x q = None \<longleftrightarrow> cap \<le> length (items q)"
    and receive_None: "receive q = None \<longleftrightarrow> items q = []"
    and receive_Some: "receive q = Some (x, q') \<Longrightarrow> items q = x # items q'"
begin

lemma items_offer:
  "items (send_or_drop try_send x q) = (if length (items q) < cap then items q @ [x] else items q)"
proof (cases "try_send x q")
  case None
  then show ?thesis using try_send_None [of x q] by (simp add: send_or_drop_def)
next
  case (Some q')
  then show ?thesis using try_send_Some by (simp add: send_or_drop_def)
qed

lemma offer_bound: "length (items q) \<le> cap \<Longrightarrow> length (items (send_or_drop try_send x q)) \<le> cap"
  by (simp add: items_offer)

lemma offers_bound: "length (items q) \<le> cap \<Longrightarrow> length (items (fold (send_or_drop try_send) xs q)) \<le> cap"
  by (induction xs arbitrary: q) (auto intro: offer_bound)

lemma offers_prefix: "\<exists>ys. items (fold (send_or_drop try_send) xs q) = items q @ ys \<and> subseq ys xs"
proof (induction xs arbitrary: q)
  case Nil
  then show ?case by simp
next
  case (Cons x xs)
  obtain ys where "items (fold (send_or_drop try_send) xs (send_or_drop try_send x q)) = items (send_or_drop try_send x q) @ ys" "subseq ys xs"
    using Cons.IH by blast
  then show ?case by (auto simp: items_offer intro: subseq_Cons')
qed

lemma offers_all:
  "length (items q) + length xs \<le> cap \<Longrightarrow> items (fold (send_or_drop try_send) xs q) = items q @ xs"
  by (induction xs arbitrary: q) (auto simp: items_offer)

text \<open>What does not fit is dropped from the tail.\<close>

lemma offers_take:
  "length (items q) \<le> cap \<Longrightarrow> items (fold (send_or_drop try_send) xs q) = take cap (items q @ xs)"
proof (induction xs arbitrary: q)
  case (Cons x xs)
  show ?case
  proof (cases "length (items q) < cap")
    case True
    with Cons.IH [of "send_or_drop try_send x q"] show ?thesis by (simp add: items_offer)
  next
    case False
    with Cons have "items (fold (send_or_drop try_send) xs (send_or_drop try_send x q)) = take cap (items q @ xs)"
      using Cons.IH [of "send_or_drop try_send x q"] by (simp add: items_offer)
    with False Cons.prems show ?thesis by simp
  qed
qed simp

end

text \<open>
  Labelled runs, and refinement between two systems with the same labels: a simulation carries every run of the
  concrete system over to the abstract one, label by label.
\<close>

inductive run_of :: "('s \<Rightarrow> 'l \<Rightarrow> 's \<Rightarrow> bool) \<Rightarrow> 's \<Rightarrow> 'l list \<Rightarrow> 's \<Rightarrow> bool" for step where
  run_nil: "run_of step s [] s"
| run_cons: "step s l t \<Longrightarrow> run_of step t ls u \<Longrightarrow> run_of step s (l # ls) u"

inductive_simps run_of_simps [simp]: "run_of step s [] t" "run_of step s (l # ls) t"

lemma run_of_append: "run_of step s (ls @ ms) u \<longleftrightarrow> (\<exists>t. run_of step s ls t \<and> run_of step t ms u)"
  by (induction ls arbitrary: s) auto

locale simulation =
  fixes cstep :: "'c \<Rightarrow> 'l \<Rightarrow> 'c \<Rightarrow> bool"
    and astep :: "'a \<Rightarrow> 'l \<Rightarrow> 'a \<Rightarrow> bool"
    and related :: "'c \<Rightarrow> 'a \<Rightarrow> bool"
  assumes simulates: "related c a \<Longrightarrow> cstep c l c' \<Longrightarrow> \<exists>a'. astep a l a' \<and> related c' a'"
begin

lemma run_simulated: "run_of cstep c ls c' \<Longrightarrow> related c a \<Longrightarrow> \<exists>a'. run_of astep a ls a' \<and> related c' a'"
proof (induction arbitrary: a rule: run_of.induct)
  case (run_cons c l t ls u)
  from simulates [OF run_cons.prems run_cons.hyps(1)] obtain b where "astep a l b" "related t b" by blast
  with run_cons.IH [of b] show ?case by (auto intro: run_of.run_cons)
qed auto

end

text \<open>The reference channel: a list that refuses what does not fit.\<close>

definition list_send :: "nat \<Rightarrow> 'a \<Rightarrow> 'a list \<Rightarrow> 'a list option" where
  "list_send cap x q = (if length q < cap then Some (q @ [x]) else None)"

fun list_receive :: "'a list \<Rightarrow> ('a \<times> 'a list) option" where
  "list_receive [] = None"
| "list_receive (x # q) = Some (x, q)"

interpretation list_channel: bounded_channel "list_send cap" list_receive id cap for cap
proof
  fix q :: "'a list" show "list_receive q = None \<longleftrightarrow> id q = []" by (cases q) simp_all
next
  fix q q' :: "'a list" and x assume "list_receive q = Some (x, q')"
  then show "id q = x # id q'" by (cases q) simp_all
qed (auto simp: list_send_def split: if_splits)

text \<open>
  A self-delimiting byte codec: decoding reads back what was encoded and leaves the rest.
\<close>

locale byte_codec =
  fixes enc :: "'a \<Rightarrow> bytes"
    and dec :: "bytes \<Rightarrow> ('a \<times> bytes) option"
  assumes dec_enc: "dec (enc x @ rest) = Some (x, rest)"
begin

lemma enc_append_inject: "enc x @ r = enc y @ s \<longleftrightarrow> x = y \<and> r = s"
  by (metis dec_enc option.inject prod.inject)

lemma enc_inject: "enc x = enc y \<longleftrightarrow> x = y"
  using enc_append_inject [of x "[]" y "[]"] by simp

lemma enc_prefix_free:
  assumes "prefix (enc x) (enc y)"
  shows "x = y"
proof -
  from assms obtain r where "enc y @ [] = enc x @ r" by (auto simp: prefix_def)
  then show ?thesis by (simp only: enc_append_inject)
qed

end

end
