(* ===== verification/Rust_Str.thy ===== *)
theory Rust_Str
  imports Prelude
begin

text \<open>
  The operations of Rust's \<open>str\<close> and \<open>String\<close> the program uses. A string is its UTF-8 encoding,
  a list of bytes; Isabelle's \<open>char\<close> is a byte, so literals read as in the source.
\<close>

section \<open>Splitting and trimming\<close>

fun strip_prefix :: "string \<Rightarrow> string \<Rightarrow> string option" where
  "strip_prefix [] s = Some s"
| "strip_prefix (c # cs) [] = None"
| "strip_prefix (c # cs) (x # xs) = (if c = x then strip_prefix cs xs else None)"

lemma strip_prefix_append [simp]: "strip_prefix p (p @ s) = Some s"
  by (induction p) auto

lemma strip_prefix_SomeD: "strip_prefix p s = Some r \<Longrightarrow> s = p @ r"
  by (induction p s rule: strip_prefix.induct) (auto split: if_splits)

lemma strip_prefix_Some_iff: "strip_prefix p s = Some r \<longleftrightarrow> s = p @ r"
  using strip_prefix_SomeD by auto

text \<open>\<open>split_once\<close> and \<open>rsplit_once\<close> cut at the first and the last occurrence.\<close>

fun split_once :: "char \<Rightarrow> string \<Rightarrow> (string \<times> string) option" where
  "split_once c [] = None"
| "split_once c (x # xs) =
     (if x = c then Some ([], xs)
      else map_option (\<lambda>(a, b). (x # a, b)) (split_once c xs))"

fun rsplit_once :: "char \<Rightarrow> string \<Rightarrow> (string \<times> string) option" where
  "rsplit_once c [] = None"
| "rsplit_once c (x # xs) =
     (case rsplit_once c xs of
        Some (a, b) \<Rightarrow> Some (x # a, b)
      | None \<Rightarrow> if x = c then Some ([], xs) else None)"

lemma split_once_SomeD: "split_once c s = Some (a, b) \<Longrightarrow> s = a @ c # b \<and> c \<notin> set a"
  by (induction s arbitrary: a b) (auto split: if_splits)

lemma split_once_append [simp]: "c \<notin> set a \<Longrightarrow> split_once c (a @ c # b) = Some (a, b)"
  by (induction a) auto

lemma split_once_None_iff: "split_once c s = None \<longleftrightarrow> c \<notin> set s"
  by (induction s) auto

lemma rsplit_once_None_iff: "rsplit_once c s = None \<longleftrightarrow> c \<notin> set s"
  by (induction s) (auto split: option.splits)

lemma rsplit_once_SomeD: "rsplit_once c s = Some (a, b) \<Longrightarrow> s = a @ c # b \<and> c \<notin> set b"
  by (induction s arbitrary: a b)
    (auto simp: rsplit_once_None_iff [symmetric] split: option.splits if_splits)

lemma rsplit_once_append [simp]: "c \<notin> set b \<Longrightarrow> rsplit_once c (a @ c # b) = Some (a, b)"
  by (induction a) (auto simp: rsplit_once_None_iff [THEN iffD2])

lemma rsplit_once_Some_iff: "rsplit_once c s = Some (a, b) \<longleftrightarrow> s = a @ c # b \<and> c \<notin> set b"
  using rsplit_once_SomeD by auto

text \<open>\<open>split\<close> by a set of separators, and \<open>split_once\<close> at a separator string.\<close>

fun split_on :: "(char \<Rightarrow> bool) \<Rightarrow> string \<Rightarrow> string list" where
  "split_on p [] = [[]]"
| "split_on p (x # xs) =
     (if p x then [] # split_on p xs
      else (case split_on p xs of [] \<Rightarrow> [[x]] | y # ys \<Rightarrow> (x # y) # ys))"

fun split_once_str :: "string \<Rightarrow> string \<Rightarrow> (string \<times> string) option" where
  "split_once_str p [] = (if p = [] then Some ([], []) else None)"
| "split_once_str p (x # xs) =
     (case strip_prefix p (x # xs) of
        Some r \<Rightarrow> Some ([], r)
      | None \<Rightarrow> map_option (\<lambda>(a, b). (x # a, b)) (split_once_str p xs))"

lemma split_on_nonempty [simp]: "split_on p s \<noteq> []"
  by (induction s) (auto split: list.splits)

lemma split_on_pieces: "y \<in> set (split_on p s) \<Longrightarrow> x \<in> set y \<Longrightarrow> \<not> p x"
proof (induction s arbitrary: y)
  case (Cons a s)
  then show ?case
    by (cases "split_on p s") (fastforce split: if_splits)+
qed simp

lemma hd_split_on: "hd (split_on p s) = takeWhile (\<lambda>x. \<not> p x) s"
proof (induction s)
  case (Cons x xs)
  then show ?case by (cases "split_on p xs") auto
qed simp

text \<open>
  Unicode white space, as \<open>trim\<close>, \<open>trim_start\<close> and \<open>split_whitespace\<close> see it: the UTF-8 encodings
  of the \<open>White_Space\<close> code points.
\<close>

definition ws_seqs :: "string list" where
  "ws_seqs = map (map char_of)
     ([[9], [10], [11], [12], [13], [32], [0xC2, 0x85], [0xC2, 0xA0], [0xE1, 0x9A, 0x80 :: nat]]
      @ map (\<lambda>b. [0xE2, 0x80, b]) [0x80, 0x81, 0x82, 0x83, 0x84, 0x85, 0x86, 0x87, 0x88, 0x89, 0x8A]
      @ [[0xE2, 0x80, 0xA8], [0xE2, 0x80, 0xA9], [0xE2, 0x80, 0xAF], [0xE2, 0x81, 0x9F], [0xE3, 0x80, 0x80]])"

fun strip_any :: "string list \<Rightarrow> string \<Rightarrow> string option" where
  "strip_any [] s = None"
| "strip_any (p # ps) s = (case strip_prefix p s of Some r \<Rightarrow> Some r | None \<Rightarrow> strip_any ps s)"

text \<open>Stripping goes on while a sequence matches; the length of the string is enough fuel.\<close>

fun strip_all_fuel :: "string list \<Rightarrow> nat \<Rightarrow> string \<Rightarrow> string" where
  "strip_all_fuel ps 0 s = s"
| "strip_all_fuel ps (Suc n) s = (case strip_any ps s of None \<Rightarrow> s | Some r \<Rightarrow> strip_all_fuel ps n r)"

definition trim_start :: "string \<Rightarrow> string" where
  "trim_start s = strip_all_fuel ws_seqs (length s) s"

definition trim_end :: "string \<Rightarrow> string" where
  "trim_end s = rev (strip_all_fuel (map rev ws_seqs) (length s) (rev s))"

definition trim :: "string \<Rightarrow> string" where
  "trim s = trim_end (trim_start s)"

lemma strip_any_SomeD: "strip_any ps s = Some r \<Longrightarrow> \<exists>p \<in> set ps. s = p @ r"
  by (induction ps s rule: strip_any.induct)
    (auto dest: strip_prefix_SomeD split: option.splits)

lemma strip_any_None_iff: "strip_any ps s = None \<longleftrightarrow> (\<forall>p \<in> set ps. \<not> prefix p s)"
  by (induction ps s rule: strip_any.induct)
    (auto simp: prefix_def strip_prefix_Some_iff split: option.splits)

lemma strip_all_fuel_enough:
  "[] \<notin> set ps \<Longrightarrow> length s \<le> n \<Longrightarrow> strip_any ps (strip_all_fuel ps n s) = None"
proof (induction n arbitrary: s)
  case 0
  then show ?case by (auto simp: strip_any_None_iff)
next
  case (Suc n)
  show ?case
  proof (cases "strip_any ps s")
    case None
    then show ?thesis by simp
  next
    case (Some r)
    then obtain p where p: "p \<in> set ps" "s = p @ r" by (blast dest: strip_any_SomeD)
    with Suc.prems have "length r \<le> n" by (cases p) auto
    with Some Suc show ?thesis by simp
  qed
qed

lemma ws_seqs_nonempty [simp]: "[] \<notin> set ws_seqs" "[] \<notin> set (map rev ws_seqs)"
  by (simp_all add: ws_seqs_def)

section \<open>Characters and numbers\<close>

definition to_ascii_lowercase :: "string \<Rightarrow> string" where
  "to_ascii_lowercase = map (\<lambda>c. if 65 \<le> (of_char c :: nat) \<and> (of_char c :: nat) \<le> 90
                                 then char_of ((of_char c :: nat) + 32) else c)"

fun digit_val :: "nat \<Rightarrow> char \<Rightarrow> nat option" where
  "digit_val r c =
     (let n = of_char c :: nat;
          d = (if 48 \<le> n \<and> n \<le> 57 then n - 48
               else if 97 \<le> n \<and> n \<le> 122 then n - 87
               else if 65 \<le> n \<and> n \<le> 90 then n - 55 else r)
      in if d < r then Some d else None)"

fun digits_val :: "nat \<Rightarrow> nat \<Rightarrow> nat \<Rightarrow> string \<Rightarrow> nat option" where
  "digits_val r m acc [] = Some acc"
| "digits_val r m acc (c # cs) =
     (case digit_val r c of
        None \<Rightarrow> None
      | Some d \<Rightarrow> if acc * r + d \<le> m then digits_val r m (acc * r + d) cs else None)"

text \<open>
  \<open>from_str_radix\<close> of an unsigned type with maximum \<open>m\<close>: empty is an error, one leading plus sign
  is accepted when something follows it, every other character must be a digit, and overflow is an
  error. \<open>parse\<close> is the same at radix ten.
\<close>

definition from_str_radix :: "nat \<Rightarrow> nat \<Rightarrow> string \<Rightarrow> nat option" where
  "from_str_radix m r s =
     (case s of
        [] \<Rightarrow> None
      | c # cs \<Rightarrow> if c = CHR ''+'' \<and> cs \<noteq> [] then digits_val r m 0 cs else digits_val r m 0 s)"

definition parse_u16 :: "string \<Rightarrow> nat option" where
  "parse_u16 = from_str_radix 65535 10"

definition parse_u32 :: "string \<Rightarrow> nat option" where
  "parse_u32 = from_str_radix 4294967295 10"

lemma digits_val_le: "digits_val r m acc s = Some n \<Longrightarrow> acc \<le> m \<Longrightarrow> n \<le> m"
  by (induction r m acc s rule: digits_val.induct) (auto split: option.splits if_splits)

lemma from_str_radix_le: "from_str_radix m r s = Some n \<Longrightarrow> n \<le> m"
  unfolding from_str_radix_def
  by (auto simp del: digits_val.simps dest: digits_val_le split: list.splits if_splits)

lemma parse_u16_le: "parse_u16 s = Some n \<Longrightarrow> n < 65536"
  by (auto simp: parse_u16_def dest: from_str_radix_le)

section \<open>UTF-8\<close>

definition byte :: "char \<Rightarrow> nat" where
  "byte c = of_char c"

definition is_cont :: "char \<Rightarrow> bool" where
  "is_cont c \<longleftrightarrow> 128 \<le> byte c \<and> byte c < 192"

lemma byte_less [simp]: "byte c < 256"
  by (simp add: byte_def)

lemma char_of_byte [simp]: "char_of (byte c) = c"
  by (simp add: byte_def)

lemma byte_char_of [simp]: "n < 256 \<Longrightarrow> byte (char_of n) = n"
  by (simp add: byte_def)

lemma byte_literal [simp]:
  "byte (Char b0 b1 b2 b3 b4 b5 b6 b7) = of_char (Char b0 b1 b2 b3 b4 b5 b6 b7)"
  by (simp add: byte_def)

text \<open>\<open>str::get\<close> with a byte range: none past the end or inside a character.\<close>

definition is_char_boundary :: "string \<Rightarrow> nat \<Rightarrow> bool" where
  "is_char_boundary s i \<longleftrightarrow> i = 0 \<or> i = length s \<or> (i < length s \<and> \<not> is_cont (s ! i))"

definition str_get :: "string \<Rightarrow> nat \<Rightarrow> nat \<Rightarrow> string option" where
  "str_get s i j =
     (if i \<le> j \<and> is_char_boundary s i \<and> is_char_boundary s j then Some (take (j - i) (drop i s)) else None)"

text \<open>
  One step of the lossy decoder: is the next character well formed, and how many bytes does it (or
  the maximal ill-formed part) take. \<open>safe\<close> reads 0 past the end, as the library's does.
\<close>

definition safe :: "string \<Rightarrow> nat \<Rightarrow> nat" where
  "safe s i = (if i < length s then byte (s ! i) else 0)"

definition cont_at :: "string \<Rightarrow> nat \<Rightarrow> bool" where
  "cont_at s i \<longleftrightarrow> 128 \<le> safe s i \<and> safe s i < 192"

definition second_ok :: "nat \<Rightarrow> nat \<Rightarrow> bool" where
  "second_ok b0 b1 \<longleftrightarrow>
     (if b0 = 0xE0 then 0xA0 \<le> b1 \<and> b1 \<le> 0xBF
      else if b0 = 0xED then 0x80 \<le> b1 \<and> b1 \<le> 0x9F
      else if b0 = 0xF0 then 0x90 \<le> b1 \<and> b1 \<le> 0xBF
      else if b0 = 0xF4 then 0x80 \<le> b1 \<and> b1 \<le> 0x8F
      else 0x80 \<le> b1 \<and> b1 \<le> 0xBF)"

definition utf8_next :: "string \<Rightarrow> bool \<times> nat" where
  "utf8_next s =
     (let b0 = safe s 0 in
      if b0 < 0x80 then (True, 1)
      else if 0xC2 \<le> b0 \<and> b0 \<le> 0xDF then (if cont_at s 1 then (True, 2) else (False, 1))
      else if 0xE0 \<le> b0 \<and> b0 \<le> 0xEF then
        (if \<not> second_ok b0 (safe s 1) then (False, 1)
         else if cont_at s 2 then (True, 3) else (False, 2))
      else if 0xF0 \<le> b0 \<and> b0 \<le> 0xF4 then
        (if \<not> second_ok b0 (safe s 1) then (False, 1)
         else if \<not> cont_at s 2 then (False, 2)
         else if cont_at s 3 then (True, 4) else (False, 3))
      else (False, 1))"

lemma utf8_next_pos: "0 < snd (utf8_next s)"
  by (simp add: utf8_next_def Let_def)

lemma utf8_next_drop: "(ok, n) = utf8_next s \<Longrightarrow> s \<noteq> [] \<Longrightarrow> 0 < n"
  by (metis utf8_next_pos snd_conv)

lemma utf8_next_ascii: "byte c < 128 \<Longrightarrow> utf8_next (c # s) = (True, 1)"
  by (simp add: utf8_next_def safe_def)

definition replacement_char :: string where
  "replacement_char = map char_of [0xEF, 0xBF, 0xBD :: nat]"

function from_utf8_lossy :: "string \<Rightarrow> string" where
  "from_utf8_lossy s =
     (if s = [] then []
      else (let (ok, n) = utf8_next s
            in (if ok then take n s else replacement_char) @ from_utf8_lossy (drop n s)))"
  by pat_completeness auto
termination
  by (relation "measure length") (auto simp: utf8_next_drop)

function utf8_valid :: "string \<Rightarrow> bool" where
  "utf8_valid s =
     (if s = [] then True else (let (ok, n) = utf8_next s in ok \<and> utf8_valid (drop n s)))"
  by pat_completeness auto
termination
  by (relation "measure length") (auto simp: utf8_next_drop)

declare from_utf8_lossy.simps [simp del] utf8_valid.simps [simp del]

lemma from_utf8_lossy_valid: "utf8_valid s \<Longrightarrow> from_utf8_lossy s = s"
proof (induction s rule: from_utf8_lossy.induct)
  case (1 s)
  show ?case
  proof (cases "s = []")
    case False
    with "1.prems" have "fst (utf8_next s)" "utf8_valid (drop (snd (utf8_next s)) s)"
      by (simp_all add: utf8_valid.simps [of s] split: prod.splits)
    with False "1.IH" show ?thesis
      by (cases "utf8_next s") (simp add: from_utf8_lossy.simps [of s])
  qed (simp add: from_utf8_lossy.simps)
qed

lemma utf8_valid_ascii: "\<forall>c \<in> set s. byte c < 128 \<Longrightarrow> utf8_valid s"
proof (induction s)
  case (Cons c s)
  then show ?case
    by (simp add: utf8_valid.simps [of "c # s"] utf8_next_ascii)
qed (simp add: utf8_valid.simps)

end
