(* ===== verification/Rust_Net.thy ===== *)
theory Rust_Net
  imports Rust_Str
begin

text \<open>
  Addresses as \<open>std::net\<close> has them, and the interface of the \<open>ipnet\<close> crate the program relies on. An
  IPv4 address is a 32-bit word, an IPv6 address a 128-bit word; octets and segments are read off
  big-endian.
\<close>

section \<open>Big-endian words and byte strings\<close>

definition be_word :: "bytes \<Rightarrow> 'w::len word" where
  "be_word bs = foldl (\<lambda>w b. push_bit 8 w OR ucast b) 0 bs"

definition be_bytes :: "nat \<Rightarrow> 'w::len word \<Rightarrow> bytes" where
  "be_bytes n w = map (\<lambda>i. ucast (drop_bit (8 * (n - Suc i)) w)) [0..<n]"

lemma length_be_bytes [simp]: "length (be_bytes n w) = n"
  by (simp add: be_bytes_def)

lemma be_bytes_nth: "i < n \<Longrightarrow> be_bytes n w ! i = ucast (drop_bit (8 * (n - Suc i)) w)"
  by (simp add: be_bytes_def)

lemma bit_be_word:
  "bit (be_word bs :: 'w::len word) k \<longleftrightarrow>
     k < LENGTH('w) \<and> k < 8 * length bs \<and> bit (rev bs ! (k div 8)) (k mod 8)"
proof (induction bs arbitrary: k rule: rev_induct)
  case Nil
  then show ?case by (simp add: be_word_def)
next
  case (snoc b bs)
  have "bit (be_word (bs @ [b]) :: 'w word) k \<longleftrightarrow>
      k < LENGTH('w) \<and> (if k < 8 then bit b k else bit (be_word bs :: 'w word) (k - 8))"
    by (auto simp: be_word_def bit_simps dest: bit_imp_le_length)
  also have "\<dots> \<longleftrightarrow> k < LENGTH('w) \<and> k < 8 * length (bs @ [b])
      \<and> bit (rev (bs @ [b]) ! (k div 8)) (k mod 8)"
  proof (cases "k < 8")
    case False
    then have "k div 8 = Suc ((k - 8) div 8)" "(k - 8) mod 8 = k mod 8"
      by (simp_all add: le_div_geq le_mod_geq)
    with False show ?thesis by (auto simp: snoc.IH)
  qed simp
  finally show ?case .
qed

lemma be_word_be_bytes:
  assumes "LENGTH('w) = 8 * n"
  shows "be_word (be_bytes n w) = (w :: 'w::len word)"
proof (rule bit_word_eqI)
  fix k assume "k < LENGTH('w)"
  with assms have k: "k < 8 * n" "k div 8 < n" by (simp_all add: less_mult_imp_div_less mult.commute)
  then have "rev (be_bytes n w) ! (k div 8) = ucast (drop_bit (8 * (k div 8)) w)"
    by (simp add: rev_nth be_bytes_nth)
  moreover have "8 * (k div 8) + k mod 8 = k" by simp
  ultimately show "bit (be_word (be_bytes n w) :: 'w word) k = bit w k"
    using k \<open>k < LENGTH('w)\<close> by (simp add: bit_be_word bit_simps)
qed

lemma be_bytes_be_word:
  assumes "length bs = n" "LENGTH('w) = 8 * n"
  shows "be_bytes n (be_word bs :: 'w::len word) = bs"
proof (rule nth_equalityI)
  fix i assume "i < length (be_bytes n (be_word bs :: 'w word))"
  then have i: "i < n" by simp
  show "be_bytes n (be_word bs :: 'w word) ! i = bs ! i"
  proof (rule bit_word_eqI)
    fix k assume "k < LENGTH(8)"
    then have k: "k < 8" by simp
    let ?j = "8 * (n - Suc i) + k"
    have j: "?j < 8 * n" "?j div 8 = n - Suc i" "?j mod 8 = k" using i k by auto
    then have "bit (be_bytes n (be_word bs :: 'w word) ! i) k = bit (rev bs ! (n - Suc i)) k"
      using i k assms by (simp add: be_bytes_nth bit_simps bit_be_word)
    also have "rev bs ! (n - Suc i) = bs ! i" using i assms(1) by (simp add: rev_nth)
    finally show "bit (be_bytes n (be_word bs :: 'w word) ! i) k = bit (bs ! i) k" .
  qed
qed (use assms in simp)

section \<open>Addresses\<close>

datatype ip_addr = V4 u32 | V6 u128

record socket_addr =
  sa_ip :: ip_addr
  sa_port :: u16

definition sock :: "ip_addr \<Rightarrow> u16 \<Rightarrow> socket_addr" where
  "sock a p = \<lparr>sa_ip = a, sa_port = p\<rparr>"

lemma sock_simps [simp]: "sa_ip (sock a p) = a" "sa_port (sock a p) = p"
  by (simp_all add: sock_def)

fun is_ipv4 :: "ip_addr \<Rightarrow> bool" where
  "is_ipv4 (V4 _) = True"
| "is_ipv4 (V6 _) = False"

definition octet :: "u32 \<Rightarrow> nat \<Rightarrow> u8" where
  "octet a i = ucast (drop_bit (24 - 8 * i) a)"

definition v4_octets :: "u32 \<Rightarrow> bytes" where
  "v4_octets a = be_bytes 4 a"

definition v6_octets :: "u128 \<Rightarrow> bytes" where
  "v6_octets a = be_bytes 16 a"

definition segment :: "u128 \<Rightarrow> nat \<Rightarrow> u16" where
  "segment a i = ucast (drop_bit (112 - 16 * i) a)"

definition v4_addr :: "nat \<Rightarrow> nat \<Rightarrow> nat \<Rightarrow> nat \<Rightarrow> u32" where
  "v4_addr a b c d = of_nat (((a * 256 + b) * 256 + c) * 256 + d)"

fun v4_is_loopback :: "u32 \<Rightarrow> bool" where
  [addr_defs]: "v4_is_loopback a = (octet a 0 = 127)"

fun v4_is_unspecified :: "u32 \<Rightarrow> bool" where
  [addr_defs]: "v4_is_unspecified a = (a = 0)"

fun v4_is_multicast :: "u32 \<Rightarrow> bool" where
  [addr_defs]: "v4_is_multicast a = (224 \<le> octet a 0 \<and> octet a 0 \<le> 239)"

fun v4_is_broadcast :: "u32 \<Rightarrow> bool" where
  [addr_defs]: "v4_is_broadcast a = (a = 0xFFFFFFFF)"

fun v4_is_link_local :: "u32 \<Rightarrow> bool" where
  [addr_defs]: "v4_is_link_local a = (octet a 0 = 169 \<and> octet a 1 = 254)"

fun v6_is_loopback :: "u128 \<Rightarrow> bool" where
  [addr_defs]: "v6_is_loopback a = (a = 1)"

fun v6_is_unspecified :: "u128 \<Rightarrow> bool" where
  [addr_defs]: "v6_is_unspecified a = (a = 0)"

fun v6_is_multicast :: "u128 \<Rightarrow> bool" where
  [addr_defs]: "v6_is_multicast a = (segment a 0 AND 0xFF00 = 0xFF00)"

definition to_ipv4_mapped :: "u128 \<Rightarrow> u32 option" where
  "to_ipv4_mapped a = (if drop_bit 32 a = 0xFFFF then Some (ucast a) else None)"

declare v4_is_loopback.simps [simp del] v4_is_unspecified.simps [simp del]
  v4_is_multicast.simps [simp del] v4_is_broadcast.simps [simp del] v4_is_link_local.simps [simp del]
  v6_is_loopback.simps [simp del] v6_is_unspecified.simps [simp del] v6_is_multicast.simps [simp del]

fun ip_is_unspecified :: "ip_addr \<Rightarrow> bool" where
  "ip_is_unspecified (V4 a) = v4_is_unspecified a"
| "ip_is_unspecified (V6 a) = v6_is_unspecified a"

text \<open>The top bits of a word as intervals: what a test of the leading octets means.\<close>

lemma unat_octet: "unat (octet a i) = unat a div 2 ^ (24 - 8 * i) mod 256"
  using unsigned_less [of a, where 'a = nat]
  by (simp add: octet_def unsigned_ucast_eq unsigned_drop_bit_eq take_bit_eq_mod flip: drop_bit_eq_div)

lemma unat_segment: "unat (segment a i) = unat a div 2 ^ (112 - 16 * i) mod 65536"
  using unsigned_less [of a, where 'a = nat]
  by (simp add: segment_def unsigned_ucast_eq unsigned_drop_bit_eq take_bit_eq_mod flip: drop_bit_eq_div)

section \<open>CIDR blocks and the \<open>ipnet\<close> interface\<close>

text \<open>
  \<open>same_prefix n a b\<close>: same family and the same leading \<open>n\<close> bits. It is the vocabulary in which the
  documented behaviour of \<open>ipnet\<close> is stated; it models no code of the program.
\<close>

fun ip_bits :: "ip_addr \<Rightarrow> nat" where
  "ip_bits (V4 _) = 32"
| "ip_bits (V6 _) = 128"

fun same_prefix :: "nat \<Rightarrow> ip_addr \<Rightarrow> ip_addr \<Rightarrow> bool" where
  "same_prefix n (V4 a) (V4 b) = (drop_bit (32 - n) a = drop_bit (32 - n) b)"
| "same_prefix n (V6 a) (V6 b) = (drop_bit (128 - n) a = drop_bit (128 - n) b)"
| "same_prefix n _ _ = False"

lemma same_prefix_refl [simp]: "same_prefix n a a"
  by (cases a) auto

lemma same_prefix_sym: "same_prefix n a b = same_prefix n b a"
  by (cases a; cases b) auto

lemma same_prefix_trans: "same_prefix n a b \<Longrightarrow> same_prefix n b c \<Longrightarrow> same_prefix n a c"
  by (cases a; cases b; cases c) auto

lemma drop_bit_mono_eq:
  assumes "drop_bit m a = drop_bit m (b :: 'w::len word)" "m \<le> k"
  shows "drop_bit k a = drop_bit k b"
proof -
  have "drop_bit k x = drop_bit (k - m) (drop_bit m x)" for x :: "'w word"
    using assms(2) by simp
  then show ?thesis using assms(1) by metis
qed

lemma same_prefix_mono: "same_prefix n a b \<Longrightarrow> m \<le> n \<Longrightarrow> same_prefix m a b"
  by (cases a; cases b) (auto intro: drop_bit_mono_eq)

lemma same_prefix_bits: "same_prefix n a b \<Longrightarrow> ip_bits a = ip_bits b"
  by (cases a; cases b) auto

text \<open>
  \<open>ipnet::IpNet\<close> is third-party code: its operations are a record of functions, an argument of every
  definition that uses them, and what its documentation promises is \<open>ipnet_documented\<close>.
\<close>

record 'net ipnet_lib =
  net_addr :: "'net \<Rightarrow> ip_addr"
  net_prefix_len :: "'net \<Rightarrow> nat"
  net_contains :: "'net \<Rightarrow> ip_addr \<Rightarrow> bool"
  net_contains_net :: "'net \<Rightarrow> 'net \<Rightarrow> bool"

definition ipnet_documented :: "'net ipnet_lib \<Rightarrow> bool" where
  "ipnet_documented L \<longleftrightarrow>
     (\<forall>n. net_prefix_len L n \<le> ip_bits (net_addr L n)) \<and>
     (\<forall>n a. net_contains L n a = same_prefix (net_prefix_len L n) (net_addr L n) a) \<and>
     (\<forall>n m. net_contains_net L n m =
        (net_prefix_len L n \<le> net_prefix_len L m \<and> net_contains L n (net_addr L m)))"

lemma ipnet_documentedD:
  assumes "ipnet_documented L"
  shows "net_contains L n a = same_prefix (net_prefix_len L n) (net_addr L n) a"
    and "net_contains_net L n m =
        (net_prefix_len L n \<le> net_prefix_len L m \<and> net_contains L n (net_addr L m))"
    and "net_prefix_len L n \<le> ip_bits (net_addr L n)"
  using assms by (simp_all add: ipnet_documented_def)

text \<open>A concrete instance of the interface, for closed examples: address and prefix length.\<close>

definition cidr_lib :: "(ip_addr \<times> nat) ipnet_lib" where
  "cidr_lib = \<lparr>net_addr = fst, net_prefix_len = (\<lambda>n. min (snd n) (ip_bits (fst n))),
     net_contains = (\<lambda>n a. same_prefix (min (snd n) (ip_bits (fst n))) (fst n) a),
     net_contains_net = (\<lambda>n m. min (snd n) (ip_bits (fst n)) \<le> min (snd m) (ip_bits (fst m))
        \<and> same_prefix (min (snd n) (ip_bits (fst n))) (fst n) (fst m))\<rparr>"

lemma cidr_lib_documented [simp]: "ipnet_documented cidr_lib"
  by (auto simp: ipnet_documented_def cidr_lib_def)

lemmas cidr_lib_simps =
  cidr_lib_def ipnet_lib.simps fst_conv snd_conv ip_bits.simps same_prefix.simps

text \<open>Two networks share an address exactly when one of them contains the other's base address.\<close>

lemma networks_overlap_iff:
  assumes "ipnet_documented L"
  shows "(\<exists>a. net_contains L n a \<and> net_contains L m a) \<longleftrightarrow>
      net_contains L n (net_addr L m) \<or> net_contains L m (net_addr L n)"
proof
  assume "\<exists>a. net_contains L n a \<and> net_contains L m a"
  then obtain a where "same_prefix (net_prefix_len L n) (net_addr L n) a"
      "same_prefix (net_prefix_len L m) (net_addr L m) a"
    using assms by (auto simp: ipnet_documentedD)
  then show "net_contains L n (net_addr L m) \<or> net_contains L m (net_addr L n)"
    using assms linear [of "net_prefix_len L n" "net_prefix_len L m"]
    by (metis ipnet_documentedD(1) same_prefix_mono same_prefix_sym same_prefix_trans)
next
  have "net_contains L n (net_addr L n)" "net_contains L m (net_addr L m)"
    using assms by (simp_all add: ipnet_documentedD)
  moreover assume "net_contains L n (net_addr L m) \<or> net_contains L m (net_addr L n)"
  ultimately show "\<exists>a. net_contains L n a \<and> net_contains L m a" by blast
qed

end
