(* ===== verification/Addr_Blocks.thy ===== *)
theory Addr_Blocks
  imports Rust_Net
begin

text \<open>
  Tests on the leading octets or segments of an address, rewritten as membership in a CIDR block:
  the top bits of the address, read as a number. The isolation rules of the server are stated with
  octet tests; their documentation is stated with CIDR blocks.
\<close>

lemma unat_drop_bit_div: "unat (drop_bit k w) = unat (w :: 'w::len word) div 2 ^ k"
  using unsigned_less [of w, where 'a = nat]
  by (simp add: unsigned_drop_bit_eq take_bit_eq_mod flip: drop_bit_eq_div)

lemma drop_bit_eq_iff_unat: "drop_bit k w = v \<longleftrightarrow> unat w div 2 ^ k = unat (v :: 'w::len word)"
by (simp add: word_eq_iff_unsigned [where 'a = nat] unat_drop_bit_div)

lemma and_not_mask_eq_iff:
  assumes "m = NOT (mask k)" "drop_bit k (push_bit k y) = (y :: 'w::len word)"
  shows "x AND m = push_bit k y \<longleftrightarrow> unat x div 2 ^ k = unat y"
proof -
  have "x AND NOT (mask k) = push_bit k (drop_bit k x)"
    by (rule bit_word_eqI) (auto simp: bit_simps)
  moreover have "drop_bit k (push_bit k (drop_bit k x)) = drop_bit k x"
    by (rule bit_word_eqI) (auto simp: bit_simps dest: bit_imp_le_length)
  ultimately show ?thesis using assms drop_bit_eq_iff_unat by metis
qed

lemma and_masks:
  "(x :: u8) AND 0xF0 = 16 \<longleftrightarrow> unat x div 16 = 1"
  "(x :: u8) AND 0xF0 = 240 \<longleftrightarrow> unat x div 16 = 15"
  "(x :: u8) AND 0xC0 = 64 \<longleftrightarrow> unat x div 64 = 1"
  "(x :: u8) AND 0xFE = 18 \<longleftrightarrow> unat x div 2 = 9"
  "(y :: u16) AND 0xFFC0 = 0xFE80 \<longleftrightarrow> unat y div 64 = 0x3FA"
  "(y :: u16) AND 0xFE00 = 0xFC00 \<longleftrightarrow> unat y div 512 = 0x7E"
  "(y :: u16) AND 0xFF00 = 0xFF00 \<longleftrightarrow> unat y div 256 = 0xFF"
  using and_not_mask_eq_iff [of "0xF0" 4 1 x] and_not_mask_eq_iff [of "0xF0" 4 15 x]
    and_not_mask_eq_iff [of "0xC0" 6 1 x] and_not_mask_eq_iff [of "0xFE" 1 9 x]
    and_not_mask_eq_iff [of "0xFFC0" 6 "0x3FA" y] and_not_mask_eq_iff [of "0xFE00" 9 "0x7E" y]
    and_not_mask_eq_iff [of "0xFF00" 8 "0xFF" y]
  by (simp_all add: mask_numeral word_eq_iff_unsigned [where 'a = nat])

lemma octets_unat:
  "unat (octet a 0) = unat a div 16777216"
  "unat (octet a (Suc 0)) = unat a div 65536 mod 256"
  "unat (octet a 2) = unat a div 256 mod 256"
  using unsigned_less [of a, where 'a = nat] by (simp_all add: unat_octet)

lemma div_digits: "s < m \<Longrightarrow> C div k = m * q + s \<longleftrightarrow> C div (k * m) = q \<and> C div k mod m = (s :: nat)"
  by (auto simp: mult.commute div_mult2_eq)

lemma mod_div_nat: "(C mod (k * m)) div k = C div k mod (m :: nat)"
  by (cases "k = 0") (simp_all add: mod_mult2_eq)

lemma octet_eq_iff: "octet a i = x \<longleftrightarrow> unat (octet a i) = unat x"
  by (rule word_eq_iff_unsigned)

lemma blk_172: "octet a 0 = 172 \<and> octet a 1 AND 0xF0 = 16 \<longleftrightarrow> unat a div 1048576 = 2753"
  using div_digits [of 1 16 "unat a" 1048576 172] mod_div_nat [of "unat a div 65536" 16 16]
  by (simp add: and_masks octet_eq_iff octets_unat flip: div_mult2_eq)

lemma blk_100: "octet a 0 = 100 \<and> octet a 1 AND 0xC0 = 64 \<longleftrightarrow> unat a div 4194304 = 401"
  using div_digits [of 1 4 "unat a" 4194304 100] mod_div_nat [of "unat a div 65536" 64 4]
  by (simp add: and_masks octet_eq_iff octets_unat flip: div_mult2_eq)

lemma blk_198: "octet a 0 = 198 \<and> octet a 1 AND 0xFE = 18 \<longleftrightarrow> unat a div 131072 = 25353"
  using div_digits [of 9 128 "unat a" 131072 198] mod_div_nat [of "unat a div 65536" 2 128]
  by (simp add: and_masks octet_eq_iff octets_unat flip: div_mult2_eq)

lemma blk_192: "octet a 0 = 192 \<and> octet a 1 = 168 \<longleftrightarrow> unat a div 65536 = 49320"
  using div_digits [of 168 256 "unat a" 65536 192]
  by (simp add: and_masks octet_eq_iff octets_unat flip: div_mult2_eq)

lemma blk_169: "octet a 0 = 169 \<and> octet a 1 = 254 \<longleftrightarrow> unat a div 65536 = 43518"
  using div_digits [of 254 256 "unat a" 65536 169]
  by (simp add: and_masks octet_eq_iff octets_unat flip: div_mult2_eq)

lemma blk_1920: "octet a 0 = 192 \<and> octet a 1 = 0 \<and> octet a 2 = 0 \<longleftrightarrow> unat a div 256 = 12582912"
  using div_digits [of 0 256 "unat a" 65536 192] div_digits [of 0 256 "unat a" 256 49152]
  by (simp add: and_masks octet_eq_iff octets_unat flip: div_mult2_eq)

lemma blk_240: "octet a 0 AND 0xF0 = 240 \<longleftrightarrow> unat a div 268435456 = 15"
  using div_mult2_eq [of "unat a" 16777216 16]
  by (simp add: and_masks octet_eq_iff octets_unat flip: div_mult2_eq)

lemma blk_224: "224 \<le> octet a 0 \<and> octet a 0 \<le> 239 \<longleftrightarrow> unat a div 268435456 = 14"
proof -
  have "unat a div 268435456 = unat a div 16777216 div 16" by (simp flip: div_mult2_eq)
  then show ?thesis by (auto simp: word_le_nat_alt octets_unat)
qed
lemma octet0_unat: "octet a 0 = x \<longleftrightarrow> unat a div 16777216 = unat x"
  by (simp add: octet_eq_iff octets_unat)

lemma segment0_unat: "unat (segment a 0) = unat a div 2 ^ 112"
  using unsigned_less [of a, where 'a = nat] by (simp add: unat_segment)

lemma blk_fe80: "segment a 0 AND 0xFFC0 = 0xFE80 \<longleftrightarrow> unat a div 2 ^ 118 = 0x3FA"
  using div_mult2_eq [of "unat a" "2 ^ 112" 64] by (simp add: and_masks segment0_unat)

lemma blk_fc00: "segment a 0 AND 0xFE00 = 0xFC00 \<longleftrightarrow> unat a div 2 ^ 121 = 0x7E"
  using div_mult2_eq [of "unat a" "2 ^ 112" 512] by (simp add: and_masks segment0_unat)

lemma blk_ff00: "segment a 0 AND 0xFF00 = 0xFF00 \<longleftrightarrow> unat a div 2 ^ 120 = 0xFF"
  using div_mult2_eq [of "unat a" "2 ^ 112" 256] by (simp add: and_masks segment0_unat)

lemmas octet_blocks = blk_172 blk_100 blk_198 blk_192 blk_169 blk_1920 blk_240 blk_224
lemmas segment_blocks = blk_fe80 blk_fc00 blk_ff00

text \<open>A block as a base address and a prefix length, and a list of blocks.\<close>

fun in_block :: "ip_addr \<Rightarrow> ip_addr \<times> nat \<Rightarrow> bool" where
  "in_block a (base, len) = same_prefix len base a"

definition in_blocks :: "(ip_addr \<times> nat) list \<Rightarrow> ip_addr \<Rightarrow> bool" where
  "in_blocks bs a \<longleftrightarrow> list_ex (in_block a) bs"

lemma in_blocks_simps [simp]:
  "\<not> in_blocks [] a"
  "in_blocks (b # bs) a \<longleftrightarrow> in_block a b \<or> in_blocks bs a"
  by (simp_all add: in_blocks_def)

lemma same_prefix_v4_unat:
  "same_prefix n (V4 b) (V4 a) \<longleftrightarrow> unat a div 2 ^ (32 - n) = unat b div 2 ^ (32 - n)"
  by (simp add: drop_bit_eq_iff_unat unat_drop_bit_div eq_commute [of "unat b div _"])

lemma same_prefix_v6_unat:
  "same_prefix n (V6 b) (V6 a) \<longleftrightarrow> unat a div 2 ^ (128 - n) = unat b div 2 ^ (128 - n)"
  by (simp add: drop_bit_eq_iff_unat unat_drop_bit_div eq_commute [of "unat b div _"])

end
