(* ===== verification/Net_Isolation.thy ===== *)
theory Net_Isolation
  imports Addr_Blocks
begin

text \<open>
  \<open>crates/server/src/net.rs\<close>, first half: the isolation gate \<open>allowed_dst\<close>, the cryptokey routing
  table \<open>peer_for\<close>, and the two interfaces (\<open>isolation_gate\<close>, \<open>cryptokey_table\<close>) through which the
  configuration and the data plane use them.
\<close>

section \<open>The isolation gate\<close>

function allowed_dst :: "'net ipnet_lib \<Rightarrow> 'net \<Rightarrow> ip_addr \<Rightarrow> bool \<Rightarrow> bool" where
  "allowed_dst L wg_net (V4 a) allow_private =
     (if net_contains L wg_net (V4 a) then False
      else if v4_is_loopback a \<or> v4_is_unspecified a \<or> v4_is_multicast a \<or> v4_is_broadcast a
              \<or> v4_is_link_local a \<or> octet a 0 = 0 then False
      else allow_private \<or>
        \<not> (octet a 0 = 10 \<or> (octet a 0 = 172 \<and> octet a 1 AND 0xF0 = 16)
           \<or> (octet a 0 = 192 \<and> octet a 1 = 168) \<or> (octet a 0 = 100 \<and> octet a 1 AND 0xC0 = 64)
           \<or> (octet a 0 = 192 \<and> octet a 1 = 0 \<and> octet a 2 = 0)
           \<or> (octet a 0 = 198 \<and> octet a 1 AND 0xFE = 18) \<or> octet a 0 AND 0xF0 = 240))"
| "allowed_dst L wg_net (V6 a) allow_private =
     (if net_contains L wg_net (V6 a) then False
      else (case to_ipv4_mapped a of
          Some v4 \<Rightarrow> allowed_dst L wg_net (V4 v4) allow_private
        | None \<Rightarrow>
            if v6_is_loopback a \<or> v6_is_unspecified a \<or> v6_is_multicast a
               \<or> segment a 0 AND 0xFFC0 = 0xFE80 then False
            else allow_private \<or> segment a 0 AND 0xFE00 \<noteq> 0xFC00))"
  by pat_completeness auto
termination
  by (relation "measure (\<lambda>(L, n, ip, p). if is_ipv4 ip then 0 else 1)") auto

declare allowed_dst.simps [simp del]

text \<open>
  The specification: the CIDR blocks the documentation lists. \<open>always_refused\<close> holds what no option
  opens (this network, loopback, link-local, multicast, broadcast); \<open>private_ranges\<close> what
  \<open>allow_private\<close> opens. An IPv4-mapped IPv6 address counts as the IPv4 address it carries.
\<close>

definition always_refused :: "(ip_addr \<times> nat) list" where
  "always_refused =
     [(V4 (v4_addr 0 0 0 0), 8), (V4 (v4_addr 127 0 0 0), 8), (V4 (v4_addr 169 254 0 0), 16),
      (V4 (v4_addr 224 0 0 0), 4), (V4 (v4_addr 255 255 255 255), 32),
      (V6 0, 128), (V6 1, 128), (V6 (push_bit 118 0x3FA), 10), (V6 (push_bit 120 0xFF), 8)]"

definition private_ranges :: "(ip_addr \<times> nat) list" where
  "private_ranges =
     [(V4 (v4_addr 10 0 0 0), 8), (V4 (v4_addr 172 16 0 0), 12), (V4 (v4_addr 192 168 0 0), 16),
      (V4 (v4_addr 100 64 0 0), 10), (V4 (v4_addr 192 0 0 0), 24), (V4 (v4_addr 198 18 0 0), 15),
      (V4 (v4_addr 240 0 0 0), 4), (V6 (push_bit 121 0x7E), 7)]"

fun unmapped :: "ip_addr \<Rightarrow> ip_addr" where
  "unmapped (V4 a) = V4 a"
| "unmapped (V6 a) = (case to_ipv4_mapped a of Some v4 \<Rightarrow> V4 v4 | None \<Rightarrow> V6 a)"

definition isolation_spec :: "(ip_addr \<Rightarrow> bool) \<Rightarrow> bool \<Rightarrow> ip_addr \<Rightarrow> bool" where
  "isolation_spec in_tunnel allow_private a \<longleftrightarrow>
     \<not> in_tunnel a \<and> \<not> in_tunnel (unmapped a)
     \<and> \<not> in_blocks always_refused (unmapped a)
     \<and> (allow_private \<or> \<not> in_blocks private_ranges (unmapped a))"

lemma octet_tests_blocks:
  "v4_is_loopback a \<or> v4_is_unspecified a \<or> v4_is_multicast a \<or> v4_is_broadcast a
     \<or> v4_is_link_local a \<or> octet a 0 = 0 \<longleftrightarrow> in_blocks always_refused (V4 a)"
  unfolding addr_defs octet_blocks
  unfolding octet0_unat
  by (auto simp: always_refused_def same_prefix_v4_unat v4_addr_def
      word_eq_iff_unsigned [where 'a = nat] simp del: same_prefix.simps(1))

lemma octet_tests_private:
  "octet a 0 = 10 \<or> (octet a 0 = 172 \<and> octet a 1 AND 0xF0 = 16)
     \<or> (octet a 0 = 192 \<and> octet a 1 = 168) \<or> (octet a 0 = 100 \<and> octet a 1 AND 0xC0 = 64)
     \<or> (octet a 0 = 192 \<and> octet a 1 = 0 \<and> octet a 2 = 0)
     \<or> (octet a 0 = 198 \<and> octet a 1 AND 0xFE = 18) \<or> octet a 0 AND 0xF0 = 240
   \<longleftrightarrow> in_blocks private_ranges (V4 a)"
  unfolding octet_blocks
  unfolding octet0_unat
  by (simp add: private_ranges_def same_prefix_v4_unat v4_addr_def del: same_prefix.simps(1))

lemma segment_tests_blocks:
  "v6_is_loopback a \<or> v6_is_unspecified a \<or> v6_is_multicast a \<or> segment a 0 AND 0xFFC0 = 0xFE80
   \<longleftrightarrow> in_blocks always_refused (V6 a)"
  unfolding addr_defs segment_blocks
  by (auto simp: always_refused_def same_prefix_v6_unat push_bit_eq_mult
      word_eq_iff_unsigned [where 'a = nat] simp del: same_prefix.simps(2))

lemma segment_tests_private:
  "segment a 0 AND 0xFE00 = 0xFC00 \<longleftrightarrow> in_blocks private_ranges (V6 a)"
  unfolding segment_blocks
  by (simp add: private_ranges_def same_prefix_v6_unat push_bit_eq_mult del: same_prefix.simps(2))

text \<open>The octet tests implement the block specification, for every network and every address.\<close>

lemma allowed_dst_v4:
  "allowed_dst L n (V4 a) p \<longleftrightarrow>
     \<not> net_contains L n (V4 a) \<and> \<not> in_blocks always_refused (V4 a)
     \<and> (p \<or> \<not> in_blocks private_ranges (V4 a))"
  unfolding allowed_dst.simps octet_tests_blocks octet_tests_private by auto

lemma allowed_dst_v6:
  "allowed_dst L n (V6 a) p \<longleftrightarrow>
     \<not> net_contains L n (V6 a) \<and>
     (case to_ipv4_mapped a of Some v4 \<Rightarrow> allowed_dst L n (V4 v4) p
      | None \<Rightarrow> \<not> in_blocks always_refused (V6 a) \<and> (p \<or> \<not> in_blocks private_ranges (V6 a)))"
  unfolding allowed_dst.simps(2) segment_tests_blocks segment_tests_private
  by (auto split: option.split)

lemma allowed_dst_blocks:
  "allowed_dst L n a p \<longleftrightarrow> isolation_spec (net_contains L n) p a"
proof (cases a)
  case (V4 x)
  then show ?thesis by (auto simp: allowed_dst_v4 isolation_spec_def)
next
  case (V6 x)
  then show ?thesis
    by (cases "to_ipv4_mapped x") (auto simp: allowed_dst_v4 allowed_dst_v6 isolation_spec_def)
qed

section \<open>Cryptokey routing\<close>

text \<open>The table is a list of \<open>(allowed_ip, peer index)\<close> pairs; the longest matching prefix wins.\<close>

definition peer_for :: "'net ipnet_lib \<Rightarrow> ('net \<times> nat) list \<Rightarrow> ip_addr \<Rightarrow> nat option" where
  "peer_for L allowed ip =
     map_option snd
       (max_by_key (\<lambda>(n, _). net_prefix_len L n)
         (filter (\<lambda>(n, _). net_contains L n ip) allowed))"

definition owns :: "'net ipnet_lib \<Rightarrow> ('net \<times> nat) list \<Rightarrow> nat \<Rightarrow> ip_addr \<Rightarrow> bool" where
  "owns L allowed i ip \<longleftrightarrow> list_ex (\<lambda>(n, j). j = i \<and> net_contains L n ip) allowed"

lemma owns_iff: "owns L allowed i ip \<longleftrightarrow> (\<exists>n. (n, i) \<in> set allowed \<and> net_contains L n ip)"
  by (auto simp: owns_def list_ex_iff)

lemma peer_for_SomeD:
  assumes "peer_for L allowed ip = Some i"
  obtains n where "(n, i) \<in> set allowed" "net_contains L n ip"
    "\<And>m j. (m, j) \<in> set allowed \<Longrightarrow> net_contains L m ip \<Longrightarrow> net_prefix_len L m \<le> net_prefix_len L n"
proof -
  from assms obtain n where "max_by_key (\<lambda>(n, _). net_prefix_len L n)
      (filter (\<lambda>(n, _). net_contains L n ip) allowed) = Some (n, i)"
    by (auto simp: peer_for_def)
  from max_by_key_SomeD [OF this] show thesis by (intro that [of n]) auto
qed

lemma peer_for_None_iff: "peer_for L allowed ip = None \<longleftrightarrow> \<not> (\<exists>i. owns L allowed i ip)"
  by (auto simp: peer_for_def owns_iff filter_empty_conv)

section \<open>The interfaces the server relies on\<close>

text \<open>
  A routing table: \<open>lookup\<close> names an owner of the address whenever there is one. Where owners are
  unique, it names the owner.
\<close>

locale cryptokey_table =
  fixes lookup :: "ip_addr \<Rightarrow> nat option"
    and owner :: "nat \<Rightarrow> ip_addr \<Rightarrow> bool"
  assumes lookup_Some: "lookup a = Some i \<Longrightarrow> owner i a"
    and lookup_None: "lookup a = None \<Longrightarrow> \<not> owner i a"
begin

lemma lookup_total: "owner i a \<Longrightarrow> \<exists>j. lookup a = Some j \<and> owner j a"
  using lookup_None lookup_Some by (cases "lookup a") auto

lemma lookup_exclusive:
  assumes "\<And>j. owner j a \<Longrightarrow> owner i a \<Longrightarrow> j = i"
  shows "lookup a = Some i \<longleftrightarrow> owner i a"
  using assms lookup_Some lookup_total by blast

end

text \<open>A gate that admits no address of the tunnel subnet.\<close>

locale isolation_gate =
  fixes gate :: "ip_addr \<Rightarrow> bool"
    and in_tunnel :: "ip_addr \<Rightarrow> bool"
  assumes gate_tunnel: "gate a \<Longrightarrow> \<not> in_tunnel a"

text \<open>
  Both together guard the packets of a peer: \<open>admits i src dst\<close> is what the data plane checks. When
  every owned address lies in the tunnel subnet, no admitted packet is for any peer.
\<close>

locale guarded_plane = cryptokey_table + isolation_gate
begin

definition admits :: "nat \<Rightarrow> ip_addr \<Rightarrow> ip_addr \<Rightarrow> bool" where
  "admits i src dst \<longleftrightarrow> lookup src = Some i \<and> gate dst"

lemma admits_owner: "admits i src dst \<Longrightarrow> owner i src"
  by (simp add: admits_def lookup_Some)

lemma admits_outside: "admits i src dst \<Longrightarrow> \<not> in_tunnel dst"
  by (simp add: admits_def gate_tunnel)

lemma admits_no_peer: "admits i src dst \<Longrightarrow> (\<And>j a. owner j a \<Longrightarrow> in_tunnel a) \<Longrightarrow> \<not> owner j dst"
  using admits_outside by blast

lemma admits_one_peer: "admits i src dst \<Longrightarrow> admits j src dst' \<Longrightarrow> i = j"
  by (simp add: admits_def)

end

text \<open>The server's own table and gate provide these interfaces, for every configuration.\<close>

interpretation peer_table: cryptokey_table "peer_for L allowed" "owns L allowed" for L allowed
proof
  fix a i assume "peer_for L allowed a = Some i"
  then show "owns L allowed i a" by (auto simp: owns_iff elim: peer_for_SomeD)
next
  fix a i assume "peer_for L allowed a = None"
  then show "\<not> owns L allowed i a" by (simp add: peer_for_None_iff)
qed

lemma allowed_dst_tunnel: "allowed_dst L n a p \<Longrightarrow> \<not> net_contains L n a"
  by (cases a) (simp_all add: allowed_dst_v4 allowed_dst_v6)

interpretation server_gate: isolation_gate "\<lambda>a. allowed_dst L n a p" "net_contains L n" for L n p
  by unfold_locales (rule allowed_dst_tunnel)

interpretation server_plane: guarded_plane "peer_for L allowed" "owns L allowed"
    "\<lambda>a. allowed_dst L n a p" "net_contains L n" for L allowed n p
  by unfold_locales

section \<open>Properties\<close>

text \<open>
  C12: the isolation gate is exactly the documented set of CIDR blocks: an address passes when neither
  it nor the IPv4 address it maps is in the tunnel subnet, it is in none of the always refused
  blocks, and either \<open>allow_private\<close> is set or it is in none of the private ranges.
\<close>

theorem allowed_dst_spec:
  "allowed_dst L n a p \<longleftrightarrow> isolation_spec (net_contains L n) p a"
  by (rule allowed_dst_blocks)

text \<open>
  C16: the lookup is a longest-prefix match: it fails exactly when no entry holds the address, and
  otherwise names the peer of an entry that holds it and whose prefix no other such entry exceeds.
\<close>

theorem peer_for_longest_prefix:
  "case peer_for L allowed ip of
     None \<Rightarrow> \<not> (\<exists>(n, i) \<in> set allowed. net_contains L n ip)
   | Some i \<Rightarrow> \<exists>n. (n, i) \<in> set allowed \<and> net_contains L n ip \<and>
       \<not> (\<exists>(m, j) \<in> set allowed. net_contains L m ip \<and> net_prefix_len L n < net_prefix_len L m)"
proof (cases "peer_for L allowed ip")
  case None
  then have "\<not> (\<exists>(n, i) \<in> set allowed. net_contains L n ip)"
    unfolding peer_for_None_iff owns_iff by auto
  with None show ?thesis by simp
next
  case (Some i)
  then obtain n where "(n, i) \<in> set allowed" "net_contains L n ip"
    "\<And>m j. (m, j) \<in> set allowed \<Longrightarrow> net_contains L m ip \<Longrightarrow> \<not> net_prefix_len L n < net_prefix_len L m"
    by (metis peer_for_SomeD leD)
  with Some show ?thesis by auto
qed

end
