(* ===== verification/Wgcore_Keys.thy ===== *)
theory Wgcore_Keys
  imports Addr_Blocks
begin

text \<open>
  \<open>crates/wgcore/src/lib.rs\<close>, first part: the textual form of keys, the shape of a generated private
  key, and the addresses read off an IP packet.
\<close>

section \<open>Keys as text\<close>

text \<open>
  The \<open>base64\<close> crate, the operating system's random source, \<open>x25519\<close> and boringtun's
  \<open>Tunn::dst_address\<close> are third-party: fields of a record.
\<close>

record key_lib =
  b64_decode :: "string \<Rightarrow> bytes option"
  b64_encode :: "bytes \<Rightarrow> string"
  x25519_public :: "bytes \<Rightarrow> bytes"

definition ascii_graphic :: "char \<Rightarrow> bool" where
  "ascii_graphic c \<longleftrightarrow> 33 \<le> byte c \<and> byte c < 127"

text \<open>
  What the model relies on: the alphabet is printable ASCII, only the empty input has an empty text,
  and decoding reads back what was encoded.
\<close>

definition base64_documented :: "key_lib \<Rightarrow> bool" where
  "base64_documented K \<longleftrightarrow>
     (\<forall>k. b64_decode K (b64_encode K k) = Some k) \<and>
     (\<forall>k. b64_encode K k = [] \<longrightarrow> k = []) \<and>
     (\<forall>k. \<forall>c \<in> set (b64_encode K k). ascii_graphic c)"

datatype key_error = KeyNotBase64 | KeyLength

definition decode_key :: "key_lib \<Rightarrow> string \<Rightarrow> key_error + bytes" where
  "decode_key K s =
     and_then (ok_or KeyNotBase64 (b64_decode K (trim s)))
       (\<lambda>v. if length v = 32 then Inr v else Inl KeyLength)"

definition encode_key :: "key_lib \<Rightarrow> bytes \<Rightarrow> string" where
  "encode_key K k = b64_encode K k"

definition public_key :: "key_lib \<Rightarrow> bytes \<Rightarrow> bytes" where
  "public_key K private = x25519_public K private"

lemma decode_key_length: "decode_key K s = Inr k \<Longrightarrow> length k = 32"
  by (auto simp: decode_key_def and_then_Inr_iff split: if_splits)

text \<open>Trimming strips white space only: text that begins and ends with printable ASCII is kept.\<close>

lemma ws_seqs_bytes: "p \<in> set ws_seqs \<Longrightarrow> \<not> ascii_graphic (hd p) \<and> \<not> ascii_graphic (last p)"
  by (auto simp: ws_seqs_def ascii_graphic_def)

lemma strip_any_graphic:
  assumes "\<And>p. p \<in> set ps \<Longrightarrow> p \<noteq> [] \<and> \<not> ascii_graphic (hd p)"
    and "s = [] \<or> ascii_graphic (hd s)"
  shows "strip_any ps s = None"
  unfolding strip_any_None_iff
proof
  fix p assume "p \<in> set ps"
  with assms show "\<not> prefix p s" by (cases p; cases s) force+
qed

lemma strip_all_fuel_id: "strip_any ps s = None \<Longrightarrow> strip_all_fuel ps n s = s"
  by (cases n) simp_all

lemma ws_ends:
  "p \<in> set ws_seqs \<Longrightarrow> p \<noteq> [] \<and> \<not> ascii_graphic (hd p)"
  "p \<in> set (map rev ws_seqs) \<Longrightarrow> p \<noteq> [] \<and> \<not> ascii_graphic (hd p)"
  using ws_seqs_nonempty by (auto simp: hd_rev dest: ws_seqs_bytes)

lemma trim_start_id: "s = [] \<or> ascii_graphic (hd s) \<Longrightarrow> trim_start s = s"
  unfolding trim_start_def by (intro strip_all_fuel_id strip_any_graphic ws_ends)

lemma trim_end_id:
  assumes "s = [] \<or> ascii_graphic (last s)"
  shows "trim_end s = s"
proof -
  have "strip_any (map rev ws_seqs) (rev s) = None"
    using assms by (intro strip_any_graphic ws_ends) (auto simp: hd_rev)
  then show ?thesis by (simp add: trim_end_def strip_all_fuel_id)
qed

lemma trim_graphic: "s = [] \<or> ascii_graphic (hd s) \<and> ascii_graphic (last s) \<Longrightarrow> trim s = s"
  by (auto simp: trim_def trim_start_id trim_end_id)

text \<open>White space around the text is removed before it is decoded.\<close>

lemma strip_any_single:
  "[c] \<in> set ps \<Longrightarrow> \<forall>p \<in> set ps. p \<noteq> [] \<and> (hd p = c \<longrightarrow> length p = 1) \<Longrightarrow>
    strip_any ps (c # s) = Some s"
proof (induction ps)
  case (Cons p ps)
  then obtain x q where p: "p = x # q" by (cases p) simp_all
  show ?case
  proof (cases "x = c")
    case True
    with Cons.prems p have "q = []" by simp
    with True p show ?thesis by simp
  next
    case False
    with Cons.prems p have "strip_any ps (c # s) = Some s"
      by (intro Cons.IH) simp_all
    with False p show ?thesis by simp
  qed
qed simp

lemma ws_seqs_long: "p \<in> set ws_seqs \<Longrightarrow> length p = 1 \<or> 128 \<le> byte (hd p) \<and> 128 \<le> byte (last p)"
  by (auto simp: ws_seqs_def)

lemma strip_any_ws_char:
  assumes "byte c \<in> {9, 10, 11, 12, 13, 32}"
  shows "strip_any ws_seqs (c # s) = Some s" "strip_any (map rev ws_seqs) (c # s) = Some s"
proof -
  have "c \<in> char_of ` {9, 10, 11, 12, 13, 32 :: nat}"
    using assms char_of_byte [of c] by (metis imageI)
  then have c: "[c] \<in> set ws_seqs"
    by (auto simp: ws_seqs_def)
  then have c': "[c] \<in> set (map rev ws_seqs)"
    unfolding set_map by (metis imageI rev_singleton_conv)
  have "byte c < 128" using assms by auto
  then have long: "p \<noteq> [] \<and> (hd p = c \<longrightarrow> length p = 1) \<and> (last p = c \<longrightarrow> length p = 1)"
    if "p \<in> set ws_seqs" for p
    using ws_seqs_long [OF that] ws_ends(1) [OF that] by auto
  show "strip_any ws_seqs (c # s) = Some s"
    using c long by (intro strip_any_single) blast+
  have "\<forall>p \<in> set (map rev ws_seqs). p \<noteq> [] \<and> (hd p = c \<longrightarrow> length p = 1)"
    using long by (auto simp: hd_rev)
  with c' show "strip_any (map rev ws_seqs) (c # s) = Some s"
    by (rule strip_any_single)
qed

lemma strip_all_fuel_ws:
  assumes "\<And>c s. c \<in> set w \<Longrightarrow> strip_any ps (c # s) = Some s"
  shows "strip_any ps s = None \<Longrightarrow> length w \<le> n \<Longrightarrow> strip_all_fuel ps n (w @ s) = s"
  using assms
proof (induction w arbitrary: n)
  case (Cons c w)
  then show ?case by (cases n) auto
qed (simp add: strip_all_fuel_id)

definition ascii_blank :: "string \<Rightarrow> bool" where
  "ascii_blank w \<longleftrightarrow> (\<forall>c \<in> set w. byte c \<in> {9, 10, 11, 12, 13, 32})"

lemma trim_blanks:
  assumes "ascii_blank v" "ascii_blank w" "s \<noteq> []" "ascii_graphic (hd s)" "ascii_graphic (last s)"
  shows "trim (v @ s @ w) = s"
proof -
  have "strip_any ws_seqs (s @ w) = None"
    using assms(3,4) by (intro strip_any_graphic ws_ends) simp_all
  then have "trim_start (v @ s @ w) = s @ w"
    using assms(1) unfolding trim_start_def
    by (intro strip_all_fuel_ws) (auto simp: ascii_blank_def strip_any_ws_char)
  moreover have "strip_any (map rev ws_seqs) (rev s) = None"
    using assms(3,5) by (intro strip_any_graphic ws_ends(2)) (simp_all add: hd_rev)
  then have "strip_all_fuel (map rev ws_seqs) (length (s @ w)) (rev w @ rev s) = rev s"
    using assms(2)
    by (intro strip_all_fuel_ws) (auto simp: ascii_blank_def strip_any_ws_char)
  then have "trim_end (s @ w) = s" by (simp add: trim_end_def)
  ultimately show ?thesis by (simp add: trim_def)
qed

section \<open>Generated private keys\<close>

text \<open>\<open>random\<close> stands for the 32 bytes the system's random source fills in.\<close>

definition generate_key :: "bytes \<Rightarrow> bytes" where
  "generate_key random =
     (let k = random;
          k = k[0 := k ! 0 AND 248];
          k = k[31 := k ! 31 AND 127];
          k = k[31 := k ! 31 OR 64]
      in k)"

lemma length_generate_key [simp]: "length (generate_key r) = length r"
  by (simp add: generate_key_def Let_def)

text \<open>The little-endian number an x25519 scalar encodes.\<close>

fun le_nat :: "bytes \<Rightarrow> nat" where
  "le_nat [] = 0"
| "le_nat (b # bs) = unat b + 256 * le_nat bs"

lemma le_nat_append: "le_nat (xs @ ys) = le_nat xs + 256 ^ length xs * le_nat ys"
  by (induction xs) (simp_all add: algebra_simps)

lemma le_nat_less: "le_nat bs < 256 ^ length bs"
proof (induction bs)
  case (Cons b bs)
  have "unat b < 256" using unsigned_less [of b, where 'a = nat] by simp
  with Cons show ?case by simp
qed simp

lemma unat_and_not_mask: "unat (x AND NOT (mask k)) = 2 ^ k * (unat (x :: 'w::len word) div 2 ^ k)"
proof -
  have "x AND NOT (mask k) = push_bit k (drop_bit k x)"
    by (rule bit_word_eqI) (auto simp: bit_simps)
  moreover have "unat (push_bit k (drop_bit k x)) = 2 ^ k * (unat x div 2 ^ k)"
  proof -
    have "2 ^ k * (unat x div 2 ^ k) < 2 ^ LENGTH('w)"
      using unsigned_less [of x, where 'a = nat] times_div_less_eq_dividend [of "2 ^ k" "unat x"]
      by (rule le_less_trans [rotated])
    then show ?thesis
      by (simp add: unsigned_push_bit_eq unat_drop_bit_div take_bit_nat_eq_self
        push_bit_eq_mult [where 'a = nat] mult.commute del: push_bit_eq_mult)
  qed
  ultimately show ?thesis by simp
qed

lemma clamp_low: "unat ((b :: u8) AND 248) mod 8 = 0"
proof -
  have "(248 :: u8) = NOT (mask 3)" by (simp add: mask_numeral)
  then show ?thesis by (simp only: unat_and_not_mask) simp
qed

lemma top_bits_bound:
  assumes "bit x 6" "\<not> bit x 7" "(x :: nat) < 256"
  shows "64 \<le> x \<and> x < 128"
proof
  show "64 \<le> x"
  proof (rule ccontr)
    assume "\<not> 64 \<le> x"
    then have "x div 2 ^ 6 = 0" by simp
    with assms(1) show False by (simp only: bit_iff_odd) simp
  qed
  have "x div 2 ^ 7 < 2" using assms(3) by (simp add: less_mult_imp_div_less)
  moreover have "even (x div 2 ^ 7)" using assms(2) by (simp only: bit_iff_odd) simp
  ultimately have "x div 128 = 0" by (cases "x div 128 = 1") auto
  then show "x < 128" by (simp add: div_eq_0_iff)
qed

lemma clamp_high: "64 \<le> unat ((b :: u8) AND 127 OR 64) \<and> unat (b AND 127 OR 64) < 128"
proof (rule top_bits_bound)
  show "bit (unat (b AND 127 OR 64)) 6" "\<not> bit (unat (b AND 127 OR 64)) 7"
    by (simp_all add: bit_unsigned_iff bit_or_iff bit_and_iff)
  show "unat (b AND 127 OR 64) < 256"
    using unsigned_less [of "b AND 127 OR 64", where 'a = nat] by simp
qed

lemma clamp_arith:
  assumes "m < 2 ^ 240" "l < 256" "l mod 8 = 0" "64 \<le> h \<and> h < (128 :: nat)"
  shows "(l + 256 * (m + 2 ^ 240 * h)) mod 8 = 0
     \<and> 2 ^ 254 \<le> l + 256 * (m + 2 ^ 240 * h) \<and> l + 256 * (m + 2 ^ 240 * h) < 2 ^ 255"
proof (intro conjI)
  have "8 dvd l" "8 dvd 256 * (m + 2 ^ 240 * h)"
    using assms(3) by (auto intro: dvd_mult2)
  then show "(l + 256 * (m + 2 ^ 240 * h)) mod 8 = 0" by (simp only: dvd_add flip: dvd_eq_mod_eq_0)
  have "2 ^ 240 * 64 \<le> 2 ^ 240 * h" "2 ^ 240 * h \<le> 2 ^ 240 * 127"
    using assms(4) by (auto intro: mult_le_mono2)
  with assms(1,2) show "2 ^ 254 \<le> l + 256 * (m + 2 ^ 240 * h)" "l + 256 * (m + 2 ^ 240 * h) < 2 ^ 255"
    by simp_all
qed

text \<open>
  A generated private key is a clamped scalar: read as a little-endian number it is a multiple of
  eight between 2^254 and 2^255, whatever the random source returned.
\<close>

theorem generate_key_clamped:
  assumes "length random = 32"
  shows "le_nat (generate_key random) mod 8 = 0
     \<and> 2 ^ 254 \<le> le_nat (generate_key random) \<and> le_nat (generate_key random) < 2 ^ 255"
proof -
  obtain a r where r: "random = a # r" "length r = 31" using assms by (cases random) auto
  obtain m z where z: "r = m @ [z]" using r(2) by (cases r rule: rev_cases) auto
  let ?z = "z AND 127 OR 64"
  have k: "generate_key random = (a AND 248) # m @ [?z]"
    using r(2) unfolding r(1) z by (simp add: generate_key_def nth_append list_update_append)
  have m: "length m = 30" using r(2) z by simp
  have sum: "le_nat (generate_key random) = unat (a AND 248) + 256 * (le_nat m + 2 ^ 240 * unat ?z)"
    using m by (simp add: k le_nat_append)
  have "le_nat m < 2 ^ 240" using le_nat_less [of m] m by simp
  moreover have "unat (a AND 248) < 256" using unsigned_less [of "a AND 248", where 'a = nat] by simp
  ultimately show ?thesis
    using clamp_low [of a] clamp_high [of z] unfolding sum by (rule clamp_arith)
qed

theorem generate_key_clamped_witness:
  "length (replicate 32 (0xFF :: u8)) = 32
     \<and> le_nat (generate_key (replicate 32 0xFF)) < 2 ^ 255"
  using generate_key_clamped [of "replicate 32 0xFF"] by simp

section \<open>Addresses of a packet\<close>

definition src_address :: "bytes \<Rightarrow> ip_addr option" where
  "src_address packet =
     (case packet of
        [] \<Rightarrow> None
      | b # _ \<Rightarrow>
          if drop_bit 4 b = 4 \<and> 20 \<le> length packet then Some (V4 (be_word (take 4 (drop 12 packet))))
          else if drop_bit 4 b = 6 \<and> 40 \<le> length packet then Some (V6 (be_word (take 16 (drop 8 packet))))
          else None)"

section \<open>A concrete text encoding, for closed examples\<close>

text \<open>Two letters per byte, one per half.\<close>

definition nibble_char :: "u8 \<Rightarrow> char" where
  "nibble_char n = char_of (65 + unat n)"

definition nibble_val :: "char \<Rightarrow> u8" where
  "nibble_val c = of_nat (byte c - 65)"

fun nibble_encode :: "bytes \<Rightarrow> string" where
  "nibble_encode [] = []"
| "nibble_encode (b # bs) = nibble_char (drop_bit 4 b) # nibble_char (take_bit 4 b) # nibble_encode bs"

fun nibble_decode :: "string \<Rightarrow> bytes option" where
  "nibble_decode [] = Some []"
| "nibble_decode [c] = None"
| "nibble_decode (c # d # cs) =
     map_option (\<lambda>bs. (push_bit 4 (nibble_val c) OR nibble_val d) # bs) (nibble_decode cs)"

definition nibble_lib :: key_lib where
  "nibble_lib = \<lparr>b64_decode = nibble_decode, b64_encode = nibble_encode, x25519_public = id\<rparr>"

lemma nibble_bounds: "unat (drop_bit 4 (b :: u8)) < 16" "unat (take_bit 4 (b :: u8)) < 16"
proof -
  have "unat b < 256" using unsigned_less [of b, where 'a = nat] by simp
  then show "unat (drop_bit 4 b) < 16" by (simp add: unat_drop_bit_div less_mult_imp_div_less)
  have "unat (take_bit 4 b) = take_bit 4 (unat b)" by (rule unsigned_take_bit_eq)
  then show "unat (take_bit 4 b) < 16" using take_bit_nat_less_exp [of 4 "unat b"] by simp
qed

lemma nibble_val_char: "unat n < 16 \<Longrightarrow> nibble_val (nibble_char n) = n"
  by (simp add: nibble_val_def nibble_char_def)

lemma nibble_graphic: "unat n < 16 \<Longrightarrow> ascii_graphic (nibble_char n)"
  by (simp add: nibble_char_def ascii_graphic_def)

lemma nibble_join: "push_bit 4 (drop_bit 4 (b :: u8)) OR take_bit 4 b = b"
  by (rule bit_word_eqI) (auto simp: bit_simps)

lemma nibble_decode_encode: "nibble_decode (nibble_encode bs) = Some bs"
  by (induction bs) (simp_all add: nibble_val_char nibble_bounds nibble_join)

lemma nibble_encode_graphic: "c \<in> set (nibble_encode bs) \<Longrightarrow> ascii_graphic c"
  by (induction bs) (auto simp: nibble_graphic nibble_bounds)

lemma nibble_lib_documented: "base64_documented nibble_lib"
  unfolding base64_documented_def nibble_lib_def
  by (auto simp: nibble_decode_encode nibble_encode_graphic elim: nibble_encode.elims)

lemma decode_key_encode:
  assumes "base64_documented K" "length k = 32" "ascii_blank v" "ascii_blank w"
  shows "decode_key K (v @ encode_key K k @ w) = Inr k"
proof -
  let ?t = "b64_encode K k"
  have "\<forall>c \<in> set ?t. ascii_graphic c" "?t \<noteq> []" and dec: "b64_decode K ?t = Some k"
    using assms(1,2) by (auto simp: base64_documented_def)
  with assms(3,4) have "trim (v @ ?t @ w) = ?t"
    by (intro trim_blanks) simp_all
  with dec assms(2) show ?thesis by (simp add: decode_key_def encode_key_def)
qed

section \<open>Properties of keys\<close>

text \<open>
  Keys survive their textual form: encoding a 32-byte key and decoding the text, with any ASCII
  white space around it, gives the key back; and decoding never returns a key of another length.
\<close>

theorem decode_encode_key:
  assumes "base64_documented K" "length k = 32" "ascii_blank v" "ascii_blank w"
  shows "decode_key K (v @ encode_key K k @ w) = Inr k"
  using assms by (rule decode_key_encode)

theorem decode_encode_key_witness:
  "decode_key nibble_lib ('' '' @ encode_key nibble_lib (replicate 32 7) @ [CHR 0x0A]) = Inr (replicate 32 7)"
  by (rule decode_encode_key) (simp_all add: nibble_lib_documented ascii_blank_def byte_def)

end
