(* ===== verification/Config.thy ===== *)
theory Config
  imports Net_Isolation Wgcore_Keys
begin

text \<open>
  \<open>crates/server/src/config.rs\<close>: the SOCKS5 upstream syntax with percent-encoded credentials, the
  configuration record and its validation. Reading the file and parsing its JSON are not modelled.
\<close>

section \<open>Percent decoding\<close>

text \<open>The loop walks the bytes by index, as the source does; \<open>str_get\<close> is \<open>str::get\<close>.\<close>

function percent_loop :: "string \<Rightarrow> nat \<Rightarrow> string \<Rightarrow> string" where
  "percent_loop raw i out =
     (if i < length raw then
        (case from_str_radix 255 16 (case str_get raw (i + 1) (i + 3) of Some h \<Rightarrow> h | None \<Rightarrow> []) of
           Some b \<Rightarrow>
             if raw ! i = CHR ''%'' then percent_loop raw (i + 3) (out @ [char_of b])
             else percent_loop raw (i + 1) (out @ [raw ! i])
         | None \<Rightarrow> percent_loop raw (i + 1) (out @ [raw ! i]))
      else out)"
  by pat_completeness auto
termination
  by (relation "measure (\<lambda>(raw, i, out). length raw - i)") auto

declare percent_loop.simps [simp del]

definition percent_decode :: "string \<Rightarrow> string" where
  "percent_decode s = from_utf8_lossy (percent_loop s 0 [])"

text \<open>The encoder the documentation implies: bytes in \<open>keep\<close> stand for themselves, others become \<open>%XX\<close>.\<close>

definition hex_digit :: "nat \<Rightarrow> char" where
  "hex_digit n = char_of (if n < 10 then 48 + n else 55 + n)"

fun percent_encode :: "(char \<Rightarrow> bool) \<Rightarrow> string \<Rightarrow> string" where
  "percent_encode keep [] = []"
| "percent_encode keep (c # cs) =
     (if keep c \<and> c \<noteq> CHR ''%'' then [c]
      else [CHR ''%'', hex_digit (byte c div 16), hex_digit (byte c mod 16)]) @ percent_encode keep cs"

definition ascii :: "string \<Rightarrow> bool" where
  "ascii s \<longleftrightarrow> (\<forall>c \<in> set s. byte c < 128)"

lemma byte_hex_digit: "n < 16 \<Longrightarrow> byte (hex_digit n) = (if n < 10 then 48 + n else 55 + n)"
  by (simp add: hex_digit_def)

lemma digit_val_hex: "n < 16 \<Longrightarrow> digit_val 16 (hex_digit n) = Some n"
  using byte_hex_digit [of n] by (auto simp: byte_def Let_def)

lemma hex_pair: "n < 256 \<Longrightarrow> from_str_radix 255 16 [hex_digit (n div 16), hex_digit (n mod 16)] = Some n"
proof -
  assume n: "n < 256"
  then have d: "n div 16 < 16" by simp
  then have "hex_digit (n div 16) \<noteq> CHR ''+''"
    using byte_hex_digit [of "n div 16"] by (auto simp: byte_def split: if_splits)
  with n d show ?thesis
    by (simp add: from_str_radix_def digit_val_hex del: digit_val.simps)
qed

lemma hex_digit_ascii: "n < 16 \<Longrightarrow> byte (hex_digit n) < 128"
  by (simp add: byte_hex_digit)

lemma percent_encode_ascii:
  "(\<And>c. keep c \<Longrightarrow> byte c < 128) \<Longrightarrow> ascii (percent_encode keep s)"
  by (induction s) (auto simp: ascii_def hex_digit_ascii less_mult_imp_div_less)

lemma ascii_boundary: "ascii s \<Longrightarrow> i \<le> length s \<Longrightarrow> is_char_boundary s i"
  unfolding is_char_boundary_def is_cont_def ascii_def
  by (metis le_neq_implies_less not_le nth_mem)

lemma str_get_ascii:
  "ascii s \<Longrightarrow> i \<le> j \<Longrightarrow> j \<le> length s \<Longrightarrow> str_get s i j = Some (take (j - i) (drop i s))"
  by (simp add: str_get_def ascii_boundary)

lemma percent_loop_keep:
  "i < length raw \<Longrightarrow> raw ! i \<noteq> CHR ''%'' \<Longrightarrow>
   percent_loop raw i out = percent_loop raw (i + 1) (out @ [raw ! i])"
  by (subst percent_loop.simps) (auto split: option.split)

lemma percent_loop_hex:
  "i < length raw \<Longrightarrow> raw ! i = CHR ''%'' \<Longrightarrow> str_get raw (i + 1) (i + 3) = Some h \<Longrightarrow>
   from_str_radix 255 16 h = Some b \<Longrightarrow>
   percent_loop raw i out = percent_loop raw (i + 3) (out @ [char_of b])"
  by (subst percent_loop.simps) simp

lemma percent_loop_end: "percent_loop raw (length raw) out = out"
  by (subst percent_loop.simps) simp

lemma percent_loop_encode:
  "ascii (pre @ percent_encode keep s) \<Longrightarrow>
   percent_loop (pre @ percent_encode keep s) (length pre) out = out @ s"
proof (induction s arbitrary: pre out)
  case Nil
  then show ?case using percent_loop_end [of pre] by simp
next
  case (Cons c s)
  let ?raw = "pre @ percent_encode keep (c # s)"
  show ?case
  proof (cases "keep c \<and> c \<noteq> CHR ''%''")
    case True
    then have "percent_loop ?raw (length pre) out = percent_loop ?raw (length pre + 1) (out @ [c])"
      using percent_loop_keep [of "length pre" ?raw out] by simp
    with True Cons.prems Cons.IH [of "pre @ [c]" "out @ [c]"] show ?thesis by simp
  next
    case False
    let ?h = "[hex_digit (byte c div 16), hex_digit (byte c mod 16)]"
    have raw: "?raw = pre @ CHR ''%'' # ?h @ percent_encode keep s" using False by auto
    with Cons.prems have "str_get ?raw (length pre + 1) (length pre + 3) = Some ?h"
      by (subst str_get_ascii) (auto simp: numeral_3_eq_3)
    with raw have "percent_loop ?raw (length pre) out = percent_loop ?raw (length pre + 3) (out @ [c])"
      using percent_loop_hex [of "length pre" ?raw ?h "byte c" out] by (simp add: hex_pair)
    with raw Cons.prems Cons.IH [of "pre @ CHR ''%'' # ?h" "out @ [c]"] show ?thesis
      by (simp add: numeral_3_eq_3)
  qed
qed

lemma percent_decode_encode:
  assumes "utf8_valid s" "\<And>c. keep c \<Longrightarrow> byte c < 128"
  shows "percent_decode (percent_encode keep s) = s"
  using percent_loop_encode [of "[]" keep s "[]"] percent_encode_ascii [of keep s] assms
  by (simp add: percent_decode_def from_utf8_lossy_valid)

section \<open>Upstreams\<close>

record upstream =
  up_addr :: string
  up_auth :: "(string \<times> string) option"

datatype upstream_error = BadScheme string | BadCredentials string | BadHostPort string

definition parse_upstream :: "string \<Rightarrow> upstream_error + upstream" where
  "parse_upstream s =
     and_then (ok_or (BadScheme s) (strip_prefix ''socks5://'' s)) (\<lambda>rest.
     and_then
       (case rsplit_once (CHR ''@'') rest of
          Some (a, h) \<Rightarrow>
            and_then (ok_or (BadCredentials s) (split_once (CHR '':'') a)) (\<lambda>(u, p).
              Inr (Some (percent_decode u, percent_decode p), h))
        | None \<Rightarrow> Inr (None, rest)) (\<lambda>(auth, hostport).
     and_then (ok_or (BadHostPort s) (rsplit_once (CHR '':'') hostport)) (\<lambda>(host, port).
       if host = [] \<or> parse_u16 port = None then Inl (BadHostPort s)
       else Inr \<lparr>up_addr = hostport, up_auth = auth\<rparr>)))"

text \<open>What an accepted upstream looks like.\<close>

definition host_port :: "string \<Rightarrow> bool" where
  "host_port s \<longleftrightarrow> (case rsplit_once (CHR '':'') s of
     Some (host, port) \<Rightarrow> host \<noteq> [] \<and> parse_u16 port \<noteq> None | None \<Rightarrow> False)"

lemma parse_upstream_addr: "parse_upstream s = Inr u \<Longrightarrow> host_port (up_addr u)"
  by (auto simp: parse_upstream_def and_then_Inr_iff host_port_def split: option.splits if_splits prod.splits)

lemma parse_upstream_no_auth:
  "CHR ''@'' \<notin> set hp \<Longrightarrow> host_port hp \<Longrightarrow>
   parse_upstream (''socks5://'' @ hp) = Inr \<lparr>up_addr = hp, up_auth = None\<rparr>"
  using rsplit_once_None_iff [of "CHR ''@''" hp]
  by (auto simp: parse_upstream_def host_port_def simp del: append.simps split: option.splits)

lemma parse_upstream_auth:
  "CHR ''@'' \<notin> set hp \<Longrightarrow> host_port hp \<Longrightarrow> CHR '':'' \<notin> set u \<Longrightarrow>
   parse_upstream (''socks5://'' @ u @ [CHR '':''] @ p @ [CHR ''@''] @ hp)
     = Inr \<lparr>up_addr = hp, up_auth = Some (percent_decode u, percent_decode p)\<rparr>"
  using rsplit_once_append [of "CHR ''@''" hp "u @ CHR '':'' # p"]
  by (auto simp: parse_upstream_def host_port_def simp del: rsplit_once_append split: option.splits)

section \<open>The configuration\<close>

record ws_listen =
  ws_addr :: socket_addr
  ws_path :: string
  ws_cert :: "string option"
  ws_key :: "string option"

record 'net peer_config =
  pc_public_key :: string
  pc_preshared_key :: "string option"
  pc_allowed_ips :: "'net list"
  pc_upstream :: "string option"

record 'net config =
  cfg_private_key :: string
  cfg_address :: 'net
  cfg_mtu :: "u16 option"
  cfg_listen_udp :: "socket_addr option"
  cfg_listen_ws :: "ws_listen option"
  cfg_upstream :: string
  cfg_dns :: "socket_addr option"
  cfg_allow_private :: bool
  cfg_udp_idle_secs :: "nat option"
  cfg_tcp_idle_secs :: "nat option"
  cfg_peers :: "'net peer_config list"

definition config_mtu :: "'net config \<Rightarrow> u16" where
  "config_mtu c = unwrap_or 1420 (cfg_mtu c)"

definition config_udp_idle :: "'net config \<Rightarrow> nat" where
  "config_udp_idle c = unwrap_or 60 (cfg_udp_idle_secs c)"

definition config_tcp_idle :: "'net config \<Rightarrow> nat" where
  "config_tcp_idle c = unwrap_or 7200 (cfg_tcp_idle_secs c)"

datatype 'net config_error =
    NoListener
  | PrivateKey key_error
  | UpstreamError upstream_error
  | HalfTls
  | WsPath
  | DnsRefused socket_addr
  | NoPeers
  | PeerKey string key_error
  | PresharedKey key_error
  | NoAllowedIps string
  | OutsideAddress 'net
  | Overlap 'net 'net

text \<open>\<open>seen\<close> is threaded through all peers, in order.\<close>

fun validate_nets ::
  "'net ipnet_lib \<Rightarrow> 'net \<Rightarrow> 'net list \<Rightarrow> 'net list \<Rightarrow> 'net config_error + 'net list" where
  "validate_nets L address seen [] = Inr seen"
| "validate_nets L address seen (net # nets) =
     (if \<not> net_contains_net L address net then Inl (OutsideAddress net)
      else (case find (\<lambda>q. net_contains L q (net_addr L net) \<or> net_contains L net (net_addr L q)) seen of
          Some other \<Rightarrow> Inl (Overlap net other)
        | None \<Rightarrow> validate_nets L address (seen @ [net]) nets))"

fun validate_peers ::
  "key_lib \<Rightarrow> 'net ipnet_lib \<Rightarrow> 'net \<Rightarrow> 'net list \<Rightarrow> 'net peer_config list
    \<Rightarrow> 'net config_error + 'net list" where
  "validate_peers K L address seen [] = Inr seen"
| "validate_peers K L address seen (p # ps) =
     and_then (map_err (PeerKey (pc_public_key p)) (decode_key K (pc_public_key p))) (\<lambda>_.
     and_then (case pc_preshared_key p of Some k \<Rightarrow> map_err PresharedKey (decode_key K k) | None \<Rightarrow> Inr ()) (\<lambda>_.
     and_then (case pc_upstream p of Some u \<Rightarrow> map_err UpstreamError (parse_upstream u) | None \<Rightarrow> Inr ()) (\<lambda>_.
     if pc_allowed_ips p = [] then Inl (NoAllowedIps (pc_public_key p))
     else and_then (validate_nets L address seen (pc_allowed_ips p)) (\<lambda>seen'.
            validate_peers K L address seen' ps))))"

definition validate :: "key_lib \<Rightarrow> 'net ipnet_lib \<Rightarrow> 'net config \<Rightarrow> 'net config_error + unit" where
  "validate K L c =
     (if cfg_listen_udp c = None \<and> cfg_listen_ws c = None then Inl NoListener
      else
        and_then (map_err PrivateKey (decode_key K (cfg_private_key c))) (\<lambda>_.
        and_then (map_err UpstreamError (parse_upstream (cfg_upstream c))) (\<lambda>_.
        and_then (case cfg_listen_ws c of
            Some ws \<Rightarrow>
              if (ws_cert ws \<noteq> None) \<noteq> (ws_key ws \<noteq> None) then Inl HalfTls
              else if \<not> prefix ''/'' (ws_path ws) then Inl WsPath else Inr ()
          | None \<Rightarrow> Inr ()) (\<lambda>_.
        and_then (case cfg_dns c of
            Some dns \<Rightarrow> ensure (allowed_dst L (cfg_address c) (sa_ip dns) (cfg_allow_private c)) (DnsRefused dns)
          | None \<Rightarrow> Inr ()) (\<lambda>_.
        if cfg_peers c = [] then Inl NoPeers
        else and_then (validate_peers K L (cfg_address c) [] (cfg_peers c)) (\<lambda>_. Inr ()))))))"

section \<open>What validation accepts\<close>

definition disjoint_nets :: "'net ipnet_lib \<Rightarrow> 'net \<Rightarrow> 'net \<Rightarrow> bool" where
  "disjoint_nets L n m \<longleftrightarrow> \<not> (net_contains L n (net_addr L m) \<or> net_contains L m (net_addr L n))"

lemma disjoint_nets_iff:
  "ipnet_documented L \<Longrightarrow> disjoint_nets L n m \<longleftrightarrow> \<not> (\<exists>a. net_contains L n a \<and> net_contains L m a)"
  by (simp add: networks_overlap_iff disjoint_nets_def)

definition nets_ok :: "'net ipnet_lib \<Rightarrow> 'net \<Rightarrow> 'net list \<Rightarrow> bool" where
  "nets_ok L address nets \<longleftrightarrow>
     list_all (net_contains_net L address) nets \<and> sorted_wrt (disjoint_nets L) nets"

definition all_nets :: "'net peer_config list \<Rightarrow> 'net list" where
  "all_nets ps = concat (map pc_allowed_ips ps)"

definition peer_ok :: "key_lib \<Rightarrow> 'net peer_config \<Rightarrow> bool" where
  "peer_ok K p \<longleftrightarrow>
     is_ok (decode_key K (pc_public_key p)) \<and>
     pred_option (\<lambda>k. is_ok (decode_key K k)) (pc_preshared_key p) \<and>
     pred_option (\<lambda>u. is_ok (parse_upstream u)) (pc_upstream p) \<and>
     pc_allowed_ips p \<noteq> []"

definition config_ok :: "key_lib \<Rightarrow> 'net ipnet_lib \<Rightarrow> 'net config \<Rightarrow> bool" where
  "config_ok K L c \<longleftrightarrow>
     (cfg_listen_udp c \<noteq> None \<or> cfg_listen_ws c \<noteq> None) \<and>
     is_ok (decode_key K (cfg_private_key c)) \<and>
     is_ok (parse_upstream (cfg_upstream c)) \<and>
     pred_option (\<lambda>ws. (ws_cert ws = None \<longleftrightarrow> ws_key ws = None) \<and> prefix ''/'' (ws_path ws)) (cfg_listen_ws c) \<and>
     pred_option (\<lambda>d. isolation_spec (net_contains L (cfg_address c)) (cfg_allow_private c) (sa_ip d)) (cfg_dns c) \<and>
     cfg_peers c \<noteq> [] \<and>
     list_all (peer_ok K) (cfg_peers c) \<and>
     nets_ok L (cfg_address c) (all_nets (cfg_peers c))"

lemma validate_nets_Inr_iff:
  "validate_nets L address seen nets = Inr s \<longleftrightarrow>
     s = seen @ nets \<and> list_all (net_contains_net L address) nets \<and>
     (\<forall>q \<in> set seen. \<forall>n \<in> set nets. disjoint_nets L q n) \<and> sorted_wrt (disjoint_nets L) nets"
proof (induction nets arbitrary: seen)
  case (Cons net nets)
  show ?case
    by (auto simp: Cons.IH find_None_iff find_Some_iff disjoint_nets_def split: option.split
        dest: nth_mem)
qed auto

lemma validate_peers_Inr_iff:
  "validate_peers K L address seen ps = Inr s \<longleftrightarrow>
     s = seen @ all_nets ps \<and> list_all (peer_ok K) ps \<and>
     list_all (net_contains_net L address) (all_nets ps) \<and>
     (\<forall>q \<in> set seen. \<forall>n \<in> set (all_nets ps). disjoint_nets L q n) \<and>
     sorted_wrt (disjoint_nets L) (all_nets ps)"
proof (induction ps arbitrary: seen)
  case (Cons p ps)
  show ?case
    by (auto simp: Cons.IH and_then_Inr_iff validate_nets_Inr_iff all_nets_def peer_ok_def
        sorted_wrt_append split: option.split)
qed (auto simp: all_nets_def)

text \<open>The routing table of a list of peers, as the server fills it: every peer's networks with its index.\<close>

definition routing_table :: "'net peer_config list \<Rightarrow> ('net \<times> nat) list" where
  "routing_table ps = concat (map (\<lambda>(i, p). map (\<lambda>n. (n, i)) (pc_allowed_ips p)) (enumerate 0 ps))"

lemma enumerate_Suc_eq: "enumerate (Suc n) xs = map (\<lambda>(i, x). (Suc i, x)) (enumerate n xs)"
  by (induction xs arbitrary: n) auto

lemma routing_table_mem:
  "(n, i) \<in> set (routing_table ps) \<longleftrightarrow> i < length ps \<and> n \<in> set (pc_allowed_ips (ps ! i))"
  by (force simp: routing_table_def in_set_enumerate_eq)

lemma sorted_wrt_concat_blocks:
  "sorted_wrt R (concat xss) \<Longrightarrow> i < j \<Longrightarrow> j < length xss \<Longrightarrow> x \<in> set (xss ! i) \<Longrightarrow> y \<in> set (xss ! j) \<Longrightarrow> R x y"
proof (induction xss arbitrary: i j)
  case (Cons xs xss)
  then show ?case
    by (cases i; cases j) (auto simp: sorted_wrt_append dest!: nth_mem)
qed simp

lemma nets_ok_unique_owner:
  assumes "ipnet_documented L" "nets_ok L address (all_nets ps)"
    and "owns L (routing_table ps) i a" "owns L (routing_table ps) j a"
  shows "i = j"
proof (rule ccontr)
  assume "i \<noteq> j"
  from assms(3,4) obtain n m where nm: "i < length ps" "n \<in> set (pc_allowed_ips (ps ! i))" "net_contains L n a"
      "j < length ps" "m \<in> set (pc_allowed_ips (ps ! j))" "net_contains L m a"
    by (auto simp: owns_iff routing_table_mem)
  have "sorted_wrt (disjoint_nets L) (concat (map pc_allowed_ips ps))"
    using assms(2) by (simp add: nets_ok_def all_nets_def)
  from sorted_wrt_concat_blocks [OF this, of i j n m] sorted_wrt_concat_blocks [OF this, of j i m n]
    \<open>i \<noteq> j\<close> nm have "disjoint_nets L n m \<or> disjoint_nets L m n"
    by (cases i j rule: linorder_cases) auto
  with nm(3,6) show False using assms(1) by (auto simp: disjoint_nets_iff)
qed

lemma contains_net_contains:
  assumes "net_contains_net L n m" "ipnet_documented L" "net_contains L m a"
  shows "net_contains L n a"
proof -
  note doc = ipnet_documentedD [OF assms(2)]
  have "same_prefix (net_prefix_len L n) (net_addr L n) (net_addr L m)"
    "same_prefix (net_prefix_len L n) (net_addr L m) a"
    using assms(1,3) by (auto simp: doc intro: same_prefix_mono)
  then show ?thesis unfolding doc by (rule same_prefix_trans)
qed

lemma nets_ok_inside:
  assumes "ipnet_documented L" "nets_ok L address (all_nets ps)" "owns L (routing_table ps) i a"
  shows "net_contains L address a"
proof -
  from assms(3) obtain n where n: "i < length ps" "n \<in> set (pc_allowed_ips (ps ! i))" "net_contains L n a"
    by (auto simp: owns_iff routing_table_mem)
  then have "n \<in> set (all_nets ps)" by (auto simp: all_nets_def)
  with assms(2) have "net_contains_net L address n" by (auto simp: nets_ok_def list_all_iff)
  then show ?thesis using assms(1) n(3) by (rule contains_net_contains)
qed

lemma config_ok_nets: "config_ok K L c \<Longrightarrow> nets_ok L (cfg_address c) (all_nets (cfg_peers c))"
  by (simp add: config_ok_def)

lemma validate_ok_iff: "validate K L c = Inr () \<longleftrightarrow> config_ok K L c"
proof -
  have "(case cfg_listen_ws c of
            Some ws \<Rightarrow>
              if (ws_cert ws \<noteq> None) \<noteq> (ws_key ws \<noteq> None) then Inl HalfTls
              else if \<not> prefix ''/'' (ws_path ws) then Inl WsPath else Inr ()
          | None \<Rightarrow> Inr ()) = (Inr () :: 'a config_error + unit) \<longleftrightarrow>
      pred_option (\<lambda>ws. (ws_cert ws = None \<longleftrightarrow> ws_key ws = None) \<and> prefix ''/'' (ws_path ws)) (cfg_listen_ws c)"
    by (cases "cfg_listen_ws c") auto
  moreover have "(case cfg_dns c of
            Some dns \<Rightarrow> ensure (allowed_dst L (cfg_address c) (sa_ip dns) (cfg_allow_private c)) (DnsRefused dns)
          | None \<Rightarrow> Inr ()) = (Inr () :: 'a config_error + unit) \<longleftrightarrow>
      pred_option (\<lambda>d. isolation_spec (net_contains L (cfg_address c)) (cfg_allow_private c) (sa_ip d)) (cfg_dns c)"
    by (cases "cfg_dns c") (auto simp: allowed_dst_blocks)
  ultimately show ?thesis
    by (auto simp: validate_def config_ok_def and_then_Inr_iff validate_peers_Inr_iff nets_ok_def
        simp del: prefix_code)
qed

section \<open>An example configuration, for closed examples\<close>

definition ex_key :: "u8 \<Rightarrow> string" where
  "ex_key n = encode_key nibble_lib (replicate 32 n)"

definition ex_peer :: "u8 \<Rightarrow> (ip_addr \<times> nat) list \<Rightarrow> (ip_addr \<times> nat) peer_config" where
  "ex_peer n nets = \<lparr>pc_public_key = ex_key n, pc_preshared_key = None, pc_allowed_ips = nets, pc_upstream = None\<rparr>"

definition ex_config :: "(ip_addr \<times> nat) config" where
  "ex_config =
     \<lparr>cfg_private_key = ex_key 1, cfg_address = (V4 (v4_addr 10 7 0 1), 24), cfg_mtu = None,
      cfg_listen_udp = Some (sock (V4 0) 51820), cfg_listen_ws = None, cfg_upstream = ''socks5://h:1080'',
      cfg_dns = Some (sock (V4 (v4_addr 1 1 1 1)) 53), cfg_allow_private = False,
      cfg_udp_idle_secs = None, cfg_tcp_idle_secs = None,
      cfg_peers = [ex_peer 2 [(V4 (v4_addr 10 7 0 2), 32)], ex_peer 3 [(V4 (v4_addr 10 7 0 4), 30)]]\<rparr>"

lemma ex_key_ok [simp]: "decode_key nibble_lib (ex_key n) = Inr (replicate 32 n)"
  using decode_key_encode [of nibble_lib "replicate 32 n" "[]" "[]"]
  by (simp add: ex_key_def nibble_lib_documented ascii_blank_def)

lemma ex_upstream_ok:
  "parse_upstream ''socks5://h:1080'' = Inr \<lparr>up_addr = ''h:1080'', up_auth = None\<rparr>"
  using parse_upstream_no_auth [of "''h:1080''"]
  by (simp add: host_port_def parse_u16_def from_str_radix_def)

lemma ex_config_valid: "validate nibble_lib cidr_lib ex_config = Inr ()"
  unfolding validate_ok_iff config_ok_def ex_config_def
  by (simp add: ex_upstream_ok peer_ok_def ex_peer_def nets_ok_def all_nets_def disjoint_nets_def
      isolation_spec_def always_refused_def private_ranges_def v4_addr_def cidr_lib_def)

lemma ex_config_allow [simp]: "cfg_allow_private ex_config = False"
  by (simp add: ex_config_def)

lemma ex_routes:
  "peer_for cidr_lib (routing_table (cfg_peers ex_config)) (V4 (v4_addr 10 7 0 2)) = Some 0"
  "allowed_dst cidr_lib (cfg_address ex_config) (V4 (v4_addr 93 184 216 34)) False"
  by (simp_all add: peer_for_def ex_config_def routing_table_def ex_peer_def cidr_lib_def v4_addr_def
      allowed_dst_v4 always_refused_def private_ranges_def)

lemma percent_encode_no_colon:
  assumes "\<And>c. keep c \<Longrightarrow> byte c < 128 \<and> c \<noteq> CHR '':''"
  shows "CHR '':'' \<notin> set (percent_encode keep s)"
proof -
  have hex: "CHR '':'' \<noteq> hex_digit n" if "n < 16" for n
    using byte_hex_digit [OF that] that by (auto simp: byte_def dest!: arg_cong [where f = byte] split: if_splits)
  have "byte c div 16 < 16" "byte c mod 16 < 16" for c
    by (simp_all add: less_mult_imp_div_less)
  moreover have "CHR '':'' \<noteq> c" if "keep c" for c
    using assms [OF that] by blast
  ultimately show ?thesis using hex by (induction s) simp_all
qed

section \<open>Properties\<close>

text \<open>
  C13: validation accepts exactly the sound configurations: some listener, keys of 32 bytes, upstreams
  that parse, TLS material whole or absent, a resolver the isolation blocks admit, and peers whose
  networks lie inside the tunnel subnet and are pairwise disjoint.
\<close>

theorem validate_iff: "validate K L c = Inr () \<longleftrightarrow> config_ok K L c"
  by (rule validate_ok_iff)

text \<open>
  C14: in a validated configuration cryptokey routing is exact: an address is looked up to a peer
  precisely when that peer owns it, no address has two owners, and every owned address is in the
  tunnel subnet.
\<close>

theorem validated_routing_exact:
  assumes "ipnet_documented L" "validate K L c = Inr ()"
  shows "(peer_for L (routing_table (cfg_peers c)) a = Some i \<longleftrightarrow> owns L (routing_table (cfg_peers c)) i a) \<and>
     (owns L (routing_table (cfg_peers c)) i a \<longrightarrow> owns L (routing_table (cfg_peers c)) j a \<longrightarrow> i = j) \<and>
     (owns L (routing_table (cfg_peers c)) i a \<longrightarrow> net_contains L (cfg_address c) a)"
proof -
  have ok: "nets_ok L (cfg_address c) (all_nets (cfg_peers c))"
    using assms(2) by (intro config_ok_nets) (simp add: validate_ok_iff)
  then show ?thesis
    using nets_ok_unique_owner [OF assms(1) ok] nets_ok_inside [OF assms(1) ok]
      peer_table.lookup_exclusive by blast
qed

theorem validated_routing_exact_witness:
  "peer_for cidr_lib (routing_table (cfg_peers ex_config)) (V4 (v4_addr 10 7 0 6)) = Some 1 \<longleftrightarrow>
     owns cidr_lib (routing_table (cfg_peers ex_config)) 1 (V4 (v4_addr 10 7 0 6))"
  using validated_routing_exact [OF cidr_lib_documented ex_config_valid] by blast

text \<open>
  C17: an upstream's credentials survive their percent-encoded form: any valid UTF-8 user and password,
  with colons escaped in the user, are read back exactly beside the unchanged host and port.
\<close>

theorem upstream_roundtrip:
  assumes "utf8_valid user" "utf8_valid pass" "host_port hp" "CHR ''@'' \<notin> set hp"
    and "\<And>c. keep_user c \<Longrightarrow> byte c < 128 \<and> c \<noteq> CHR '':''" "\<And>c. keep_pass c \<Longrightarrow> byte c < 128"
  shows "parse_upstream (''socks5://'' @ percent_encode keep_user user @ [CHR '':'']
       @ percent_encode keep_pass pass @ [CHR ''@''] @ hp)
     = Inr \<lparr>up_addr = hp, up_auth = Some (user, pass)\<rparr>"
  using parse_upstream_auth [OF assms(4,3) percent_encode_no_colon [OF assms(5)]] assms(1,2,5,6)
  by (simp only: percent_decode_encode)

theorem upstream_roundtrip_witness:
  "parse_upstream (''socks5://'' @ percent_encode (\<lambda>c. c = CHR ''a'') ''a@b:'' @ [CHR '':'']
      @ percent_encode (\<lambda>c. False) ''p:a/ss%'' @ [CHR ''@''] @ ''1.2.3.4:1080'')
    = Inr \<lparr>up_addr = ''1.2.3.4:1080'', up_auth = Some (''a@b:'', ''p:a/ss%'')\<rparr>"
  by (rule upstream_roundtrip)
    (auto intro!: utf8_valid_ascii simp: host_port_def parse_u16_def from_str_radix_def)

end
