(* ===== verification/Socks_Udp.thy ===== *)
theory Socks_Udp
  imports Config
begin

text \<open>
  \<open>crates/server/src/flow.rs\<close>, the SOCKS5 wire formats: the UDP request header of RFC 1928 section 7,
  and the UDP ASSOCIATE conversation with the RFC 1929 sub-negotiation.
\<close>

section \<open>The UDP request header\<close>

fun addr_bytes :: "ip_addr \<Rightarrow> bytes" where
  "addr_bytes (V4 a) = 1 # v4_octets a"
| "addr_bytes (V6 a) = 4 # v6_octets a"

definition udp_header :: "socket_addr \<Rightarrow> bytes" where
  "udp_header dst = [0, 0, 0] @ addr_bytes (sa_ip dst) @ be16_bytes (sa_port dst)"

text \<open>The source and the body of a reply; the body is what \<open>unwrap_udp\<close> returns, the source it only notes.\<close>

definition parse_udp :: "bytes \<Rightarrow> (socket_addr \<times> bytes) option" where
  "parse_udp d =
     (if length d < 4 \<or> d ! 2 \<noteq> 0 then None
      else if d ! 3 = 1 \<and> 10 \<le> length d then
        Some (sock (V4 (be_word (take 4 (drop 4 d)))) (be16_of_bytes (d ! 8) (d ! 9)), drop 10 d)
      else if d ! 3 = 4 \<and> 22 \<le> length d then
        Some (sock (V6 (be_word (take 16 (drop 4 d)))) (be16_of_bytes (d ! 20) (d ! 21)), drop 22 d)
      else None)"

definition unwrap_udp :: "bytes \<Rightarrow> socket_addr \<Rightarrow> bytes option" where
  "unwrap_udp d dst = map_option snd (parse_udp d)"

lemma length_v4_octets [simp]: "length (v4_octets a) = 4"
  by (simp add: v4_octets_def)

lemma length_v6_octets [simp]: "length (v6_octets a) = 16"
  by (simp add: v6_octets_def)

lemma be_word_octets [simp]: "be_word (v4_octets a) = a" "be_word (v6_octets b) = b"
  by (simp_all add: v4_octets_def v6_octets_def be_word_be_bytes)

lemma sock_eta [simp]: "sock (sa_ip s) (sa_port s) = s"
  by (simp add: sock_def)

lemma parse_udp_v4:
  "length a = 4 \<Longrightarrow> parse_udp (x # y # 0 # 1 # a @ be16_bytes p @ body) = Some (sock (V4 (be_word a)) p, body)"
  by (simp add: parse_udp_def be16_bytes_def nth_append)

lemma parse_udp_v6:
  "length a = 16 \<Longrightarrow> parse_udp (x # y # 0 # 4 # a @ be16_bytes p @ body) = Some (sock (V6 (be_word a)) p, body)"
  by (simp add: parse_udp_def be16_bytes_def nth_append)

lemma parse_udp_header: "parse_udp (x # y # drop 2 (udp_header s) @ body) = Some (s, body)"
  using parse_udp_v4 [of "v4_octets a" x y "sa_port s" body for a]
    parse_udp_v6 [of "v6_octets a" x y "sa_port s" body for a]
  by (cases "sa_ip s") (auto simp: udp_header_def sock_def)

interpretation udp_codec: byte_codec udp_header parse_udp
proof
  fix s body
  have "udp_header s = 0 # 0 # drop 2 (udp_header s)" by (simp add: udp_header_def)
  then show "parse_udp (udp_header s @ body) = Some (s, body)"
    using parse_udp_header [of 0 0 s body] by (metis append_Cons)
qed

lemma four_bytes: "4 \<le> length d \<Longrightarrow> \<exists>x y z w r. d = x # y # z # w # r"
  by (auto simp: numeral_eq_Suc Suc_le_length_iff)

lemma split_block: "n + 2 \<le> length r \<Longrightarrow> \<exists>a p q b. r = a @ p # q # b \<and> length a = n"
proof -
  assume n: "n + 2 \<le> length r"
  then obtain p q b where "drop n r = p # q # b"
    by (metis Suc_le_length_iff add_2_eq_Suc' add_leD1 diff_add_inverse diff_le_mono length_drop numeral_2_eq_2 add.commute)
  then have "r = take n r @ p # q # b" by (metis append_take_drop_id)
  with n show ?thesis by (metis add_leD1 length_take min.absorb2)
qed

lemma octets_be_word:
  "length a = 4 \<Longrightarrow> v4_octets (be_word a) = a" "length b = 16 \<Longrightarrow> v6_octets (be_word b) = b"
  by (simp_all add: v4_octets_def v6_octets_def be_bytes_be_word)

lemma parse_udp_SomeD:
  assumes "parse_udp d = Some (s, body)"
  shows "\<exists>x y. d = x # y # drop 2 (udp_header s) @ body"
proof -
  have "4 \<le> length d" "d ! 2 = 0" using assms by (auto simp: parse_udp_def split: if_splits)
  then obtain x y w r where d: "d = x # y # 0 # w # r" using four_bytes by fastforce
  show ?thesis
  proof (cases "w = 1 \<and> 6 \<le> length r")
    case True
    then obtain a p q b where r: "r = a @ p # q # b" "length a = 4" using split_block [of 4 r] by auto
    have "parse_udp d = Some (sock (V4 (be_word a)) (be16_of_bytes p q), b)"
      using parse_udp_v4 [OF r(2), of x y "be16_of_bytes p q" b] d r True by (simp add: be16_bytes_of_bytes)
    with assms d r True show ?thesis
      by (auto simp: udp_header_def octets_be_word be16_bytes_of_bytes)
  next
    case False
    then have w: "w = 4" "18 \<le> length r" using assms d by (auto simp: parse_udp_def split: if_splits)
    then obtain a p q b where r: "r = a @ p # q # b" "length a = 16" using split_block [of 16 r] by auto
    have "parse_udp d = Some (sock (V6 (be_word a)) (be16_of_bytes p q), b)"
      using parse_udp_v6 [OF r(2), of x y "be16_of_bytes p q" b] d r w by (simp add: be16_bytes_of_bytes)
    with assms d r w show ?thesis
      by (auto simp: udp_header_def octets_be_word be16_bytes_of_bytes)
  qed
qed

section \<open>A conversation over a byte stream\<close>

text \<open>
  A control connection: the bytes the proxy will send, the messages written so far, and how many more
  writes succeed. Reading past the end of the stream and a failed write are the same I/O error.
\<close>

record conn =
  c_in :: bytes
  c_out :: "bytes list"
  c_writes :: nat

datatype assoc_error =
    IoError
  | NotSocks5
  | NoCredentials
  | CredentialsTooLong
  | CredentialsRejected
  | BadMethod u8
  | AssociateRefused u8
  | BadAddressType u8

type_synonym 'a io = "conn \<Rightarrow> conn \<times> (assoc_error + 'a)"

definition io_return :: "'a \<Rightarrow> 'a io" where
  "io_return x = (\<lambda>c. (c, Inr x))"

definition io_ensure :: "bool \<Rightarrow> assoc_error \<Rightarrow> unit io" where
  "io_ensure b e = (\<lambda>c. (c, ensure b e))"

definition io_bind :: "'a io \<Rightarrow> ('a \<Rightarrow> 'b io) \<Rightarrow> 'b io" where
  "io_bind m f = (\<lambda>c. case m c of (c', Inl e) \<Rightarrow> (c', Inl e) | (c', Inr x) \<Rightarrow> f x c')"

definition write_all :: "bytes \<Rightarrow> unit io" where
  "write_all b = (\<lambda>c. if c_writes c = 0 then (c, Inl IoError)
     else (c\<lparr>c_out := c_out c @ [b], c_writes := c_writes c - 1\<rparr>, Inr ()))"

definition read_exact :: "nat \<Rightarrow> bytes io" where
  "read_exact n = (\<lambda>c. if length (c_in c) < n then (c\<lparr>c_in := []\<rparr>, Inl IoError)
     else (c\<lparr>c_in := drop n (c_in c)\<rparr>, Inr (take n (c_in c))))"

definition as_bytes :: "string \<Rightarrow> bytes" where
  "as_bytes s = map (\<lambda>c. of_nat (byte c)) s"

definition auth_request :: "string \<Rightarrow> string \<Rightarrow> bytes" where
  "auth_request user pass =
     [1, of_nat (length user)] @ as_bytes user @ [of_nat (length pass)] @ as_bytes pass"

text \<open>The sub-negotiation of the method the proxy chose, and the bound address of its last reply.\<close>

definition authenticate :: "upstream \<Rightarrow> u8 \<Rightarrow> unit io" where
  "authenticate up chosen =
     (if chosen = 0 then io_return ()
      else if chosen = 2 then
        io_bind (\<lambda>c. (c, ok_or NoCredentials (up_auth up))) (\<lambda>(user, pass).
        io_bind (io_ensure (length user < 256 \<and> length pass < 256) CredentialsTooLong) (\<lambda>_.
        io_bind (write_all (auth_request user pass)) (\<lambda>_.
        io_bind (read_exact 2) (\<lambda>ok.
        io_ensure (ok ! 1 = 0) CredentialsRejected))))
      else (\<lambda>c. (c, Inl (BadMethod chosen))))"

definition read_bound :: "u8 \<Rightarrow> socket_addr io" where
  "read_bound atyp =
     (if atyp = 1 then
        io_bind (read_exact 6) (\<lambda>b. io_return (sock (V4 (be_word (take 4 b))) (be16_of_bytes (b ! 4) (b ! 5))))
      else if atyp = 4 then
        io_bind (read_exact 18) (\<lambda>b. io_return (sock (V6 (be_word (take 16 b))) (be16_of_bytes (b ! 16) (b ! 17))))
      else (\<lambda>c. (c, Inl (BadAddressType atyp))))"

text \<open>\<open>associate\<close> up to the bound address the proxy names.\<close>

definition negotiate :: "upstream \<Rightarrow> socket_addr io" where
  "negotiate up =
     io_bind (write_all [5, 2, 0, 2]) (\<lambda>_.
     io_bind (read_exact 2) (\<lambda>chosen.
     io_bind (io_ensure (chosen ! 0 = 5) NotSocks5) (\<lambda>_.
     io_bind (authenticate up (chosen ! 1)) (\<lambda>_.
     io_bind (write_all [5, 3, 0, 1, 0, 0, 0, 0, 0, 0]) (\<lambda>_.
     io_bind (read_exact 4) (\<lambda>head.
     io_bind (io_ensure (head ! 0 = 5) NotSocks5) (\<lambda>_.
     io_bind (io_ensure (head ! 1 = 0) (AssociateRefused (head ! 1))) (\<lambda>_.
     read_bound (head ! 3)))))))))"

text \<open>The relay to talk to, and the local address of the socket bound for it.\<close>

definition relay_address :: "ip_addr \<Rightarrow> socket_addr \<Rightarrow> socket_addr" where
  "relay_address proxy_ip bound =
     (if ip_is_unspecified (sa_ip bound) then sock proxy_ip (sa_port bound) else bound)"

definition local_address :: "socket_addr \<Rightarrow> socket_addr" where
  "local_address relay = (if is_ipv4 (sa_ip relay) then sock (V4 0) 0 else sock (V6 0) 0)"

text \<open>
  The whole of \<open>associate\<close> after the connection is up: \<open>proxy_ip\<close> is the control connection's peer,
  \<open>sockets_ok\<close> whether binding and connecting the relay socket succeed.
\<close>

definition associate :: "upstream \<Rightarrow> ip_addr \<Rightarrow> bool \<Rightarrow> (socket_addr \<times> socket_addr) io" where
  "associate up proxy_ip sockets_ok =
     io_bind (negotiate up) (\<lambda>bound.
       let relay = relay_address proxy_ip bound; local = local_address relay
       in io_bind (io_ensure sockets_ok IoError) (\<lambda>_. io_return (local, relay)))"

section \<open>What a successful conversation looks like\<close>

lemma io_bind_Inr_iff:
  "io_bind m f c = (c', Inr y) \<longleftrightarrow> (\<exists>d x. m c = (d, Inr x) \<and> f x d = (c', Inr y))"
  by (auto simp: io_bind_def split: prod.split sum.split)

lemma io_ensure_Inr_iff [simp]: "io_ensure b e c = (c', Inr u) \<longleftrightarrow> b \<and> c' = c"
  by (auto simp: io_ensure_def)

lemma io_return_Inr_iff [simp]: "io_return x c = (c', Inr y) \<longleftrightarrow> c' = c \<and> y = x"
  by (auto simp: io_return_def)

lemma write_all_Inr_iff:
  "write_all b c = (c', Inr u) \<longleftrightarrow>
     0 < c_writes c \<and> c' = c\<lparr>c_out := c_out c @ [b], c_writes := c_writes c - 1\<rparr>"
  by (auto simp: write_all_def)

lemma read_exact_Inr_iff:
  "read_exact n c = (c', Inr b) \<longleftrightarrow> (\<exists>r. c_in c = b @ r \<and> length b = n \<and> c' = c\<lparr>c_in := r\<rparr>)"
  by (auto simp: read_exact_def intro: exI [of _ "drop n (c_in c)"])

text \<open>One exchange: what is read, what is written, and the connection it leaves.\<close>

definition exchanged :: "conn \<Rightarrow> bytes \<Rightarrow> bytes list \<Rightarrow> conn \<Rightarrow> bool" where
  "exchanged c reply sent c' \<longleftrightarrow>
     c_in c = reply @ c_in c' \<and> c_out c' = c_out c @ sent \<and> c_writes c = c_writes c' + length sent"

lemma exchanged_refl: "exchanged c [] [] c' \<longleftrightarrow> c' = c"
  by (auto simp: exchanged_def)

lemma exchanged_trans:
  "(\<exists>d. exchanged c r1 s1 d \<and> exchanged d r2 s2 c') \<longleftrightarrow> exchanged c (r1 @ r2) (s1 @ s2) c'"
proof
  assume "exchanged c (r1 @ r2) (s1 @ s2) c'"
  then show "\<exists>d. exchanged c r1 s1 d \<and> exchanged d r2 s2 c'"
    by (intro exI [of _ "\<lparr>c_in = r2 @ c_in c', c_out = c_out c @ s1, c_writes = c_writes c' + length s2\<rparr>"])
      (simp add: exchanged_def)
qed (auto simp: exchanged_def)

lemma write_all_exchanged: "write_all b c = (c', Inr u) \<longleftrightarrow> exchanged c [] [b] c'"
  by (auto simp: write_all_Inr_iff exchanged_def)

lemma read_exact_exchanged: "read_exact n c = (c', Inr b) \<longleftrightarrow> length b = n \<and> exchanged c b [] c'"
  by (auto simp: read_exact_Inr_iff exchanged_def)

lemma length_2: "length b = 2 \<longleftrightarrow> (\<exists>x y. b = [x, y])"
  by (auto simp: numeral_2_eq_2 length_Suc_conv)

lemma length_4: "length b = 4 \<longleftrightarrow> (\<exists>x y z w. b = [x, y, z, w])"
  by (auto simp: numeral_eq_Suc length_Suc_conv)

lemma ex_read_2: "(\<exists>d b. read_exact 2 c = (d, Inr b) \<and> P d b) \<longleftrightarrow> (\<exists>x y d. exchanged c [x, y] [] d \<and> P d [x, y])"
  unfolding read_exact_exchanged length_2 by blast

lemma ex_read_4:
  "(\<exists>d b. read_exact 4 c = (d, Inr b) \<and> P d b) \<longleftrightarrow> (\<exists>x y z w d. exchanged c [x, y, z, w] [] d \<and> P d [x, y, z, w])"
  unfolding read_exact_exchanged length_4 by blast

definition auth_exchange :: "upstream \<Rightarrow> u8 \<Rightarrow> bytes \<Rightarrow> bytes list \<Rightarrow> bool" where
  "auth_exchange up method reply sent \<longleftrightarrow>
     method = 0 \<and> reply = [] \<and> sent = [] \<or>
     method = 2 \<and> (\<exists>user pass v. up_auth up = Some (user, pass) \<and> length user < 256 \<and> length pass < 256 \<and>
        reply = [v, 0] \<and> sent = [auth_request user pass])"

lemma authenticate_iff:
  "authenticate up m c = (c', Inr u) \<longleftrightarrow> (\<exists>r s. auth_exchange up m r s \<and> exchanged c r s c')"
proof (cases "m = 2")
  case True
  have "authenticate up m c = (c', Inr u) \<longleftrightarrow>
      (\<exists>user pass v. up_auth up = Some (user, pass) \<and> length user < 256 \<and> length pass < 256 \<and>
         (\<exists>d. exchanged c [] [auth_request user pass] d \<and> exchanged d [v, 0] [] c'))"
    using True by (cases "up_auth up")
      (simp_all add: authenticate_def io_bind_Inr_iff ex_read_2 write_all_exchanged split: prod.split, blast)
  also have "\<dots> \<longleftrightarrow> (\<exists>r s. auth_exchange up m r s \<and> exchanged c r s c')"
    using True unfolding exchanged_trans auth_exchange_def by (simp, blast)
  finally show ?thesis .
next
  case False
  then show ?thesis
    by (auto simp: authenticate_def auth_exchange_def exchanged_refl)
qed

lemma length_split:
  "length b = n + 2 \<longleftrightarrow> (\<exists>a p q. b = a @ [p, q] \<and> length a = n)"
proof
  assume "length b = n + 2"
  then obtain a p q r where "b = a @ p # q # r" "length a = n" using split_block [of n b] by auto
  with \<open>length b = n + 2\<close> show "\<exists>a p q. b = a @ [p, q] \<and> length a = n" by auto
qed auto

lemma ex_read_block:
  "(\<exists>d b. read_exact (n + 2) c = (d, Inr b) \<and> P d b) \<longleftrightarrow>
     (\<exists>a p q d. length a = n \<and> exchanged c (a @ [p, q]) [] d \<and> P d (a @ [p, q]))"
  unfolding read_exact_exchanged length_split by blast

lemma read_bound_v4:
  "read_bound 1 c = (c', Inr s) \<longleftrightarrow>
     (\<exists>a p q. length a = 4 \<and> exchanged c (a @ [p, q]) [] c' \<and> s = sock (V4 (be_word a)) (be16_of_bytes p q))"
proof -
  let ?P = "\<lambda>d b. d = c' \<and> s = sock (V4 (be_word (take 4 b))) (be16_of_bytes (b ! 4) (b ! 5))"
  have "read_bound 1 c = (c', Inr s) \<longleftrightarrow> (\<exists>d b. read_exact (4 + 2) c = (d, Inr b) \<and> ?P d b)"
    by (auto simp: read_bound_def io_bind_Inr_iff)
  also have "\<dots> \<longleftrightarrow> (\<exists>a p q d. length a = 4 \<and> exchanged c (a @ [p, q]) [] d \<and> ?P d (a @ [p, q]))"
    by (rule ex_read_block)
  finally show ?thesis by (simp add: nth_append cong: conj_cong)
qed

lemma read_bound_v6:
  "read_bound 4 c = (c', Inr s) \<longleftrightarrow>
     (\<exists>a p q. length a = 16 \<and> exchanged c (a @ [p, q]) [] c' \<and> s = sock (V6 (be_word a)) (be16_of_bytes p q))"
proof -
  let ?P = "\<lambda>d b. d = c' \<and> s = sock (V6 (be_word (take 16 b))) (be16_of_bytes (b ! 16) (b ! 17))"
  have "read_bound 4 c = (c', Inr s) \<longleftrightarrow> (\<exists>d b. read_exact (16 + 2) c = (d, Inr b) \<and> ?P d b)"
    by (auto simp: read_bound_def io_bind_Inr_iff)
  also have "\<dots> \<longleftrightarrow> (\<exists>a p q d. length a = 16 \<and> exchanged c (a @ [p, q]) [] d \<and> ?P d (a @ [p, q]))"
    by (rule ex_read_block)
  finally show ?thesis by (simp add: nth_append cong: conj_cong)
qed

lemma read_bound_iff:
  "read_bound t c = (c', Inr s) \<longleftrightarrow> (\<exists>r. t # r = addr_bytes (sa_ip s) @ be16_bytes (sa_port s) \<and> exchanged c r [] c')"
proof -
  have v4: "s = sock (V4 (be_word a)) (be16_of_bytes p q) \<longleftrightarrow>
      1 # a @ [p, q] = addr_bytes (sa_ip s) @ be16_bytes (sa_port s)" if "length a = 4" for a p q
  proof
    assume "1 # a @ [p, q] = addr_bytes (sa_ip s) @ be16_bytes (sa_port s)"
    with parse_udp_v4 [OF that, of 0 0 "be16_of_bytes p q" "[]"] parse_udp_header [of 0 0 s "[]"]
    show "s = sock (V4 (be_word a)) (be16_of_bytes p q)"
      by (simp add: udp_header_def be16_bytes_of_bytes)
  qed (use that in \<open>simp add: octets_be_word be16_bytes_of_bytes\<close>)
  have v6: "s = sock (V6 (be_word a)) (be16_of_bytes p q) \<longleftrightarrow>
      4 # a @ [p, q] = addr_bytes (sa_ip s) @ be16_bytes (sa_port s)" if "length a = 16" for a p q
  proof
    assume "4 # a @ [p, q] = addr_bytes (sa_ip s) @ be16_bytes (sa_port s)"
    with parse_udp_v6 [OF that, of 0 0 "be16_of_bytes p q" "[]"] parse_udp_header [of 0 0 s "[]"]
    show "s = sock (V6 (be_word a)) (be16_of_bytes p q)"
      by (simp add: udp_header_def be16_bytes_of_bytes)
  qed (use that in \<open>simp add: octets_be_word be16_bytes_of_bytes\<close>)
  consider "t = 1" | "t = 4" | "t \<noteq> 1" "t \<noteq> 4" by blast
  then show ?thesis
  proof cases
    case 1
    have "read_bound t c = (c', Inr s) \<longleftrightarrow>
        (\<exists>a p q. length a = 4 \<and> exchanged c (a @ [p, q]) [] c' \<and> s = sock (V4 (be_word a)) (be16_of_bytes p q))"
      using 1 read_bound_v4 by simp
    also have "\<dots> \<longleftrightarrow> (\<exists>r. t # r = addr_bytes (sa_ip s) @ be16_bytes (sa_port s) \<and> exchanged c r [] c')"
    proof
      assume "\<exists>r. t # r = addr_bytes (sa_ip s) @ be16_bytes (sa_port s) \<and> exchanged c r [] c'"
      then obtain r where r: "t # r = addr_bytes (sa_ip s) @ be16_bytes (sa_port s)" "exchanged c r [] c'" by blast
      then have "length r = 4 + 2" using 1 by (cases "sa_ip s") auto
      then obtain a p q where "r = a @ [p, q]" "length a = 4" unfolding length_split by blast
      with r v4 1 show "\<exists>a p q. length a = 4 \<and> exchanged c (a @ [p, q]) [] c' \<and> s = sock (V4 (be_word a)) (be16_of_bytes p q)"
        by blast
    qed (use v4 1 in blast)
    finally show ?thesis .
  next
    case 2
    have "read_bound t c = (c', Inr s) \<longleftrightarrow>
        (\<exists>a p q. length a = 16 \<and> exchanged c (a @ [p, q]) [] c' \<and> s = sock (V6 (be_word a)) (be16_of_bytes p q))"
      using 2 read_bound_v6 by simp
    also have "\<dots> \<longleftrightarrow> (\<exists>r. t # r = addr_bytes (sa_ip s) @ be16_bytes (sa_port s) \<and> exchanged c r [] c')"
    proof
      assume "\<exists>r. t # r = addr_bytes (sa_ip s) @ be16_bytes (sa_port s) \<and> exchanged c r [] c'"
      then obtain r where r: "t # r = addr_bytes (sa_ip s) @ be16_bytes (sa_port s)" "exchanged c r [] c'" by blast
      then have "length r = 16 + 2" using 2 by (cases "sa_ip s") auto
      then obtain a p q where "r = a @ [p, q]" "length a = 16" unfolding length_split by blast
      with r v6 2 show "\<exists>a p q. length a = 16 \<and> exchanged c (a @ [p, q]) [] c' \<and> s = sock (V6 (be_word a)) (be16_of_bytes p q)"
        by blast
    qed (use v6 2 in blast)
    finally show ?thesis .
  next
    case 3
    then show ?thesis by (cases "sa_ip s") (auto simp: read_bound_def)
  qed
qed

definition conforming :: "upstream \<Rightarrow> bytes \<Rightarrow> socket_addr \<Rightarrow> bytes list \<Rightarrow> bool" where
  "conforming up reply bound sent \<longleftrightarrow>
     (\<exists>method auth_reply auth_sent rsv. auth_exchange up method auth_reply auth_sent \<and>
        reply = [5, method] @ auth_reply @ [5, 0, rsv] @ addr_bytes (sa_ip bound) @ be16_bytes (sa_port bound) \<and>
        sent = [[5, 2, 0, 2]] @ auth_sent @ [[5, 3, 0, 1, 0, 0, 0, 0, 0, 0]])"

lemma negotiate_iff:
  "negotiate up c = (c', Inr bound) \<longleftrightarrow> (\<exists>reply sent. conforming up reply bound sent \<and> exchanged c reply sent c')"
proof -
  have "negotiate up c = (c', Inr bound) \<longleftrightarrow>
     (\<exists>d1 d2 d3 d4 d5 m r1 s1 rsv t r2. exchanged c [] [[5, 2, 0, 2]] d1 \<and> exchanged d1 [5, m] [] d2 \<and>
        auth_exchange up m r1 s1 \<and> exchanged d2 r1 s1 d3 \<and>
        exchanged d3 [] [[5, 3, 0, 1, 0, 0, 0, 0, 0, 0]] d4 \<and> exchanged d4 [5, 0, rsv, t] [] d5 \<and>
        t # r2 = addr_bytes (sa_ip bound) @ be16_bytes (sa_port bound) \<and> exchanged d5 r2 [] c')"
    by (simp add: negotiate_def io_bind_Inr_iff ex_read_2 ex_read_4 write_all_exchanged authenticate_iff
        read_bound_iff) blast
  also have "\<dots> \<longleftrightarrow> (\<exists>m r1 s1 rsv t r2. auth_exchange up m r1 s1 \<and>
        t # r2 = addr_bytes (sa_ip bound) @ be16_bytes (sa_port bound) \<and>
        exchanged c ([] @ [5, m] @ r1 @ [] @ [5, 0, rsv, t] @ r2)
          ([[5, 2, 0, 2]] @ [] @ s1 @ [[5, 3, 0, 1, 0, 0, 0, 0, 0, 0]] @ [] @ []) c')"
    unfolding exchanged_trans [symmetric] by blast
  also have "\<dots> \<longleftrightarrow> (\<exists>reply sent. conforming up reply bound sent \<and> exchanged c reply sent c')"
  proof
    assume "\<exists>reply sent. conforming up reply bound sent \<and> exchanged c reply sent c'"
    then obtain m r1 s1 rsv where *: "auth_exchange up m r1 s1"
      "exchanged c ([5, m] @ r1 @ [5, 0, rsv] @ addr_bytes (sa_ip bound) @ be16_bytes (sa_port bound))
         ([[5, 2, 0, 2]] @ s1 @ [[5, 3, 0, 1, 0, 0, 0, 0, 0, 0]]) c'"
      unfolding conforming_def by blast
    obtain t r2 where t: "addr_bytes (sa_ip bound) @ be16_bytes (sa_port bound) = t # r2"
      by (cases "sa_ip bound") auto
    show "\<exists>m r1 s1 rsv t r2. auth_exchange up m r1 s1 \<and>
        t # r2 = addr_bytes (sa_ip bound) @ be16_bytes (sa_port bound) \<and>
        exchanged c ([] @ [5, m] @ r1 @ [] @ [5, 0, rsv, t] @ r2)
          ([[5, 2, 0, 2]] @ [] @ s1 @ [[5, 3, 0, 1, 0, 0, 0, 0, 0, 0]] @ [] @ []) c'"
      using * unfolding t
      by (intro exI [of _ m] exI [of _ r1] exI [of _ s1] exI [of _ rsv] exI [of _ t] exI [of _ r2]) simp
  qed (force simp: conforming_def)
  finally show ?thesis .
qed

lemma associate_iff:
  "associate up proxy_ip sockets_ok c = (c', Inr (local, relay)) \<longleftrightarrow>
     sockets_ok \<and> (\<exists>bound. negotiate up c = (c', Inr bound) \<and>
       relay = relay_address proxy_ip bound \<and> local = local_address relay)"
  by (auto simp: associate_def io_bind_Inr_iff Let_def)

section \<open>Properties\<close>

text \<open>
  C23: the UDP header is undone exactly: a datagram parses, as a source and a body, precisely when it is
  that source's header (with any reserved bytes) followed by that body.
\<close>

theorem udp_header_exact:
  "parse_udp d = Some (s, body) \<longleftrightarrow> (\<exists>x y. d = x # y # drop 2 (udp_header s) @ body)"
  using parse_udp_SomeD [of d s body] parse_udp_header by auto

text \<open>
  C22: UDP ASSOCIATE succeeds exactly on a conforming conversation: the proxy's bytes are its method
  choice, the sub-negotiation of that method, and a success reply with the bound address, consumed to
  the byte; the messages sent are the ones those replies call for; and the relay is the bound address,
  with a wildcard replaced by the proxy's own, over a socket of the same family.
\<close>

theorem associate_exact:
  "associate up proxy_ip sockets_ok c = (c', Inr (local, relay)) \<longleftrightarrow>
     sockets_ok \<and> (\<exists>bound reply sent. conforming up reply bound sent \<and>
       c_in c = reply @ c_in c' \<and> c_out c' = c_out c @ sent \<and> c_writes c = c_writes c' + length sent \<and>
       relay = (if ip_is_unspecified (sa_ip bound) then sock proxy_ip (sa_port bound) else bound) \<and>
       local = sock (if is_ipv4 (sa_ip relay) then V4 0 else V6 0) 0)"
  unfolding associate_iff negotiate_iff exchanged_def
  by (auto simp: relay_address_def local_address_def)

end
