(* ===== verification/Flow.thy ===== *)
theory Flow
  imports Socks_Udp
begin

text \<open>
  \<open>crates/server/src/flow.rs\<close>, the UDP flows: the decision between relaying and DNS over TCP, the relay
  loop, and DNS over TCP. What the sockets deliver is a list of events, in the order the loop's
  \<open>select!\<close> sees them.
\<close>

section \<open>Which way a UDP flow goes\<close>

definition UDP_OVERHEAD :: nat where
  "UDP_OVERHEAD = 28"

definition DNS_IDLE :: nat where
  "DNS_IDLE = 10"

definition payload_cap :: "u16 \<Rightarrow> nat" where
  "payload_cap mtu = saturating_sub (unat mtu) UDP_OVERHEAD"

text \<open>What became of the association attempt: made, refused with an error, or timed out.\<close>

datatype attempt = Associated | AssociateFailed | AssociateTimedOut

datatype udp_outcome =
    DnsForced socket_addr
  | Relayed nat
  | DnsFallback socket_addr
  | Dropped

text \<open>
  The head of \<open>udp_relay\<close>, on the set \<open>NO_UDP\<close> of upstreams known not to relay UDP: \<open>True\<close> when the
  flow is relayed, \<open>False\<close> when the stream is handed back.
\<close>

definition relay_entry :: "string set \<Rightarrow> upstream \<Rightarrow> attempt \<Rightarrow> string set \<times> bool" where
  "relay_entry no_udp up attempt =
     (if up_addr up \<in> no_udp then (no_udp, False)
      else (case attempt of
          Associated \<Rightarrow> (no_udp, True)
        | AssociateFailed \<Rightarrow> (insert (up_addr up) no_udp, False)
        | AssociateTimedOut \<Rightarrow> (no_udp, False)))"

definition handle_udp ::
  "string set \<Rightarrow> upstream \<Rightarrow> socket_addr \<Rightarrow> socket_addr option \<Rightarrow> nat \<Rightarrow> attempt \<Rightarrow> string set \<times> udp_outcome" where
  "handle_udp no_udp up dst dns idle attempt =
     (case (sa_port dst = 53, dns) of
        (True, Some forced) \<Rightarrow> (no_udp, DnsForced forced)
      | _ \<Rightarrow>
          (let idle' = (if sa_port dst = 53 then min idle DNS_IDLE else idle);
               (no_udp', relayed) = relay_entry no_udp up attempt
           in (no_udp',
               if relayed then Relayed idle' else if sa_port dst = 53 then DnsFallback dst else Dropped)))"

section \<open>The relay loop\<close>

text \<open>
  One event per turn: a read from the peer's stream (none is an error, empty the end) with whether the
  send to the relay succeeds; a datagram from the relay with whether the write to the peer succeeds;
  anything on the control connection; the idle timer.
\<close>

datatype relay_event =
    PeerRead "bytes option" bool
  | RelayRecv "bytes option" bool
  | ControlRead
  | IdleElapsed

record relayed =
  to_relay :: "bytes list"
  to_peer :: "bytes list"

fun relay_turn :: "socket_addr \<Rightarrow> nat \<Rightarrow> relay_event \<Rightarrow> relayed \<Rightarrow> relayed \<times> bool" where
  "relay_turn dst cap (PeerRead r ok) s =
     (case r of
        None \<Rightarrow> (s, False)
      | Some p \<Rightarrow>
          if p = [] then (s, False)
          else if ok then (s\<lparr>to_relay := to_relay s @ [udp_header dst @ p]\<rparr>, True) else (s, False))"
| "relay_turn dst cap (RelayRecv r ok) s =
     (case r of
        None \<Rightarrow> (s, False)
      | Some d \<Rightarrow>
          (case unwrap_udp d dst of
             None \<Rightarrow> (s, True)
           | Some payload \<Rightarrow>
               if cap < length payload then (s, True)
               else if ok then (s\<lparr>to_peer := to_peer s @ [payload]\<rparr>, True) else (s, False)))"
| "relay_turn dst cap ControlRead s = (s, False)"
| "relay_turn dst cap IdleElapsed s = (s, False)"

fun relay_run :: "socket_addr \<Rightarrow> nat \<Rightarrow> relay_event list \<Rightarrow> relayed \<Rightarrow> relayed" where
  "relay_run dst cap [] s = s"
| "relay_run dst cap (e # es) s =
     (let (s', go) = relay_turn dst cap e s in if go then relay_run dst cap es s' else s')"

text \<open>The specification: which events end the flow, and what the others carry.\<close>

fun ends_flow :: "socket_addr \<Rightarrow> nat \<Rightarrow> relay_event \<Rightarrow> bool" where
  "ends_flow dst cap (PeerRead r ok) = (r = None \<or> r = Some [] \<or> \<not> ok)"
| "ends_flow dst cap (RelayRecv r ok) =
     (case r of None \<Rightarrow> True | Some d \<Rightarrow> (case parse_udp d of None \<Rightarrow> False | Some (_, p) \<Rightarrow> length p \<le> cap \<and> \<not> ok))"
| "ends_flow dst cap ControlRead = True"
| "ends_flow dst cap IdleElapsed = True"

fun sent_by_peer :: "relay_event \<Rightarrow> bytes list" where
  "sent_by_peer (PeerRead (Some p) ok) = [p]"
| "sent_by_peer _ = []"

fun meant_for_peer :: "nat \<Rightarrow> relay_event \<Rightarrow> bytes list" where
  "meant_for_peer cap (RelayRecv (Some d) ok) =
     (case parse_udp d of Some (_, p) \<Rightarrow> if length p \<le> cap then [p] else [] | None \<Rightarrow> [])"
| "meant_for_peer cap _ = []"

lemma relay_turn_spec:
  "relay_turn dst cap e s =
     (if ends_flow dst cap e then (s, False)
      else (s\<lparr>to_relay := to_relay s @ map (\<lambda>p. udp_header dst @ p) (sent_by_peer e),
              to_peer := to_peer s @ meant_for_peer cap e\<rparr>, True))"
  by (cases e) (auto simp: unwrap_udp_def split: option.splits)

lemma relay_run_spec:
  "relay_run dst cap es s =
     s\<lparr>to_relay := to_relay s @ map (\<lambda>p. udp_header dst @ p) (concat (map sent_by_peer (takeWhile (\<lambda>e. \<not> ends_flow dst cap e) es))),
       to_peer := to_peer s @ concat (map (meant_for_peer cap) (takeWhile (\<lambda>e. \<not> ends_flow dst cap e) es))\<rparr>"
  by (induction es arbitrary: s) (simp_all add: relay_turn_spec)

section \<open>DNS over TCP\<close>

definition dns_frame :: "bytes \<Rightarrow> bytes" where
  "dns_frame q = be16_bytes (of_nat (length q)) @ q"

text \<open>Two reads off the proxied stream; \<open>None\<close> when it ends early.\<close>

definition dns_read :: "bytes \<Rightarrow> bytes option" where
  "dns_read stream =
     (case stream of
        a # b # rest \<Rightarrow>
          (let n = unat (be16_of_bytes a b) in if n \<le> length rest then Some (take n rest) else None)
      | _ \<Rightarrow> None)"

definition clip_answer :: "nat \<Rightarrow> bytes \<Rightarrow> bytes" where
  "clip_answer cap answer =
     (if cap < length answer then
        take cap (if 3 \<le> length answer then answer[2 := answer ! 2 OR 2] else answer)
      else answer)"

text \<open>
  One turn of the loop: a read from the peer (none is the end or an error), then, when the proxy can be
  dialled, the exchange (\<open>None\<close> for a time-out or an I/O error, else the bytes the resolver sends before
  its stream ends), and whether the write back succeeds.
\<close>

datatype dns_event = DnsQuery bytes bool "bytes option" bool | DnsEnd

fun dns_run :: "nat \<Rightarrow> dns_event list \<Rightarrow> bytes list \<times> bytes list \<Rightarrow> bytes list \<times> bytes list" where
  "dns_run cap [] io = io"
| "dns_run cap (DnsEnd # es) io = io"
| "dns_run cap (DnsQuery q dialled stream ok # es) (asked, answered) =
     (if q = [] then (asked, answered)
      else if \<not> dialled then dns_run cap es (asked, answered)
      else (let asked' = asked @ [dns_frame q] in
        case (case stream of None \<Rightarrow> None | Some s \<Rightarrow> dns_read s) of
          None \<Rightarrow> dns_run cap es (asked', answered)
        | Some answer \<Rightarrow>
            if ok then dns_run cap es (asked', answered @ [clip_answer cap answer])
            else (asked', answered)))"

lemma dns_read_prefix: "unat w = length q \<Longrightarrow> dns_read (be16_bytes w @ q @ rest) = Some q"
  by (simp add: dns_read_def be16_bytes_def Let_def)

lemma dns_read_frame: "length q < 65536 \<Longrightarrow> dns_read (dns_frame q @ rest) = Some q"
  using dns_read_prefix [of "of_nat (length q)" q rest]
  by (simp add: dns_frame_def unsigned_of_nat take_bit_nat_eq_self)

lemma length_clip_answer: "length (clip_answer cap a) = min cap (length a)"
  by (simp add: clip_answer_def min_def)

lemma clip_answer_nth:
  "i < length (clip_answer cap a) \<Longrightarrow>
   clip_answer cap a ! i = (if i = 2 \<and> cap < length a then a ! 2 OR 2 else a ! i)"
  by (auto simp: clip_answer_def nth_list_update split: if_splits)

definition frames_of :: "dns_event list \<Rightarrow> bytes set" where
  "frames_of es = {dns_frame q | q s ok. q \<noteq> [] \<and> DnsQuery q True s ok \<in> set es}"

definition answers_of :: "nat \<Rightarrow> dns_event list \<Rightarrow> bytes set" where
  "answers_of cap es =
     {clip_answer cap x | x q s. DnsQuery q True (Some s) True \<in> set es \<and> dns_read s = Some x}"

lemma events_mono:
  "frames_of es \<subseteq> frames_of (e # es)" "answers_of cap es \<subseteq> answers_of cap (e # es)"
  unfolding frames_of_def answers_of_def by auto

lemma events_head:
  "q \<noteq> [] \<Longrightarrow> dns_frame q \<in> frames_of (DnsQuery q True s ok # es)"
  "dns_read t = Some x \<Longrightarrow> clip_answer cap x \<in> answers_of cap (DnsQuery q True (Some t) True # es)"
  unfolding frames_of_def answers_of_def by auto

lemma dns_run_origin:
  assumes "dns_run cap es (asked, answered) = (asked', answered')"
  shows "set asked' \<subseteq> set asked \<union> frames_of es \<and> set answered' \<subseteq> set answered \<union> answers_of cap es"
  using assms
proof (induction es arbitrary: asked answered)
  case (Cons e es)
  note mono = events_mono(1) [of es e] events_mono(2) [of cap es e]
  show ?case
  proof (cases e)
    case (DnsQuery q dialled stream ok)
    show ?thesis
    proof (cases "q \<noteq> [] \<and> dialled")
      case False
      show ?thesis
      proof (cases "q = []")
        case True
        with Cons.prems DnsQuery show ?thesis by auto
      next
        case q: False
        with False Cons.prems DnsQuery have "dns_run cap es (asked, answered) = (asked', answered')" by simp
        from Cons.IH [OF this] mono show ?thesis by blast
      qed
    next
      case True
      then have head: "dns_frame q \<in> frames_of (e # es)" using DnsQuery events_head(1) by simp
      show ?thesis
      proof (cases "case stream of None \<Rightarrow> None | Some s \<Rightarrow> dns_read s")
        case None
        with True Cons.prems DnsQuery
        have "dns_run cap es (asked @ [dns_frame q], answered) = (asked', answered')" by simp
        from Cons.IH [OF this] mono head show ?thesis by auto
      next
        case (Some x)
        then obtain s where s: "stream = Some s" "dns_read s = Some x" by (cases stream) auto
        show ?thesis
        proof (cases ok)
          case ok: True
          with True Some Cons.prems DnsQuery
          have "dns_run cap es (asked @ [dns_frame q], answered @ [clip_answer cap x]) = (asked', answered')" by simp
          moreover have "clip_answer cap x \<in> answers_of cap (e # es)"
            using events_head(2) [OF s(2)] DnsQuery True ok s(1) by simp
          ultimately show ?thesis using Cons.IH mono head by fastforce
        next
          case False
          with True Some Cons.prems DnsQuery head show ?thesis by auto
        qed
      qed
    qed
  qed (use Cons.prems in auto)
qed auto

section \<open>A sequence of flows\<close>

text \<open>Flows one after the other, sharing the set of upstreams without UDP.\<close>

type_synonym udp_flow = "upstream \<times> socket_addr \<times> socket_addr option \<times> nat \<times> attempt"

fun udp_flows :: "string set \<Rightarrow> udp_flow list \<Rightarrow> udp_outcome list" where
  "udp_flows no_udp [] = []"
| "udp_flows no_udp ((up, dst, dns, idle, attempt) # fs) =
     (let (no_udp', outcome) = handle_udp no_udp up dst dns idle attempt
      in outcome # udp_flows no_udp' fs)"

lemma handle_udp_grows: "handle_udp no_udp up dst dns idle attempt = (no_udp', outcome) \<Longrightarrow> no_udp \<subseteq> no_udp'"
  by (auto simp: handle_udp_def relay_entry_def Let_def split: bool.splits option.splits if_splits attempt.splits)

lemma handle_udp_listed:
  "up_addr up \<in> no_udp \<Longrightarrow> handle_udp no_udp up dst dns idle attempt = (no_udp', outcome) \<Longrightarrow> outcome \<noteq> Relayed t"
  by (auto simp: handle_udp_def relay_entry_def Let_def split: bool.splits option.splits if_splits)

lemma udp_flows_listed:
  "a \<in> no_udp \<Longrightarrow> i < length fs \<Longrightarrow> up_addr (fst (fs ! i)) = a \<Longrightarrow> udp_flows no_udp fs ! i \<noteq> Relayed t"
proof (induction fs arbitrary: no_udp i)
  case (Cons f fs)
  obtain up dst dns idle attempt where f: "f = (up, dst, dns, idle, attempt)" by (cases f)
  obtain no_udp' outcome where h: "handle_udp no_udp up dst dns idle attempt = (no_udp', outcome)" by fastforce
  show ?case
  proof (cases i)
    case 0
    with Cons.prems f handle_udp_listed [OF _ h] h show ?thesis by simp
  next
    case (Suc j)
    have "a \<in> no_udp'" using handle_udp_grows [OF h] Cons.prems(1) by blast
    with Cons.IH [of no_udp' j] Cons.prems Suc f h show ?thesis by simp
  qed
qed simp

section \<open>Properties\<close>

text \<open>
  C24: the relay carries datagrams faithfully until the first event that ends it: every datagram sent to
  the proxy names the flow's destination and holds one datagram of the peer, in order; and the peer
  receives, in order, exactly the bodies of well-formed replies that fit the tunnel's MTU.
\<close>

theorem relay_faithful:
  "let live = takeWhile (\<lambda>e. \<not> ends_flow dst (payload_cap mtu) e) es;
       r = relay_run dst (payload_cap mtu) es \<lparr>to_relay = [], to_peer = []\<rparr>
   in map parse_udp (to_relay r) = map (\<lambda>p. Some (dst, p)) (concat (map sent_by_peer live)) \<and>
      to_peer r = concat (map (meant_for_peer (payload_cap mtu)) live) \<and>
      list_all (\<lambda>p. length p \<le> unat mtu - 28) (to_peer r)"
proof -
  have "length p \<le> cap" if "p \<in> set (meant_for_peer cap e)" for p e cap
    using that by (induction cap e rule: meant_for_peer.induct) (auto split: option.splits if_splits)
  then show ?thesis
    by (auto simp: relay_run_spec udp_codec.dec_enc list_all_iff payload_cap_def UDP_OVERHEAD_def)
qed

text \<open>
  C25: DNS over TCP is framed and clipped: each message to the resolver is one query under its length
  prefix, readable back in full; each answer written to the peer is a resolver's answer cut to the MTU,
  and nothing longer.
\<close>

theorem dns_over_tcp_framed:
  assumes "dns_run (payload_cap mtu) es ([], []) = (asked, answered)"
    and "\<forall>q d s ok. DnsQuery q d s ok \<in> set es \<longrightarrow> length q \<le> 1500"
  shows "(\<forall>f \<in> set asked. \<exists>q s ok. DnsQuery q True s ok \<in> set es \<and> q \<noteq> [] \<and> dns_read f = Some q) \<and>
     (\<forall>a \<in> set answered. length a \<le> unat mtu - 28 \<and>
        (\<exists>q s x. DnsQuery q True (Some s) True \<in> set es \<and> dns_read s = Some x \<and> a = clip_answer (payload_cap mtu) x))"
proof -
  have read: "dns_read (dns_frame q) = Some q" if "DnsQuery q True s ok \<in> set es" for q s ok
    using assms(2) that dns_read_frame [of q "[]"] by fastforce
  have "set asked \<subseteq> frames_of es" "set answered \<subseteq> answers_of (payload_cap mtu) es"
    using dns_run_origin [OF assms(1)] by simp_all
  moreover have "length a \<le> unat mtu - 28" if "a \<in> answers_of (payload_cap mtu) es" for a
    using that by (auto simp: answers_of_def length_clip_answer payload_cap_def UDP_OVERHEAD_def)
  moreover have "\<exists>q s ok. DnsQuery q True s ok \<in> set es \<and> q \<noteq> [] \<and> dns_read f = Some q"
    if "f \<in> frames_of es" for f
    using that read by (auto simp: frames_of_def)
  ultimately show ?thesis unfolding answers_of_def by blast
qed

theorem dns_over_tcp_framed_witness:
  "dns_run (payload_cap 1420) [DnsQuery [7, 8] True (Some [0, 3, 1, 2, 3]) True, DnsEnd] ([], [])
     = ([[0, 2, 7, 8]], [[1, 2, 3]]) \<and> dns_read [0, 2, 7, 8] = Some [7, 8]"
proof -
  have run: "dns_run (payload_cap 1420) [DnsQuery [7, 8] True (Some [0, 3, 1, 2, 3]) True, DnsEnd] ([], [])
     = ([[0, 2, 7, 8]], [[1, 2, 3]])"
    by (simp add: dns_read_def dns_frame_def be16_bytes_def be16_of_bytes_def clip_answer_def
        payload_cap_def UDP_OVERHEAD_def)
  from dns_over_tcp_framed [OF run] run show ?thesis by auto
qed

text \<open>
  A clipped answer says so: an answer over the limit is cut to exactly the limit, keeps every byte
  but the flags byte, and in that byte sets the truncation bit and changes no other.
\<close>

theorem clipped_answer_is_flagged:
  assumes "cap < length answer" "3 \<le> cap"
  shows "length (clip_answer cap answer) = cap \<and> bit (clip_answer cap answer ! 2) 1 \<and>
     (\<forall>n. n \<noteq> 1 \<longrightarrow> bit (clip_answer cap answer ! 2) n = bit (answer ! 2) n) \<and>
     (\<forall>i < cap. i \<noteq> 2 \<longrightarrow> clip_answer cap answer ! i = answer ! i)"
proof -
  have "clip_answer cap answer ! 2 = answer ! 2 OR 2"
    using assms by (subst clip_answer_nth) (simp_all add: length_clip_answer)
  moreover have "bit (2 :: u8) n \<longleftrightarrow> n = 1" for n
    by (auto simp: bit_2_iff)
  ultimately show ?thesis
    using assms by (auto simp: length_clip_answer clip_answer_nth bit_or_iff)
qed

theorem clipped_answer_is_flagged_witness:
  "clip_answer 3 [1, 2, 3, 4] = [1, 2, 3] \<and> bit ([1, 2, 3 :: u8] ! 2) 1"
proof -
  have "clip_answer 3 [1, 2, 3, 4] = [1, 2, 3]" by (simp add: clip_answer_def)
  with clipped_answer_is_flagged [of 3 "[1, 2, 3, 4]"] show ?thesis by simp
qed

text \<open>
  One refused association is for good: once an attempt through an upstream ends in an error, no
  later flow through that upstream is relayed, whatever the proxy would answer then.
\<close>

theorem refusal_is_permanent:
  assumes "handle_udp no_udp up dst dns idle AssociateFailed = (no_udp', outcome)"
    and "sa_port dst \<noteq> 53 \<or> dns = None"
    and "i < length flows" "up_addr (fst (flows ! i)) = up_addr up"
  shows "\<not> (\<exists>t. udp_flows no_udp' flows ! i = Relayed t)"
proof -
  have "up_addr up \<in> no_udp'"
    using assms(1,2) by (auto simp: handle_udp_def relay_entry_def Let_def split: bool.splits option.splits if_splits)
  with assms(3,4) udp_flows_listed show ?thesis by blast
qed

theorem refusal_is_permanent_witness:
  "let up = \<lparr>up_addr = ''h:1080'', up_auth = None\<rparr>; dst = sock (V4 7) 443
   in udp_flows {} [(up, dst, None, 60, AssociateFailed), (up, dst, None, 60, Associated)] = [Dropped, Dropped] \<and>
      \<not> (\<exists>t. udp_flows {''h:1080''} [(up, dst, None, 60, Associated)] ! 0 = Relayed t)"
proof -
  let ?up = "\<lparr>up_addr = ''h:1080'', up_auth = None\<rparr>" and ?dst = "sock (V4 7) 443"
  have h: "handle_udp {} ?up ?dst None 60 AssociateFailed = ({''h:1080''}, Dropped)"
    by (simp add: handle_udp_def relay_entry_def)
  from refusal_is_permanent [OF h, of 0 "[(?up, ?dst, None, 60, Associated)]"] show ?thesis
    by (simp add: Let_def handle_udp_def relay_entry_def)
qed

end
