(* ===== verification/Flow_Admission.thy ===== *)
theory Flow_Admission
  imports Config
begin

text \<open>
  \<open>crates/server/src/lib.rs\<close>, the accept loop and \<open>FlowGuard\<close>: how many proxied flows run at once. The
  loop, the flow tasks and their guards' destructors interleave at every atomic operation, so the loop
  is a state machine with a program counter. Tokio's semaphore is an argument.
\<close>

section \<open>The per-peer counters\<close>

definition MAX_FLOWS :: nat where
  "MAX_FLOWS = 4096"

definition MAX_FLOWS_PER_PEER :: nat where
  "MAX_FLOWS_PER_PEER = 512"

text \<open>\<open>fetch_add\<close> and \<open>fetch_sub\<close> on one counter; both return the previous value.\<close>

definition fetch_add :: "nat list \<Rightarrow> nat \<Rightarrow> nat list \<times> nat" where
  "fetch_add counts i = (counts[i := counts ! i + 1], counts ! i)"

definition fetch_sub :: "nat list \<Rightarrow> nat \<Rightarrow> nat list \<times> nat" where
  "fetch_sub counts i = (counts[i := counts ! i - 1], counts ! i)"

text \<open>The sequence the loop runs for a slot, when nothing comes between; and its release by the guard.\<close>

definition take_slot :: "nat \<Rightarrow> nat list \<Rightarrow> nat list option" where
  "take_slot i counts =
     (let (counts', old) = fetch_add counts i
      in if MAX_FLOWS_PER_PEER \<le> old then None else Some counts')"

definition free_slot :: "nat \<Rightarrow> nat list \<Rightarrow> nat list" where
  "free_slot i counts = fst (fetch_sub counts i)"

text \<open>A peer's counter is a semaphore of 512 permits.\<close>

typedef peer_counts = "{(i, counts :: nat list). i < length counts}"
  morphisms rep_counts abs_counts
  by (rule exI [of _ "(0, [0])"]) simp

setup_lifting type_definition_peer_counts

lift_definition pc_take :: "peer_counts \<Rightarrow> peer_counts option" is
  "\<lambda>(i, counts). map_option (Pair i) (take_slot i counts)"
  by (auto simp: take_slot_def fetch_add_def Let_def split: if_splits)

lift_definition pc_free :: "peer_counts \<Rightarrow> peer_counts" is "\<lambda>(i, counts). (i, free_slot i counts)"
  by (auto simp: free_slot_def fetch_sub_def)

lift_definition pc_held :: "peer_counts \<Rightarrow> nat" is "\<lambda>(i, counts). counts ! i" .

interpretation peer_slots: semaphore pc_take pc_free pc_held MAX_FLOWS_PER_PEER
proof
  fix s s' assume "pc_take s = Some s'"
  then show "pc_held s < MAX_FLOWS_PER_PEER \<and> pc_held s' = Suc (pc_held s)"
    by transfer (auto simp: take_slot_def fetch_add_def Let_def split: if_splits)
next
  fix s show "pc_take s = None \<longleftrightarrow> MAX_FLOWS_PER_PEER \<le> pc_held s"
    by transfer (auto simp: take_slot_def fetch_add_def Let_def split: if_splits)
next
  fix s show "pc_held (pc_free s) = pc_held s - 1"
    by transfer (auto simp: free_slot_def fetch_sub_def)
qed

section \<open>The accept loop\<close>

datatype stream_kind = TcpStream | UdpStream | OtherStream

record flow =
  fl_peer :: nat
  fl_src :: ip_addr
  fl_dst :: ip_addr
  fl_kind :: stream_kind

text \<open>
  Where the loop stands: waiting for a stream; holding a permit for it; having counted it, with the
  counter's previous value; or having uncounted a refused one, its permit not yet dropped.
\<close>

datatype accept_pc = Accepting | Permitted flow | Counted flow nat | Refused flow

text \<open>\<open>ending\<close> counts guards whose destructor has run but whose permit field is not yet dropped.\<close>

record 'p flow_state =
  fs_pc :: accept_pc
  fs_permits :: 'p
  fs_counts :: "nat list"
  fs_live :: "flow list"
  fs_ending :: nat

definition initial_flows :: "'p \<Rightarrow> 'net config \<Rightarrow> 'p flow_state" where
  "initial_flows permits cfg =
     \<lparr>fs_pc = Accepting, fs_permits = permits, fs_counts = map (\<lambda>_. 0) (cfg_peers cfg),
      fs_live = [], fs_ending = 0\<rparr>"

text \<open>The loop's operations, one atomic action each.\<close>

definition accept_stream ::
  "'net ipnet_lib \<Rightarrow> 'net config \<Rightarrow> ('net \<times> nat) list \<Rightarrow> ('p \<Rightarrow> 'p option) \<Rightarrow> ip_addr \<Rightarrow> ip_addr
    \<Rightarrow> stream_kind \<Rightarrow> 'p flow_state \<Rightarrow> 'p flow_state" where
  "accept_stream L cfg allowed try_acquire src dst kind s =
     (if \<not> allowed_dst L (cfg_address cfg) dst (cfg_allow_private cfg) then s
      else (case peer_for L allowed src of
          None \<Rightarrow> s
        | Some idx \<Rightarrow>
            (case try_acquire (fs_permits s) of
               None \<Rightarrow> s
             | Some permits \<Rightarrow>
                 s\<lparr>fs_permits := permits,
                   fs_pc := Permitted \<lparr>fl_peer = idx, fl_src = src, fl_dst = dst, fl_kind = kind\<rparr>\<rparr>)))"

fun loop_step :: "('p \<Rightarrow> 'p) \<Rightarrow> 'p flow_state \<Rightarrow> 'p flow_state" where
  "loop_step release s =
     (case fs_pc s of
        Accepting \<Rightarrow> s
      | Permitted f \<Rightarrow>
          (let (counts, old) = fetch_add (fs_counts s) (fl_peer f)
           in s\<lparr>fs_counts := counts, fs_pc := Counted f old\<rparr>)
      | Counted f old \<Rightarrow>
          if MAX_FLOWS_PER_PEER \<le> old then
            s\<lparr>fs_counts := fst (fetch_sub (fs_counts s) (fl_peer f)), fs_pc := Refused f\<rparr>
          else s\<lparr>fs_live := fs_live s @ [f], fs_pc := Accepting\<rparr>
      | Refused f \<Rightarrow> s\<lparr>fs_permits := release (fs_permits s), fs_pc := Accepting\<rparr>)"

text \<open>A flow's guard is dropped: first its destructor frees the slot, then the permit is released.\<close>

definition end_flow :: "nat \<Rightarrow> 'p flow_state \<Rightarrow> 'p flow_state" where
  "end_flow k s =
     s\<lparr>fs_counts := free_slot (fl_peer (fs_live s ! k)) (fs_counts s),
       fs_live := take k (fs_live s) @ drop (Suc k) (fs_live s), fs_ending := fs_ending s + 1\<rparr>"

definition drop_permit :: "('p \<Rightarrow> 'p) \<Rightarrow> 'p flow_state \<Rightarrow> 'p flow_state" where
  "drop_permit release s = s\<lparr>fs_permits := release (fs_permits s), fs_ending := fs_ending s - 1\<rparr>"

inductive flow_step ::
  "'net ipnet_lib \<Rightarrow> 'net config \<Rightarrow> ('net \<times> nat) list \<Rightarrow> ('p \<Rightarrow> 'p option) \<Rightarrow> ('p \<Rightarrow> 'p)
    \<Rightarrow> 'p flow_state \<Rightarrow> 'p flow_state \<Rightarrow> bool"
  for L cfg allowed try_acquire release where
  step_accept: "fs_pc s = Accepting \<Longrightarrow>
    flow_step L cfg allowed try_acquire release s (accept_stream L cfg allowed try_acquire src dst kind s)"
| step_loop: "fs_pc s \<noteq> Accepting \<Longrightarrow> flow_step L cfg allowed try_acquire release s (loop_step release s)"
| step_end: "k < length (fs_live s) \<Longrightarrow> flow_step L cfg allowed try_acquire release s (end_flow k s)"
| step_drop: "0 < fs_ending s \<Longrightarrow> flow_step L cfg allowed try_acquire release s (drop_permit release s)"

section \<open>The invariant\<close>

definition peer_live :: "nat \<Rightarrow> flow list \<Rightarrow> nat" where
  "peer_live i fs = length (filter (\<lambda>f. fl_peer f = i) fs)"

fun pc_counted :: "nat \<Rightarrow> accept_pc \<Rightarrow> nat" where
  "pc_counted i (Counted f old) = (if fl_peer f = i then 1 else 0)"
| "pc_counted i _ = 0"

fun pc_permits :: "accept_pc \<Rightarrow> nat" where
  "pc_permits Accepting = 0"
| "pc_permits _ = 1"

fun pc_flow :: "accept_pc \<Rightarrow> flow list" where
  "pc_flow Accepting = []"
| "pc_flow (Permitted f) = [f]"
| "pc_flow (Counted f old) = [f]"
| "pc_flow (Refused f) = [f]"

definition flow_ok :: "'net ipnet_lib \<Rightarrow> 'net config \<Rightarrow> ('net \<times> nat) list \<Rightarrow> flow \<Rightarrow> bool" where
  "flow_ok L cfg allowed f \<longleftrightarrow>
     peer_for L allowed (fl_src f) = Some (fl_peer f) \<and>
     allowed_dst L (cfg_address cfg) (fl_dst f) (cfg_allow_private cfg)"

definition flow_inv ::
  "'net ipnet_lib \<Rightarrow> 'net config \<Rightarrow> ('net \<times> nat) list \<Rightarrow> ('p \<Rightarrow> nat) \<Rightarrow> 'p flow_state \<Rightarrow> bool" where
  "flow_inv L cfg allowed held s \<longleftrightarrow>
     length (fs_counts s) = length (cfg_peers cfg) \<and>
     (\<forall>i < length (fs_counts s). fs_counts s ! i = peer_live i (fs_live s) + pc_counted i (fs_pc s)
        \<and> peer_live i (fs_live s) \<le> MAX_FLOWS_PER_PEER) \<and>
     (case fs_pc s of Counted f old \<Rightarrow> peer_live (fl_peer f) (fs_live s) \<le> old | _ \<Rightarrow> True) \<and>
     held (fs_permits s) = length (fs_live s) + fs_ending s + pc_permits (fs_pc s) \<and>
     held (fs_permits s) \<le> MAX_FLOWS \<and>
     (\<forall>f \<in> set (fs_live s @ pc_flow (fs_pc s)). flow_ok L cfg allowed f \<and> fl_peer f < length (fs_counts s))"

lemma peer_live_simps [simp]:
  "peer_live i [] = 0"
  "peer_live i (f # fs) = (if fl_peer f = i then 1 else 0) + peer_live i fs"
  "peer_live i (fs @ gs) = peer_live i fs + peer_live i gs"
  by (simp_all add: peer_live_def)

lemma split_at: "k < length xs \<Longrightarrow> xs = take k xs @ xs ! k # drop (Suc k) xs"
  by (simp add: id_take_nth_drop)

lemma peer_live_remove:
  assumes "k < length fs"
  shows "peer_live i fs = peer_live i (take k fs @ drop (Suc k) fs) + (if fl_peer (fs ! k) = i then 1 else 0)"
  by (subst split_at [OF assms]) simp

lemma flow_inv_accept:
  assumes "semaphore acq rel held MAX_FLOWS" "\<forall>(n, i) \<in> set allowed. i < length (cfg_peers cfg)"
    and "flow_inv L cfg allowed held s" "fs_pc s = Accepting"
  shows "flow_inv L cfg allowed held (accept_stream L cfg allowed acq src dst kind s)"
proof (cases "allowed_dst L (cfg_address cfg) dst (cfg_allow_private cfg)")
  case True
  show ?thesis
  proof (cases "peer_for L allowed src")
    case (Some idx)
    then have idx: "idx < length (cfg_peers cfg)" using assms(2) by (auto elim!: peer_for_SomeD)
    show ?thesis
    proof (cases "acq (fs_permits s)")
      case (Some permits)
      then have "held (fs_permits s) < MAX_FLOWS \<and> held permits = Suc (held (fs_permits s))"
        by (rule semaphore.acquire_Some [OF assms(1)])
      with assms(3,4) True \<open>peer_for L allowed src = Some idx\<close> Some idx show ?thesis
        by (auto simp: flow_inv_def accept_stream_def flow_ok_def)
    qed (use assms(3) True Some in \<open>simp add: accept_stream_def\<close>)
  qed (use assms(3) True in \<open>simp add: accept_stream_def\<close>)
qed (use assms(3) in \<open>simp add: accept_stream_def\<close>)

lemma flow_inv_loop:
  assumes "semaphore acq rel held MAX_FLOWS" "flow_inv L cfg allowed held s"
  shows "flow_inv L cfg allowed held (loop_step rel s)"
proof (cases "fs_pc s")
  case Accepting
  with assms(2) show ?thesis by simp
next
  case (Permitted f)
  with assms(2) show ?thesis
    by (auto simp: flow_inv_def fetch_add_def nth_list_update)
next
  case (Counted f old)
  show ?thesis
  proof (cases "MAX_FLOWS_PER_PEER \<le> old")
    case True
    with Counted assms(2) show ?thesis
      by (auto simp: flow_inv_def fetch_sub_def nth_list_update)
  next
    case False
    with Counted assms(2) show ?thesis by (auto simp: flow_inv_def)
  qed
next
  case (Refused f)
  with assms(2) semaphore.held_release [OF assms(1), of "fs_permits s"] show ?thesis
    by (auto simp: flow_inv_def)
qed

lemma flow_invI:
  assumes "length (fs_counts s) = length (cfg_peers cfg)"
    and "\<And>i. i < length (fs_counts s) \<Longrightarrow> fs_counts s ! i = peer_live i (fs_live s) + pc_counted i (fs_pc s)"
    and "\<And>i. i < length (fs_counts s) \<Longrightarrow> peer_live i (fs_live s) \<le> MAX_FLOWS_PER_PEER"
    and "\<And>f old. fs_pc s = Counted f old \<Longrightarrow> peer_live (fl_peer f) (fs_live s) \<le> old"
    and "held (fs_permits s) = length (fs_live s) + fs_ending s + pc_permits (fs_pc s)"
    and "held (fs_permits s) \<le> MAX_FLOWS"
    and "\<forall>f \<in> set (fs_live s @ pc_flow (fs_pc s)). flow_ok L cfg allowed f \<and> fl_peer f < length (fs_counts s)"
  shows "flow_inv L cfg allowed held s"
  using assms unfolding flow_inv_def by (simp split: accept_pc.split)

lemma flow_inv_end:
  assumes "flow_inv L cfg allowed held s" "k < length (fs_live s)"
  shows "flow_inv L cfg allowed held (end_flow k s)"
proof -
  let ?f = "fs_live s ! k" and ?rest = "take k (fs_live s) @ drop (Suc k) (fs_live s)"
  note live = peer_live_remove [OF assms(2)]
  have f: "?f \<in> set (fs_live s)" using assms(2) by (rule nth_mem)
  have rest: "set ?rest \<subseteq> set (fs_live s)"
    by (auto dest: in_set_takeD in_set_dropD)
  have len: "length (fs_live s) = Suc (length ?rest)" using assms(2) by simp
  have le: "peer_live i ?rest \<le> peer_live i (fs_live s)" for i
    using live [of i] by simp
  have "fs_counts (end_flow k s) ! i = peer_live i ?rest + pc_counted i (fs_pc s)"
    if "i < length (fs_counts s)" for i
    using assms(1) that live [of i] f
    by (cases "fl_peer ?f = i") (auto simp: flow_inv_def end_flow_def free_slot_def fetch_sub_def)
  moreover have "peer_live (fl_peer f) ?rest \<le> old" if "fs_pc s = Counted f old" for f old
    using assms(1) that by (intro order_trans [OF le]) (simp add: flow_inv_def)
  moreover have "peer_live i ?rest \<le> MAX_FLOWS_PER_PEER" if "i < length (fs_counts s)" for i
    using assms(1) that by (intro order_trans [OF le]) (simp add: flow_inv_def)
  moreover have "\<forall>f \<in> set (?rest @ pc_flow (fs_pc s)). flow_ok L cfg allowed f \<and> fl_peer f < length (fs_counts s)"
    using assms(1) rest by (auto simp: flow_inv_def)
  moreover have "held (fs_permits s) = length ?rest + Suc (fs_ending s) + pc_permits (fs_pc s)"
    using assms(1) unfolding flow_inv_def by (simp only: len add_Suc add_Suc_right)
  moreover have "fs_live (end_flow k s) = ?rest" "length (fs_counts (end_flow k s)) = length (fs_counts s)"
      "fs_pc (end_flow k s) = fs_pc s" "fs_permits (end_flow k s) = fs_permits s"
      "fs_ending (end_flow k s) = Suc (fs_ending s)"
    by (simp_all add: end_flow_def free_slot_def fetch_sub_def)
  moreover have "held (fs_permits s) \<le> MAX_FLOWS" "length (fs_counts s) = length (cfg_peers cfg)"
    using assms(1) by (simp_all add: flow_inv_def)
  ultimately show ?thesis
    by (intro flow_invI) (simp_all del: peer_live_simps split: accept_pc.split)
qed

lemma flow_inv_drop:
  assumes "semaphore acq rel held MAX_FLOWS" "flow_inv L cfg allowed held s" "0 < fs_ending s"
  shows "flow_inv L cfg allowed held (drop_permit rel s)"
  using assms(2,3) semaphore.held_release [OF assms(1), of "fs_permits s"]
  by (auto simp: flow_inv_def drop_permit_def split: accept_pc.split)

lemma routing_table_bound: "\<forall>(n, i) \<in> set (routing_table (cfg_peers cfg)). i < length (cfg_peers cfg)"
  by (auto simp: routing_table_mem)

lemma flow_step_inv:
  assumes "semaphore acq rel held MAX_FLOWS" "flow_inv L cfg (routing_table (cfg_peers cfg)) held s"
    and "flow_step L cfg (routing_table (cfg_peers cfg)) acq rel s s'"
  shows "flow_inv L cfg (routing_table (cfg_peers cfg)) held s'"
  using assms(3)
  by (cases rule: flow_step.cases)
    (auto intro: flow_inv_accept [OF assms(1) routing_table_bound assms(2)]
      flow_inv_loop [OF assms(1,2)] flow_inv_end [OF assms(2)] flow_inv_drop [OF assms(1,2)]
      simp del: loop_step.simps)

lemma initial_flow_inv: "held permits = 0 \<Longrightarrow> flow_inv L cfg allowed held (initial_flows permits cfg)"
  by (simp add: flow_inv_def initial_flows_def)

interpretation flow_system: transition_system
    "\<lambda>s. \<exists>permits. held permits = 0 \<and> s = initial_flows permits cfg"
    "flow_step L cfg (routing_table (cfg_peers cfg)) acq rel"
    "\<lambda>s. semaphore acq rel held MAX_FLOWS \<longrightarrow> flow_inv L cfg (routing_table (cfg_peers cfg)) held s"
  for L cfg acq rel held
  by unfold_locales (auto intro: initial_flow_inv flow_step_inv)

section \<open>A run, for closed examples\<close>

abbreviation ex_flow_step :: "nat flow_state \<Rightarrow> nat flow_state \<Rightarrow> bool" where
  "ex_flow_step \<equiv> flow_step cidr_lib ex_config (routing_table (cfg_peers ex_config))
     (counter_acquire MAX_FLOWS) counter_release"

definition ex_flow :: flow where
  "ex_flow = \<lparr>fl_peer = 0, fl_src = V4 (v4_addr 10 7 0 2), fl_dst = V4 (v4_addr 93 184 216 34), fl_kind = TcpStream\<rparr>"

definition ex_run :: "nat flow_state list" where
  "ex_run =
    [\<lparr>fs_pc = Accepting, fs_permits = 0, fs_counts = [0, 0], fs_live = [], fs_ending = 0\<rparr>,
     \<lparr>fs_pc = Permitted ex_flow, fs_permits = 1, fs_counts = [0, 0], fs_live = [], fs_ending = 0\<rparr>,
     \<lparr>fs_pc = Counted ex_flow 0, fs_permits = 1, fs_counts = [1, 0], fs_live = [], fs_ending = 0\<rparr>,
     \<lparr>fs_pc = Accepting, fs_permits = 1, fs_counts = [1, 0], fs_live = [ex_flow], fs_ending = 0\<rparr>]"

lemma ex_run_live: "ex_flow_step\<^sup>*\<^sup>* (initial_flows 0 ex_config) (ex_run ! 3)"
proof -
  have "initial_flows 0 ex_config = ex_run ! 0"
    by (simp add: initial_flows_def ex_run_def ex_config_def)
  moreover have "ex_flow_step (ex_run ! 0) (ex_run ! 1)"
  proof -
    have "ex_run ! 1 = accept_stream cidr_lib ex_config (routing_table (cfg_peers ex_config))
        (counter_acquire MAX_FLOWS) (V4 (v4_addr 10 7 0 2)) (V4 (v4_addr 93 184 216 34)) TcpStream (ex_run ! 0)"
      using ex_routes by (simp add: accept_stream_def ex_run_def ex_flow_def counter_acquire_def
          MAX_FLOWS_def ex_config_allow)
    then show ?thesis by (simp add: step_accept ex_run_def)
  qed
  moreover have "ex_flow_step (ex_run ! 1) (ex_run ! 2)" "ex_flow_step (ex_run ! 2) (ex_run ! 3)"
    using step_loop [of "ex_run ! 1" cidr_lib ex_config "routing_table (cfg_peers ex_config)" "counter_acquire MAX_FLOWS" counter_release]
      step_loop [of "ex_run ! 2" cidr_lib ex_config "routing_table (cfg_peers ex_config)" "counter_acquire MAX_FLOWS" counter_release]
    by (simp_all add: ex_run_def fetch_add_def ex_flow_def MAX_FLOWS_PER_PEER_def)
  ultimately show ?thesis by (metis (no_types, lifting) rtranclp.simps)
qed

section \<open>Properties\<close>

text \<open>
  C20: under every interleaving of the accept loop with the flows' ends, at most 4096 flows run, at most
  512 of them for one peer, and every one was admitted: its source is routed to the peer it is counted
  for and its destination passes the gate.
\<close>

theorem flows_bounded:
  assumes "semaphore acq rel held MAX_FLOWS" "held permits = 0"
    and "(flow_step L cfg (routing_table (cfg_peers cfg)) acq rel)\<^sup>*\<^sup>* (initial_flows permits cfg) s"
  shows "length (fs_live s) \<le> 4096 \<and>
     (\<forall>i. length (filter (\<lambda>f. fl_peer f = i) (fs_live s)) \<le> 512) \<and>
     (\<forall>f \<in> set (fs_live s). peer_for L (routing_table (cfg_peers cfg)) (fl_src f) = Some (fl_peer f) \<and>
        allowed_dst L (cfg_address cfg) (fl_dst f) (cfg_allow_private cfg))"
proof -
  have inv: "flow_inv L cfg (routing_table (cfg_peers cfg)) held s"
    using flow_system.inv_reachable [where held = held, OF _ assms(3)] assms(1,2) by blast
  have "peer_live i (fs_live s) \<le> 512" for i
  proof (cases "i < length (fs_counts s)")
    case True
    with inv show ?thesis by (auto simp: flow_inv_def MAX_FLOWS_PER_PEER_def)
  next
    case False
    then have "filter (\<lambda>f. fl_peer f = i) (fs_live s) = []"
      using inv by (auto simp: flow_inv_def filter_empty_conv)
    then show ?thesis by (simp add: peer_live_def)
  qed
  with inv show ?thesis
    by (auto simp: flow_inv_def flow_ok_def MAX_FLOWS_def peer_live_def)
qed

theorem flows_bounded_witness:
  "\<exists>s. ex_flow_step\<^sup>*\<^sup>* (initial_flows 0 ex_config) s \<and> fs_live s = [ex_flow] \<and>
     peer_for cidr_lib (routing_table (cfg_peers ex_config)) (fl_src ex_flow) = Some (fl_peer ex_flow)"
proof -
  have "fs_live (ex_run ! 3) = [ex_flow]" by (simp add: ex_run_def)
  with flows_bounded [OF counter.semaphore_axioms _ ex_run_live] ex_run_live show ?thesis
    by (metis (no_types, lifting) id_apply list.set_intros(1))
qed

text \<open>
  C21: nothing leaks: when the loop is back at accept and no flow runs or is ending, every counter is zero
  and every permit is free, whatever happened before; and no counter is ever decremented below zero.
\<close>

theorem slots_do_not_leak:
  assumes "semaphore acq rel held MAX_FLOWS" "held permits = 0"
    and "(flow_step L cfg (routing_table (cfg_peers cfg)) acq rel)\<^sup>*\<^sup>* (initial_flows permits cfg) s"
  shows "(fs_pc s = Accepting \<longrightarrow> fs_live s = [] \<longrightarrow> fs_ending s = 0 \<longrightarrow>
       held (fs_permits s) = 0 \<and> fs_counts s = map (\<lambda>_. 0) (cfg_peers cfg)) \<and>
     (\<forall>f \<in> set (fs_live s). 0 < fs_counts s ! fl_peer f)"
proof -
  have inv: "flow_inv L cfg (routing_table (cfg_peers cfg)) held s"
    using flow_system.inv_reachable [where held = held, OF _ assms(3)] assms(1,2) by blast
  have "0 < peer_live (fl_peer f) (fs_live s)" if "f \<in> set (fs_live s)" for f
    using that by (auto simp: peer_live_def filter_empty_conv)
  with inv show ?thesis
    by (auto simp: flow_inv_def intro!: nth_equalityI)
qed

theorem slots_do_not_leak_witness:
  "fs_counts (initial_flows 0 ex_config) = [0, 0] \<and> 0 < fs_counts (ex_run ! 3) ! fl_peer ex_flow"
proof -
  have "fs_live (ex_run ! 3) = [ex_flow]" by (simp add: ex_run_def)
  with slots_do_not_leak [OF counter.semaphore_axioms _ ex_run_live]
    slots_do_not_leak [OF counter.semaphore_axioms _ rtranclp.rtrancl_refl]
  show ?thesis by (simp add: initial_flows_def ex_config_def)
qed

end
