(* ===== verification/Net_Packets.thy ===== *)
theory Net_Packets
  imports Net_Isolation
begin

text \<open>
  \<open>crates/server/src/net.rs\<close>, second half: the RST the server bounces at a forbidden TCP packet
  (\<open>tcp_rst\<close>), and the packet device \<open>PacketDev\<close> between the tunnel and the TCP/IP stack.
\<close>

section \<open>The etherparse interface\<close>

text \<open>
  \<open>etherparse\<close> is third-party: parsing, the header constructor and the packet builder are the fields of
  a record the definitions take as an argument. The header's public fields are data.
\<close>

record tcp_header =
  source_port :: u16
  destination_port :: u16
  sequence_number :: u32
  acknowledgment_number :: u32
  th_syn :: bool
  th_ack :: bool
  th_rst :: bool
  th_fin :: bool
  th_psh :: bool
  th_urg :: bool
  th_ece :: bool
  th_cwr :: bool
  window_size :: u16

datatype net_headers = NetIpv4 (nh_source: u32) (nh_destination: u32) | NetIpv6 | NetArp

datatype transport_headers = TransportTcp tcp_header | TransportUdp | TransportIcmp

record etherparse_lib =
  ep_from_ip_slice :: "bytes \<Rightarrow> (net_headers option \<times> transport_headers option) option"
  ep_tcp_header_new :: "u16 \<Rightarrow> u16 \<Rightarrow> u32 \<Rightarrow> u16 \<Rightarrow> tcp_header"
  ep_write_v4_tcp :: "u32 \<Rightarrow> u32 \<Rightarrow> u8 \<Rightarrow> tcp_header \<Rightarrow> bytes \<Rightarrow> bytes option"

definition plain_header :: "u16 \<Rightarrow> u16 \<Rightarrow> u32 \<Rightarrow> u16 \<Rightarrow> tcp_header" where
  "plain_header sp dp sn w =
     \<lparr>source_port = sp, destination_port = dp, sequence_number = sn, acknowledgment_number = 0,
      th_syn = False, th_ack = False, th_rst = False, th_fin = False, th_psh = False, th_urg = False,
      th_ece = False, th_cwr = False, window_size = w\<rparr>"

text \<open>What its documentation promises: the constructor's defaults, and that a written packet parses back.\<close>

definition etherparse_documented :: "etherparse_lib \<Rightarrow> bool" where
  "etherparse_documented E \<longleftrightarrow>
     (\<forall>sp dp sn w. ep_tcp_header_new E sp dp sn w = plain_header sp dp sn w) \<and>
     (\<forall>s d ttl h p out. ep_write_v4_tcp E s d ttl h p = Some out \<longrightarrow>
        ep_from_ip_slice E out = Some (Some (NetIpv4 s d), Some (TransportTcp h)))"

section \<open>The bounced RST\<close>

definition tcp_rst :: "etherparse_lib \<Rightarrow> bytes \<Rightarrow> bytes option" where
  "tcp_rst E packet =
     (case ep_from_ip_slice E packet of
        Some (Some (NetIpv4 src dst), Some (TransportTcp tcp)) \<Rightarrow>
          if th_rst tcp then None
          else
            (let h = (ep_tcp_header_new E (destination_port tcp) (source_port tcp) 0 0)
                       \<lparr>th_rst := True, th_ack := True,
                        acknowledgment_number := sequence_number tcp + 1\<rparr>
             in ep_write_v4_tcp E dst src 64 h [])
      | _ \<Rightarrow> None)"

lemma tcp_rst_SomeE:
  assumes "tcp_rst E packet = Some r"
  obtains src dst tcp h where
    "ep_from_ip_slice E packet = Some (Some (NetIpv4 src dst), Some (TransportTcp tcp))"
    "\<not> th_rst tcp"
    "h = (ep_tcp_header_new E (destination_port tcp) (source_port tcp) 0 0)
           \<lparr>th_rst := True, th_ack := True, acknowledgment_number := sequence_number tcp + 1\<rparr>"
    "ep_write_v4_tcp E dst src 64 h [] = Some r"
  using assms
  by (auto simp: tcp_rst_def Let_def
      split: option.splits net_headers.splits transport_headers.splits if_splits)

section \<open>The packet device\<close>

text \<open>
  One read yields one whole packet: packets longer than the reader's buffer are skipped, and an empty
  or closed channel leaves the reader pending. One write offers one packet to the tunnel queue and
  always reports success; \<open>try_send\<close> is the channel's, an argument.
\<close>

datatype 'a poll = Pending | Ready 'a

fun poll_read :: "nat \<Rightarrow> bytes list \<Rightarrow> bytes list \<times> bytes poll" where
  "poll_read remaining [] = ([], Pending)"
| "poll_read remaining (p # rx) =
     (if length p \<le> remaining then (rx, Ready p) else poll_read remaining rx)"

definition poll_write :: "(bytes \<Rightarrow> 'q \<Rightarrow> 'q option) \<Rightarrow> bytes \<Rightarrow> 'q \<Rightarrow> 'q \<times> nat poll" where
  "poll_write try_send buf tx =
     (send_or_drop try_send buf tx, Ready (length buf))"

lemma poll_read_skips:
  "poll_read n rx =
     (case dropWhile (\<lambda>p. n < length p) rx of [] \<Rightarrow> ([], Pending) | p # ps \<Rightarrow> (ps, Ready p))"
  by (induction rx) auto

text \<open>Reading until pending delivers exactly the packets that fit, in order.\<close>

function drain :: "nat \<Rightarrow> bytes list \<Rightarrow> bytes list" where
  "drain n rx = (case poll_read n rx of (rx', Ready p) \<Rightarrow> p # drain n rx' | (_, Pending) \<Rightarrow> [])"
  by pat_completeness auto

lemma poll_read_Ready:
  "poll_read n rx = (rx', Ready p) \<Longrightarrow> length rx' < length rx \<and> length p \<le> n"
  by (induction rx) (auto split: if_splits)

termination drain
  by (relation "measure (\<lambda>(n, rx). length rx)") (auto dest!: poll_read_Ready [OF sym])

declare drain.simps [simp del]

lemma drain_Nil [simp]: "drain n [] = []"
  by (subst drain.simps) simp

lemma drain_Cons [simp]:
  "drain n (p # rx) = (if length p \<le> n then p # drain n rx else drain n rx)"
  by (subst drain.simps, cases "length p \<le> n") (simp, subst (2) drain.simps, simp)

section \<open>A concrete etherparse, for closed examples\<close>

definition flag_byte :: "bool \<Rightarrow> u8" where
  "flag_byte b = (if b then 1 else 0)"

definition ex_write :: "u32 \<Rightarrow> u32 \<Rightarrow> u8 \<Rightarrow> tcp_header \<Rightarrow> bytes \<Rightarrow> bytes option" where
  "ex_write s d ttl h p = Some (
     be_bytes 4 s @ be_bytes 4 d @ be_bytes 2 (source_port h) @ be_bytes 2 (destination_port h)
     @ be_bytes 4 (sequence_number h) @ be_bytes 4 (acknowledgment_number h) @ be_bytes 2 (window_size h)
     @ map (\<lambda>f. flag_byte (f h)) [th_syn, th_ack, th_rst, th_fin, th_psh, th_urg, th_ece, th_cwr])"

definition ex_parse :: "bytes \<Rightarrow> (net_headers option \<times> transport_headers option) option" where
  "ex_parse b = (if length b < 30 then None else Some
     (Some (NetIpv4 (be_word (take 4 b)) (be_word (take 4 (drop 4 b)))),
      Some (TransportTcp
        \<lparr>source_port = be_word (take 2 (drop 8 b)), destination_port = be_word (take 2 (drop 10 b)),
         sequence_number = be_word (take 4 (drop 12 b)),
         acknowledgment_number = be_word (take 4 (drop 16 b)),
         th_syn = b ! 22 = 1, th_ack = b ! 23 = 1, th_rst = b ! 24 = 1, th_fin = b ! 25 = 1,
         th_psh = b ! 26 = 1, th_urg = b ! 27 = 1, th_ece = b ! 28 = 1, th_cwr = b ! 29 = 1,
         window_size = be_word (take 2 (drop 20 b))\<rparr>)))"

definition ex_etherparse :: etherparse_lib where
  "ex_etherparse =
     \<lparr>ep_from_ip_slice = ex_parse, ep_tcp_header_new = plain_header, ep_write_v4_tcp = ex_write\<rparr>"

lemma ex_etherparse_documented: "etherparse_documented ex_etherparse"
  by (auto simp: etherparse_documented_def ex_etherparse_def ex_parse_def ex_write_def
      be_word_be_bytes flag_byte_def nth_append)

lemmas ex_etherparse_simps = ex_etherparse_def etherparse_lib.simps

lemma ex_parses:
  "ex_parse (the (ex_write s d ttl h p)) = Some (Some (NetIpv4 s d), Some (TransportTcp h))"
proof -
  have "ep_write_v4_tcp ex_etherparse s d ttl h p = Some (the (ex_write s d ttl h p))"
    by (simp add: ex_etherparse_simps ex_write_def)
  then show ?thesis
    using ex_etherparse_documented by (auto simp: etherparse_documented_def ex_etherparse_simps)
qed

section \<open>Properties\<close>

text \<open>
  C15: a bounced RST mirrors the packet it answers: addresses and ports swapped, RST and ACK set, SYN
  clear, acknowledgment number one past the packet's sequence number modulo 2^32; and an RST is never
  answered with an RST.
\<close>

theorem tcp_rst_mirrors:
  assumes "etherparse_documented E" "tcp_rst E packet = Some r"
  shows "\<exists>src dst tcp h.
      ep_from_ip_slice E packet = Some (Some (NetIpv4 src dst), Some (TransportTcp tcp)) \<and>
      \<not> th_rst tcp \<and>
      ep_from_ip_slice E r = Some (Some (NetIpv4 dst src), Some (TransportTcp h)) \<and>
      source_port h = destination_port tcp \<and> destination_port h = source_port tcp \<and>
      th_rst h \<and> th_ack h \<and> \<not> th_syn h \<and>
      unat (acknowledgment_number h) = (unat (sequence_number tcp) + 1) mod 2 ^ 32 \<and>
      tcp_rst E r = None"
proof -
  obtain src dst tcp h where *:
    "ep_from_ip_slice E packet = Some (Some (NetIpv4 src dst), Some (TransportTcp tcp))"
    "\<not> th_rst tcp" "ep_write_v4_tcp E dst src 64 h [] = Some r"
    "h = (plain_header (destination_port tcp) (source_port tcp) 0 0)
           \<lparr>th_rst := True, th_ack := True, acknowledgment_number := sequence_number tcp + 1\<rparr>"
    using assms by (auto simp: etherparse_documented_def elim: tcp_rst_SomeE)
  moreover have r: "ep_from_ip_slice E r = Some (Some (NetIpv4 dst src), Some (TransportTcp h))"
    using assms(1) *(3) by (auto simp: etherparse_documented_def)
  moreover have "th_rst h" using *(4) by (simp add: plain_header_def)
  ultimately show ?thesis
    by (auto simp: tcp_rst_def plain_header_def unat_word_ariths)
qed

theorem tcp_rst_mirrors_witness:
  "\<exists>r h. tcp_rst ex_etherparse (the (ex_write (v4_addr 10 7 0 2) (v4_addr 10 7 0 3) 64
        ((plain_header 40000 80 0xFFFFFFFF 65535)\<lparr>th_syn := True\<rparr>) [])) = Some r \<and>
     ex_parse r = Some (Some (NetIpv4 (v4_addr 10 7 0 3) (v4_addr 10 7 0 2)), Some (TransportTcp h)) \<and>
     acknowledgment_number h = 0 \<and> tcp_rst ex_etherparse r = None"
proof -
  let ?h = "(plain_header 40000 80 0xFFFFFFFF 65535)\<lparr>th_syn := True\<rparr>"
  let ?p = "the (ex_write (v4_addr 10 7 0 2) (v4_addr 10 7 0 3) 64 ?h [])"
  note parse = ex_parses [of "v4_addr 10 7 0 2" "v4_addr 10 7 0 3" 64 ?h "[]"]
  have "th_rst ?h = False" "sequence_number ?h + 1 = 0"
    by (simp_all add: plain_header_def word_eq_iff_unsigned [where 'a = nat])
  with parse obtain r where r: "tcp_rst ex_etherparse ?p = Some r"
    by (auto simp: tcp_rst_def ex_etherparse_simps ex_write_def)
  from tcp_rst_mirrors [OF ex_etherparse_documented r] \<open>sequence_number ?h + 1 = 0\<close> r
  show ?thesis
    unfolding ex_etherparse_simps parse
    by (auto simp: word_eq_iff_unsigned [where 'a = nat] plain_header_def)
qed

text \<open>
  The device preserves packet boundaries: reading it until it is pending yields, in order and
  unchanged, exactly the queued packets no longer than the read buffer.
\<close>

theorem drain_packets: "drain n rx = filter (\<lambda>p. length p \<le> n) rx"
  by (induction rx) simp_all

end
