(* ===== verification/Wgcore.thy ===== *)
theory Wgcore
  imports Wgcore_Keys
begin

text \<open>
  \<open>crates/wgcore/src/lib.rs\<close>, the multi-peer endpoint \<open>Wg\<close>: a pure state machine over boringtun
  sessions, shared by the server and the Windows client.
\<close>

section \<open>The boringtun interface\<close>

text \<open>
  Tunnels \<open>'t\<close>, the shared rate limiter \<open>'l\<close> and the parsed body of a handshake initiation \<open>'i\<close> are
  boringtun's own; every call returns the tunnel (and limiter) it leaves behind.
\<close>

datatype tunn_result =
    TDone
  | TErr
  | TWriteToNetwork bytes
  | TWriteToTunnelV4 bytes u32
  | TWriteToTunnelV6 bytes u128

datatype 'i wg_packet =
    HandshakeInit 'i
  | HandshakeResponse u32
  | PacketCookieReply u32
  | PacketData u32

record ('t, 'l, 'i) boringtun_lib =
  bt_public :: "bytes \<Rightarrow> bytes"
  bt_new_limiter :: "bytes \<Rightarrow> nat \<Rightarrow> 'l"
  bt_new_tunn :: "bytes \<Rightarrow> bytes \<Rightarrow> bytes option \<Rightarrow> u16 option \<Rightarrow> u32 \<Rightarrow> 't"
  bt_verify :: "ip_addr \<Rightarrow> bytes \<Rightarrow> 'l \<Rightarrow> 'l \<times> (tunn_result + 'i wg_packet)"
  bt_parse_anon :: "bytes \<Rightarrow> bytes \<Rightarrow> 'i \<Rightarrow> bytes option"
  bt_decapsulate :: "ip_addr \<Rightarrow> bytes \<Rightarrow> 't \<Rightarrow> 'l \<Rightarrow> 't \<times> 'l \<times> tunn_result"
  bt_encapsulate :: "bytes \<Rightarrow> 't \<Rightarrow> 't \<times> tunn_result"
  bt_update_timers :: "'t \<Rightarrow> 't \<times> tunn_result"
  bt_since_handshake :: "'t \<Rightarrow> nat option"
  bt_reset_count :: "'l \<Rightarrow> 'l"
  bt_dst_address :: "bytes \<Rightarrow> ip_addr option"

text \<open>
  The documented protocol of \<open>decapsulate\<close>: after a datagram for the network the caller repeats the call
  with no input until it is done. \<open>queued\<close> bounds what a tunnel still has to flush.
\<close>

definition flushes :: "('t, 'l, 'i) boringtun_lib \<Rightarrow> ('t \<Rightarrow> nat) \<Rightarrow> bool" where
  "flushes B queued \<longleftrightarrow>
     (\<forall>ip t l t' l' b. bt_decapsulate B ip [] t l = (t', l', TWriteToNetwork b) \<longrightarrow> queued t' < queued t)"

definition dst_address :: "('t, 'l, 'i) boringtun_lib \<Rightarrow> bytes \<Rightarrow> ip_addr option" where
  "dst_address B packet = bt_dst_address B packet"

section \<open>State\<close>

definition MAX_PACKET :: nat where
  "MAX_PACKET = 65535"

definition HANDSHAKE_RATE_LIMIT :: nat where
  "HANDSHAKE_RATE_LIMIT = 100"

record 't wg_peer =
  peer_public_key :: bytes
  peer_endpoint :: "socket_addr option"
  peer_tunn :: 't

record ('t, 'l) wg =
  wg_private :: bytes
  wg_public :: bytes
  wg_peers :: "'t wg_peer list"
  wg_by_key :: "bytes \<Rightarrow> nat option"
  wg_limiter :: 'l
  wg_last_reset :: nat

text \<open>The clock, in milliseconds, is an argument of the operations that read it.\<close>

definition wg_new :: "('t, 'l, 'i) boringtun_lib \<Rightarrow> nat \<Rightarrow> bytes \<Rightarrow> ('t, 'l) wg" where
  "wg_new B now private_key =
     (let public = bt_public B private_key;
          limiter = bt_new_limiter B public HANDSHAKE_RATE_LIMIT
      in \<lparr>wg_private = private_key, wg_public = public, wg_peers = [], wg_by_key = Map.empty,
          wg_limiter = limiter, wg_last_reset = now\<rparr>)"

datatype wg_error = DuplicatePeerKey

definition add_peer ::
  "('t, 'l, 'i) boringtun_lib \<Rightarrow> ('t, 'l) wg \<Rightarrow> bytes \<Rightarrow> bytes option \<Rightarrow> u16 option
    \<Rightarrow> wg_error + (('t, 'l) wg \<times> nat)" where
  "add_peer B wg key psk keepalive =
     (if wg_by_key wg key \<noteq> None then Inl DuplicatePeerKey
      else
        (let idx = length (wg_peers wg);
             tunn = bt_new_tunn B (wg_private wg) key psk keepalive (of_nat idx)
         in Inr (wg\<lparr>wg_peers := wg_peers wg @ [\<lparr>peer_public_key = key, peer_endpoint = None, peer_tunn = tunn\<rparr>],
                    wg_by_key := (wg_by_key wg)(key \<mapsto> idx)\<rparr>, idx)))"

definition endpoint :: "('t, 'l) wg \<Rightarrow> nat \<Rightarrow> socket_addr option" where
  "endpoint wg idx = (if idx < length (wg_peers wg) then peer_endpoint (wg_peers wg ! idx) else None)"

section \<open>A datagram from the network\<close>

text \<open>
  The decapsulation loop: \<open>None\<close> as the whole result is a loop that never ends; the last component is
  \<open>None\<close> when boringtun reported an error, else whether a packet was decrypted.
\<close>

type_synonym ('t, 'l) decap_state = "'t \<times> 'l \<times> bytes list \<times> bytes list \<times> bool option"

partial_function (option) decap_loop ::
  "('t, 'l, 'i) boringtun_lib \<Rightarrow> ip_addr \<Rightarrow> bytes \<Rightarrow> 't \<Rightarrow> 'l \<Rightarrow> bytes list \<Rightarrow> bytes list
    \<Rightarrow> ('t, 'l) decap_state option" where
  "decap_loop B ip input t l net_out ip_out =
     (case bt_decapsulate B ip input t l of (t', l', r) \<Rightarrow>
       (case r of
          TDone \<Rightarrow> Some (t', l', net_out, ip_out, Some False)
        | TErr \<Rightarrow> Some (t', l', net_out, ip_out, None)
        | TWriteToNetwork b \<Rightarrow> decap_loop B ip [] t' l' (net_out @ [b]) ip_out
        | TWriteToTunnelV4 b _ \<Rightarrow> Some (t', l', net_out, ip_out @ [b], Some True)
        | TWriteToTunnelV6 b _ \<Rightarrow> Some (t', l', net_out, ip_out @ [b], Some True)))"

text \<open>The peer a verified packet names, with the message kind; \<open>None\<close> stops before any session is touched.\<close>

definition classify ::
  "('t, 'l, 'i) boringtun_lib \<Rightarrow> ('t, 'l) wg \<Rightarrow> 'i wg_packet \<Rightarrow> (nat \<times> u8) option" where
  "classify B wg p =
     (case p of
        HandshakeInit i \<Rightarrow>
          (case bt_parse_anon B (wg_private wg) (wg_public wg) i of
             None \<Rightarrow> None
           | Some static \<Rightarrow> map_option (\<lambda>idx. (idx, 1)) (wg_by_key wg static))
      | HandshakeResponse r \<Rightarrow> Some (unat (drop_bit 8 r), 2)
      | PacketCookieReply r \<Rightarrow> Some (unat (drop_bit 8 r), 3)
      | PacketData r \<Rightarrow> Some (unat (drop_bit 8 r), 4))"

definition recv_from_network ::
  "('t, 'l, 'i) boringtun_lib \<Rightarrow> ('t, 'l) wg \<Rightarrow> socket_addr \<Rightarrow> bytes \<Rightarrow> bytes list \<Rightarrow> bytes list
    \<Rightarrow> (('t, 'l) wg \<times> bytes list \<times> bytes list \<times> nat option) option" where
  "recv_from_network B wg from datagram net_out ip_out =
     (case bt_verify B (sa_ip from) datagram (wg_limiter wg) of
        (l, Inl (TWriteToNetwork cookie)) \<Rightarrow> Some (wg\<lparr>wg_limiter := l\<rparr>, net_out @ [cookie], ip_out, None)
      | (l, Inl _) \<Rightarrow> Some (wg\<lparr>wg_limiter := l\<rparr>, net_out, ip_out, None)
      | (l, Inr p) \<Rightarrow>
          (case classify B wg p of
             None \<Rightarrow> Some (wg\<lparr>wg_limiter := l\<rparr>, net_out, ip_out, None)
           | Some (idx, kind) \<Rightarrow>
               if length (wg_peers wg) \<le> idx then Some (wg\<lparr>wg_limiter := l\<rparr>, net_out, ip_out, None)
               else
                 (let before = length net_out; peer = wg_peers wg ! idx in
                  case decap_loop B (sa_ip from) datagram (peer_tunn peer) l net_out ip_out of
                    None \<Rightarrow> None
                  | Some (t', l', net', ip', ending) \<Rightarrow>
                      (let peer' = peer\<lparr>peer_tunn := t'\<rparr> in
                       case ending of
                         None \<Rightarrow>
                           Some (wg\<lparr>wg_peers := (wg_peers wg)[idx := peer'], wg_limiter := l'\<rparr>, net', ip', None)
                       | Some decrypted \<Rightarrow>
                           (let answered = list_ex (\<lambda>d. d = [] \<or> hd d \<noteq> 3) (drop before net');
                                peer'' = (if decrypted \<or> kind = 4 \<or> (kind \<noteq> 3 \<and> answered)
                                          then peer'\<lparr>peer_endpoint := Some from\<rparr> else peer')
                            in Some (wg\<lparr>wg_peers := (wg_peers wg)[idx := peer''], wg_limiter := l'\<rparr>,
                                     net', ip', Some idx))))))"

section \<open>Sending and timers\<close>

definition encapsulate ::
  "('t, 'l, 'i) boringtun_lib \<Rightarrow> ('t, 'l) wg \<Rightarrow> nat \<Rightarrow> bytes \<Rightarrow> bytes list \<Rightarrow> ('t, 'l) wg \<times> bytes list" where
  "encapsulate B wg idx packet net_out =
     (if length (wg_peers wg) \<le> idx then (wg, net_out)
      else
        (let peer = wg_peers wg ! idx;
             (t', r) = bt_encapsulate B packet (peer_tunn peer);
             wg' = wg\<lparr>wg_peers := (wg_peers wg)[idx := peer\<lparr>peer_tunn := t'\<rparr>]\<rparr>
         in (case r of TWriteToNetwork b \<Rightarrow> (wg', net_out @ [b]) | _ \<Rightarrow> (wg', net_out))))"

definition time_since_last_handshake ::
  "('t, 'l, 'i) boringtun_lib \<Rightarrow> ('t, 'l) wg \<Rightarrow> nat \<Rightarrow> nat option" where
  "time_since_last_handshake B wg idx =
     (if idx < length (wg_peers wg) then bt_since_handshake B (peer_tunn (wg_peers wg ! idx)) else None)"

fun timer_loop ::
  "('t, 'l, 'i) boringtun_lib \<Rightarrow> nat \<Rightarrow> 't wg_peer list \<Rightarrow> (nat \<times> bytes) list
    \<Rightarrow> 't wg_peer list \<times> (nat \<times> bytes) list" where
  "timer_loop B i [] out = ([], out)"
| "timer_loop B i (p # ps) out =
     (let (t', r) = bt_update_timers B (peer_tunn p);
          out' = (case r of TWriteToNetwork b \<Rightarrow> out @ [(i, b)] | _ \<Rightarrow> out);
          (ps', out'') = timer_loop B (Suc i) ps out'
      in (p\<lparr>peer_tunn := t'\<rparr> # ps', out''))"

definition update_timers ::
  "('t, 'l, 'i) boringtun_lib \<Rightarrow> nat \<Rightarrow> ('t, 'l) wg \<Rightarrow> (nat \<times> bytes) list
    \<Rightarrow> ('t, 'l) wg \<times> (nat \<times> bytes) list" where
  "update_timers B now wg out =
     (let wg1 = (if 1000 \<le> now - wg_last_reset wg
                 then wg\<lparr>wg_limiter := bt_reset_count B (wg_limiter wg), wg_last_reset := now\<rparr> else wg);
          (ps, out') = timer_loop B 0 (wg_peers wg1) out
      in (wg1\<lparr>wg_peers := ps\<rparr>, out'))"

section \<open>The decapsulation loop returns\<close>

lemma decap_loop_flush:
  "flushes B q \<Longrightarrow> q t \<le> n \<Longrightarrow> \<exists>r. decap_loop B ip [] t l net ip_out = Some r"
proof (induction n arbitrary: t l net)
  case (0 t l net)
  then have "bt_decapsulate B ip [] t l \<noteq> (t', l', TWriteToNetwork b)" for t' l' b
    by (force simp: flushes_def)
  then show ?case by (subst decap_loop.simps) (auto split: prod.splits tunn_result.splits)
next
  case (Suc n t l net)
  obtain t' l' r where d: "bt_decapsulate B ip [] t l = (t', l', r)" by (cases "bt_decapsulate B ip [] t l")
  show ?case
  proof (cases r)
    case (TWriteToNetwork b)
    with d Suc.prems have "q t' \<le> n" unfolding flushes_def by fastforce
    from Suc.IH [OF Suc.prems(1) this] d TWriteToNetwork show ?thesis by (subst decap_loop.simps) simp
  qed (use d in \<open>subst decap_loop.simps, simp\<close>)+
qed

lemma decap_loop_returns: "flushes B q \<Longrightarrow> \<exists>r. decap_loop B ip input t l net ip_out = Some r"
proof -
  assume f: "flushes B q"
  obtain t' l' r where d: "bt_decapsulate B ip input t l = (t', l', r)"
    by (cases "bt_decapsulate B ip input t l")
  show ?thesis
  proof (cases r)
    case (TWriteToNetwork b)
    with d decap_loop_flush [OF f order_refl] show ?thesis by (subst decap_loop.simps) simp
  qed (use d in \<open>subst decap_loop.simps, simp\<close>)+
qed

text \<open>What a finished loop leaves: it only appends, and appends to \<open>ip_out\<close> exactly on a decrypted packet.\<close>

definition decap_appends :: "bytes list \<Rightarrow> bytes list \<Rightarrow> ('t, 'l) decap_state \<Rightarrow> bool" where
  "decap_appends net ip_out y \<longleftrightarrow>
     (case y of (_, _, net', ip', e) \<Rightarrow>
        \<exists>ns is. net' = net @ ns \<and> ip' = ip_out @ is \<and> (is \<noteq> [] \<longleftrightarrow> e = Some True) \<and> length is \<le> 1)"

lemma decap_appends_snoc: "decap_appends (net @ [b]) ip_out y \<Longrightarrow> decap_appends net ip_out y"
  by (auto simp: decap_appends_def)

lemma decap_loop_appends:
  assumes "decap_loop B ip input t l net ip_out = Some y"
  shows "decap_appends net ip_out y"
  using _ assms
proof (rule decap_loop.raw_induct [where P = "\<lambda>B ip input t l net ip_out y. decap_appends net ip_out y"])
  fix f B ip input t l net ip_out y
  assume IH: "\<And>B ip input t l net ip_out y. f B ip input t l net ip_out = Some y \<Longrightarrow> decap_appends net ip_out y"
    and "(case bt_decapsulate B ip input t l of (t', l', r) \<Rightarrow>
       (case r of
          TDone \<Rightarrow> Some (t', l', net, ip_out, Some False)
        | TErr \<Rightarrow> Some (t', l', net, ip_out, None)
        | TWriteToNetwork b \<Rightarrow> f B ip [] t' l' (net @ [b]) ip_out
        | TWriteToTunnelV4 b _ \<Rightarrow> Some (t', l', net, ip_out @ [b], Some True)
        | TWriteToTunnelV6 b _ \<Rightarrow> Some (t', l', net, ip_out @ [b], Some True))) = Some y"
  then show "decap_appends net ip_out y"
    by (auto split: prod.splits tunn_result.splits dest: IH intro: decap_appends_snoc)
      (auto simp: decap_appends_def)
qed

section \<open>The registration invariant\<close>

text \<open>\<open>by_key\<close> is the inverse of the peers' keys; so the keys are distinct.\<close>

definition wg_inv :: "('t, 'l) wg \<Rightarrow> bool" where
  "wg_inv wg \<longleftrightarrow>
     (\<forall>k i. wg_by_key wg k = Some i \<longleftrightarrow> i < length (wg_peers wg) \<and> peer_public_key (wg_peers wg ! i) = k)"

lemma wg_inv_distinct:
  assumes "wg_inv wg"
  shows "distinct (map peer_public_key (wg_peers wg))"
proof (rule distinct_conv_nth [THEN iffD2], intro allI impI)
  fix i j assume "i < length (map peer_public_key (wg_peers wg))"
    "j < length (map peer_public_key (wg_peers wg))" "i \<noteq> j"
  moreover from this have "wg_by_key wg (peer_public_key (wg_peers wg ! i)) = Some i"
    "wg_by_key wg (peer_public_key (wg_peers wg ! j)) = Some j"
    using assms by (simp_all add: wg_inv_def)
  ultimately show "map peer_public_key (wg_peers wg) ! i \<noteq> map peer_public_key (wg_peers wg) ! j"
    by auto
qed

text \<open>Two endpoints with the same registration: same keys, in order, and the same index.\<close>

definition same_registration :: "('t, 'l) wg \<Rightarrow> ('t, 'l) wg \<Rightarrow> bool" where
  "same_registration w v \<longleftrightarrow>
     map peer_public_key (wg_peers w) = map peer_public_key (wg_peers v) \<and> wg_by_key w = wg_by_key v \<and>
     wg_private w = wg_private v \<and> wg_public w = wg_public v"

lemma same_registration_refl [simp]: "same_registration w w"
  by (simp add: same_registration_def)

lemma wg_inv_keys:
  "wg_inv wg \<longleftrightarrow>
     (\<forall>k i. wg_by_key wg k = Some i \<longleftrightarrow>
        i < length (map peer_public_key (wg_peers wg)) \<and> map peer_public_key (wg_peers wg) ! i = k)"
  by (auto simp: wg_inv_def)

lemma wg_inv_same: "same_registration w v \<Longrightarrow> wg_inv w \<Longrightarrow> wg_inv v"
  unfolding wg_inv_keys same_registration_def by simp

lemma map_update_same: "f p = f (xs ! i) \<Longrightarrow> map f (xs[i := p]) = map f xs"
proof (rule nth_equalityI)
  fix j assume "f p = f (xs ! i)" "j < length (map f (xs[i := p]))"
  then show "map f (xs[i := p]) ! j = map f xs ! j"
    by (cases "i = j") (simp_all del: map_update)
qed simp

lemma same_registration_update:
  assumes "peer_public_key p = peer_public_key (wg_peers w ! i)"
  shows "same_registration w (w\<lparr>wg_peers := (wg_peers w)[i := p], wg_limiter := l\<rparr>)"
    and "same_registration w (w\<lparr>wg_peers := (wg_peers w)[i := p]\<rparr>)"
  using map_update_same [OF assms] by (simp_all add: same_registration_def)

text \<open>How a datagram can end: refused before any session, failed in the session, or handled.\<close>

lemma recv_from_network_cases:
  assumes "recv_from_network B wg from datagram net_out ip_out = Some (wg', net', ip', res)"
  obtains
    (refused) l where "wg' = wg\<lparr>wg_limiter := l\<rparr>" "ip' = ip_out" "res = None"
      "net' = net_out \<or> (\<exists>c. net' = net_out @ [c])"
  | (failed) l p idx kind t' l' where
      "bt_verify B (sa_ip from) datagram (wg_limiter wg) = (l, Inr p)" "classify B wg p = Some (idx, kind)"
      "idx < length (wg_peers wg)"
      "decap_loop B (sa_ip from) datagram (peer_tunn (wg_peers wg ! idx)) l net_out ip_out
         = Some (t', l', net', ip', None)"
      "wg' = wg\<lparr>wg_peers := (wg_peers wg)[idx := (wg_peers wg ! idx)\<lparr>peer_tunn := t'\<rparr>], wg_limiter := l'\<rparr>"
      "res = None"
  | (handled) l p idx kind t' l' decrypted peer where
      "bt_verify B (sa_ip from) datagram (wg_limiter wg) = (l, Inr p)" "classify B wg p = Some (idx, kind)"
      "idx < length (wg_peers wg)"
      "decap_loop B (sa_ip from) datagram (peer_tunn (wg_peers wg ! idx)) l net_out ip_out
         = Some (t', l', net', ip', Some decrypted)"
      "peer = (if decrypted \<or> kind = 4 \<or> (kind \<noteq> 3 \<and> list_ex (\<lambda>d. d = [] \<or> hd d \<noteq> 3) (drop (length net_out) net'))
               then (wg_peers wg ! idx)\<lparr>peer_tunn := t', peer_endpoint := Some from\<rparr>
               else (wg_peers wg ! idx)\<lparr>peer_tunn := t'\<rparr>)"
      "wg' = wg\<lparr>wg_peers := (wg_peers wg)[idx := peer], wg_limiter := l'\<rparr>"
      "res = Some idx"
proof -
  obtain l v where v: "bt_verify B (sa_ip from) datagram (wg_limiter wg) = (l, v)"
    by (cases "bt_verify B (sa_ip from) datagram (wg_limiter wg)")
  show thesis
  proof (cases v)
    case (Inl r)
    with v assms show thesis by (cases r) (auto simp: recv_from_network_def intro: refused)
  next
    case (Inr p)
    show thesis
    proof (cases "classify B wg p")
      case None
      with v Inr assms show thesis by (auto simp: recv_from_network_def intro: refused)
    next
      case (Some ik)
      obtain idx kind where ik: "ik = (idx, kind)" by (cases ik)
      show thesis
      proof (cases "idx < length (wg_peers wg)")
        case False
        with v Inr Some ik assms show thesis by (auto simp: recv_from_network_def intro: refused)
      next
        case True
        with v Inr Some ik assms obtain t' l' net'' ip'' e where d:
          "decap_loop B (sa_ip from) datagram (peer_tunn (wg_peers wg ! idx)) l net_out ip_out
             = Some (t', l', net'', ip'', e)"
          by (auto simp: recv_from_network_def Let_def split: option.splits)
        show thesis
        proof (cases e)
          case None
          with v Inr Some ik True d assms show thesis
            by (intro failed [of l p idx kind t' l']) (auto simp: recv_from_network_def Let_def)
        next
          case (Some decrypted)
          with v Inr \<open>classify B wg p = Some ik\<close> ik True d assms show thesis
            by (intro handled [of l p idx kind t' l' decrypted])
              (auto simp: recv_from_network_def Let_def split: if_splits)
        qed
      qed
    qed
  qed
qed

lemma recv_same_registration:
  "recv_from_network B wg from datagram net_out ip_out = Some (wg', net', ip', res) \<Longrightarrow>
   same_registration wg wg'"
  by (erule recv_from_network_cases)
    (auto intro: same_registration_update simp: same_registration_def [of wg "wg\<lparr>wg_limiter := _\<rparr>"])

lemma encapsulate_same_registration: "same_registration wg (fst (encapsulate B wg idx packet net_out))"
  by (auto simp: encapsulate_def Let_def split: prod.split tunn_result.split
      intro: same_registration_update)

lemma timer_loop_keys:
  "timer_loop B i ps out = (ps', out') \<Longrightarrow>
   length ps' = length ps \<and> map peer_public_key ps' = map peer_public_key ps \<and> map peer_endpoint ps' = map peer_endpoint ps"
  by (induction B i ps out arbitrary: ps' out' rule: timer_loop.induct)
    (auto simp: Let_def split: prod.splits)

lemma update_timers_same_registration: "same_registration wg (fst (update_timers B now wg out))"
  by (auto simp: update_timers_def Let_def same_registration_def split: prod.split
      dest: timer_loop_keys)

lemma add_peer_inv: "wg_inv wg \<Longrightarrow> add_peer B wg key psk ka = Inr (wg', idx) \<Longrightarrow> wg_inv wg'"
  by (auto simp: add_peer_def wg_inv_def Let_def nth_append split: if_splits)

lemma wg_new_inv: "wg_inv (wg_new B now key)"
  by (simp add: wg_new_def wg_inv_def Let_def)

text \<open>The endpoint as a transition system over its operations, and its invariant.\<close>

inductive wg_step :: "('t, 'l, 'i) boringtun_lib \<Rightarrow> ('t, 'l) wg \<Rightarrow> ('t, 'l) wg \<Rightarrow> bool" for B where
  step_add: "add_peer B wg key psk ka = Inr (wg', idx) \<Longrightarrow> wg_step B wg wg'"
| step_recv: "recv_from_network B wg from datagram net_out ip_out = Some (wg', net', ip', res) \<Longrightarrow> wg_step B wg wg'"
| step_send: "encapsulate B wg idx packet net_out = (wg', net') \<Longrightarrow> wg_step B wg wg'"
| step_timers: "update_timers B now wg out = (wg', out') \<Longrightarrow> wg_step B wg wg'"

inductive_cases wg_stepE: "wg_step B wg wg'"

lemma wg_step_inv: "wg_inv wg \<Longrightarrow> wg_step B wg wg' \<Longrightarrow> wg_inv wg'"
  by (erule wg_stepE)
    (metis add_peer_inv recv_same_registration encapsulate_same_registration
      update_timers_same_registration wg_inv_same fst_conv)+

interpretation wg_system: transition_system "\<lambda>wg. \<exists>now key. wg = wg_new B now key" "wg_step B" wg_inv for B
  by unfold_locales (auto intro: wg_new_inv wg_step_inv)

section \<open>What one datagram can change\<close>

definition proves_key ::
  "('t, 'l, 'i) boringtun_lib \<Rightarrow> ('t, 'l) wg \<Rightarrow> socket_addr \<Rightarrow> bytes \<Rightarrow> nat \<Rightarrow> bytes list \<Rightarrow> nat \<Rightarrow> bool" where
  "proves_key B wg from datagram idx answers decrypted \<longleftrightarrow>
     (case bt_verify B (sa_ip from) datagram (wg_limiter wg) of
        (_, Inr p) \<Rightarrow>
          (case classify B wg p of
             Some (i, kind) \<Rightarrow> i = idx \<and>
               (0 < decrypted \<or> kind = 4 \<or> (kind \<noteq> 3 \<and> (\<exists>d \<in> set answers. d = [] \<or> hd d \<noteq> 3)))
           | None \<Rightarrow> False)
      | _ \<Rightarrow> False)"

lemma recv_peers:
  assumes "recv_from_network B wg from datagram net_out ip_out = Some (wg', net', ip', res)"
  shows "length (wg_peers wg') = length (wg_peers wg) \<and>
     (\<forall>j < length (wg_peers wg). res \<noteq> Some j \<longrightarrow>
        peer_endpoint (wg_peers wg' ! j) = peer_endpoint (wg_peers wg ! j))"
  using assms by (cases rule: recv_from_network_cases) (auto simp: nth_list_update)

lemma recv_endpoint:
  assumes "recv_from_network B wg from datagram net_out ip_out = Some (wg', net', ip', Some i)"
  shows "endpoint wg' i =
     (if proves_key B wg from datagram i (drop (length net_out) net') (length ip' - length ip_out)
      then Some from else endpoint wg i)"
  using assms
proof (cases rule: recv_from_network_cases)
  case (handled l p idx kind t' l' decrypted peer)
  from decap_loop_appends [OF handled(4)] obtain "is" where "ip' = ip_out @ is" "is \<noteq> [] \<longleftrightarrow> decrypted"
    by (auto simp: decap_appends_def)
  then have "decrypted \<longleftrightarrow> 0 < length ip' - length ip_out" by auto
  with handled show ?thesis
    by (auto simp: endpoint_def proves_key_def list_ex_iff)
qed auto

section \<open>A concrete boringtun, for closed examples\<close>

text \<open>
  Tunnels count what they have to flush, the limiter counts the handshakes it still admits. Kinds 1 to
  4 are the message types; a data packet carries its receiver index and then an IP packet in the clear.
\<close>

fun ex_verify :: "ip_addr \<Rightarrow> bytes \<Rightarrow> nat \<Rightarrow> nat \<times> (tunn_result + bytes wg_packet)" where
  "ex_verify ip [] l = (l, Inl TErr)"
| "ex_verify ip (k # d) l =
     (if k = 1 then (if l = 0 then (0, Inl (TWriteToNetwork [3])) else (l - 1, Inr (HandshakeInit d)))
      else if k = 2 then (l, Inr (HandshakeResponse (be_word (take 4 d))))
      else if k = 3 then (l, Inr (PacketCookieReply (be_word (take 4 d))))
      else if k = 4 then (l, Inr (PacketData (be_word (take 4 d))))
      else (l, Inl TErr))"

fun ex_decapsulate :: "ip_addr \<Rightarrow> bytes \<Rightarrow> nat \<Rightarrow> nat \<Rightarrow> nat \<times> nat \<times> tunn_result" where
  "ex_decapsulate ip [] t l = (if t = 0 then (0, l, TDone) else (t - 1, l, TWriteToNetwork [4]))"
| "ex_decapsulate ip (k # d) t l =
     (if k = 1 then (1, l, TWriteToNetwork [2])
      else if k = 4 then (t, l, TWriteToTunnelV4 (drop 4 d) 0)
      else (t, l, TDone))"

definition ex_dst :: "bytes \<Rightarrow> ip_addr option" where
  "ex_dst p = (if 20 \<le> length p \<and> drop_bit 4 (hd p) = 4 then Some (V4 (be_word (take 4 (drop 16 p)))) else None)"

definition ex_boringtun :: "(nat, nat, bytes) boringtun_lib" where
  "ex_boringtun =
     \<lparr>bt_public = id, bt_new_limiter = (\<lambda>_ n. n), bt_new_tunn = (\<lambda>_ _ _ _ _. 0), bt_verify = ex_verify,
      bt_parse_anon = (\<lambda>_ _ i. Some i), bt_decapsulate = ex_decapsulate,
      bt_encapsulate = (\<lambda>p t. (t, TWriteToNetwork (4 # p))),
      bt_update_timers = (\<lambda>t. (t, if t = 0 then TDone else TWriteToNetwork [4])),
      bt_since_handshake = (\<lambda>_. None), bt_reset_count = (\<lambda>_. HANDSHAKE_RATE_LIMIT),
      bt_dst_address = ex_dst\<rparr>"

lemma ex_boringtun_flushes: "flushes ex_boringtun id"
  by (auto simp: flushes_def ex_boringtun_def split: if_splits)

definition ex_wg :: "(nat, nat) wg" where
  "ex_wg =
     (case add_peer ex_boringtun (wg_new ex_boringtun 0 (replicate 32 1)) (replicate 32 2) None None of
        Inr (w, _) \<Rightarrow> (case add_peer ex_boringtun w (replicate 32 3) None None of Inr (v, _) \<Rightarrow> v | Inl _ \<Rightarrow> w)
      | Inl _ \<Rightarrow> wg_new ex_boringtun 0 [])"

lemmas ex_wg_simps =
  ex_wg_def wg_new_def add_peer_def Let_def ex_boringtun_def HANDSHAKE_RATE_LIMIT_def

lemma replicate_key_neq: "replicate 32 (a :: u8) = replicate 32 b \<longleftrightarrow> a = b"
  by (simp add: replicate_eq_replicate)

lemma ex_wg_value:
  "ex_wg = \<lparr>wg_private = replicate 32 1, wg_public = replicate 32 1,
     wg_peers = [\<lparr>peer_public_key = replicate 32 2, peer_endpoint = None, peer_tunn = 0\<rparr>,
                 \<lparr>peer_public_key = replicate 32 3, peer_endpoint = None, peer_tunn = 0\<rparr>],
     wg_by_key = [replicate 32 2 \<mapsto> 0, replicate 32 3 \<mapsto> 1], wg_limiter = 100, wg_last_reset = 0\<rparr>"
  by (simp add: ex_wg_simps replicate_key_neq)

lemma ex_adds:
  obtains w where
    "add_peer ex_boringtun (wg_new ex_boringtun 0 (replicate 32 1)) (replicate 32 2) None None = Inr (w, 0)"
    "add_peer ex_boringtun w (replicate 32 3) None None = Inr (ex_wg, 1)"
proof -
  let ?w0 = "wg_new ex_boringtun 0 (replicate 32 1)"
  obtain w where a: "add_peer ex_boringtun ?w0 (replicate 32 2) None None = Inr (w, 0)"
    by (simp add: ex_wg_simps)
  moreover obtain v where b: "add_peer ex_boringtun w (replicate 32 3) None None = Inr (v, 1)"
    using a by (auto simp: ex_wg_simps replicate_key_neq)
  ultimately have "ex_wg = v" by (simp add: ex_wg_def)
  with a b show thesis by (auto intro: that)
qed

lemma ex_wg_reachable: "(wg_step ex_boringtun)\<^sup>*\<^sup>* (wg_new ex_boringtun 0 (replicate 32 1)) ex_wg"
  by (rule ex_adds) (meson r_into_rtranclp rtranclp_trans step_add)

lemma ex_decap:
  "decap_loop ex_boringtun ip (1 # d) t l net ip_out = Some (0, l, net @ [[2], [4]], ip_out, Some False)"
proof -
  have "decap_loop ex_boringtun ip [] 0 l n ip_out = Some (0, l, n, ip_out, Some False)" for n
    by (subst decap_loop.simps) (simp add: ex_boringtun_def)
  then have "decap_loop ex_boringtun ip [] 1 l n ip_out = Some (0, l, n @ [[4]], ip_out, Some False)" for n
    by (subst decap_loop.simps) (simp add: ex_boringtun_def)
  then show ?thesis by (subst decap_loop.simps) (simp add: ex_boringtun_def)
qed

lemma ex_recv:
  "\<exists>wg' net' ip'. recv_from_network ex_boringtun ex_wg (sock (V4 7) 9) (1 # replicate 32 3) [] []
     = Some (wg', net', ip', Some 1) \<and> endpoint wg' 1 \<noteq> endpoint ex_wg 1"
proof -
  have "bt_verify ex_boringtun ip (1 # d) 100 = (99, Inr (HandshakeInit d))" for ip d
    by (simp add: ex_boringtun_def)
  moreover have "classify ex_boringtun ex_wg (HandshakeInit (replicate 32 3)) = Some (1, 1)"
    by (simp add: classify_def ex_boringtun_def ex_wg_value replicate_key_neq)
  ultimately show ?thesis
    by (simp add: recv_from_network_def ex_wg_value ex_decap endpoint_def Let_def)
qed

lemma timer_loop_spec:
  "timer_loop B i ps out =
     (map (\<lambda>p. p\<lparr>peer_tunn := fst (bt_update_timers B (peer_tunn p))\<rparr>) ps,
      out @ concat (map (\<lambda>(i, p). case bt_update_timers B (peer_tunn p) of
         (_, TWriteToNetwork b) \<Rightarrow> [(i, b)] | _ \<Rightarrow> []) (enumerate i ps)))"
  by (induction B i ps out rule: timer_loop.induct) (auto split: prod.splits tunn_result.splits)

section \<open>Properties\<close>

text \<open>
  C5: roaming needs proof of the peer's private key. A datagram changes the endpoint of at most the
  peer it is attributed to, to the datagram's source, and only when it decrypted a packet, was an
  accepted data packet, or drew an answer other than a cookie reply to a message that is not one.
\<close>

theorem endpoint_moves_on_proof:
  assumes "recv_from_network B wg from datagram net_out ip_out = Some (wg', net', ip', res)"
    and "endpoint wg' i \<noteq> endpoint wg i"
  shows "res = Some i \<and> endpoint wg' i = Some from \<and>
     proves_key B wg from datagram i (drop (length net_out) net') (length ip' - length ip_out)"
proof -
  have "res = Some i"
    using recv_peers [OF assms(1)] assms(2) by (auto simp: endpoint_def split: if_splits)
  with recv_endpoint [of B wg "from" datagram net_out ip_out wg' net' ip' i] assms show ?thesis
    by (auto split: if_splits)
qed

theorem endpoint_moves_on_proof_witness:
  "\<exists>wg' net' ip' res.
     recv_from_network ex_boringtun ex_wg (sock (V4 7) 9) (1 # replicate 32 3) [] [] = Some (wg', net', ip', res) \<and>
     endpoint wg' 1 \<noteq> endpoint ex_wg 1 \<and> res = Some 1 \<and> endpoint wg' 1 = Some (sock (V4 7) 9)"
proof -
  obtain wg' net' ip' where r:
    "recv_from_network ex_boringtun ex_wg (sock (V4 7) 9) (1 # replicate 32 3) [] [] = Some (wg', net', ip', Some 1)"
    and "endpoint wg' 1 \<noteq> endpoint ex_wg 1"
    using ex_recv by blast
  with endpoint_moves_on_proof [OF this] show ?thesis by blast
qed

text \<open>
  C26: every datagram is processed to an end: under boringtun's documented flush protocol the
  decapsulation loop returns, for any datagram and any state.
\<close>

theorem recv_from_network_returns:
  assumes "flushes B queued"
  shows "\<exists>r. recv_from_network B wg from datagram net_out ip_out = Some r"
  unfolding recv_from_network_def
  using decap_loop_returns [OF assms]
  by (auto simp: Let_def split: prod.split sum.split tunn_result.split option.split) (metis option.distinct(1))

theorem recv_from_network_returns_witness:
  "\<exists>r. recv_from_network ex_boringtun ex_wg (sock (V4 7) 9) [1, 2] [] [] = Some r"
  by (rule recv_from_network_returns [OF ex_boringtun_flushes])

text \<open>
  C27: registration is consistent in every reachable state: the key index is the inverse of the peers'
  keys, so a public key names at most one peer.
\<close>

theorem wg_registration_reachable:
  assumes "(wg_step B)\<^sup>*\<^sup>* (wg_new B now key) wg"
  shows "(\<forall>k i. wg_by_key wg k = Some i \<longleftrightarrow> i < length (wg_peers wg) \<and> peer_public_key (wg_peers wg ! i) = k) \<and>
     distinct (map peer_public_key (wg_peers wg))"
proof -
  have "wg_inv wg" using wg_system.inv_reachable [OF _ assms] by blast
  then show ?thesis using wg_inv_distinct wg_inv_def by blast
qed

theorem wg_registration_reachable_witness:
  "distinct (map peer_public_key (wg_peers ex_wg))"
  using wg_registration_reachable [OF ex_wg_reachable] by blast

text \<open>
  One timer tick drives every peer once and in order: each session is the one its own timer call
  leaves, what it emits is appended with its index, endpoints and keys stay, and the rate limiter is
  reset exactly when a second has passed.
\<close>

theorem update_timers_spec:
  assumes "update_timers B now wg out = (wg', out')"
  shows "wg_peers wg' = map (\<lambda>p. p\<lparr>peer_tunn := fst (bt_update_timers B (peer_tunn p))\<rparr>) (wg_peers wg) \<and>
     out' = out @ concat (map (\<lambda>(i, p). case bt_update_timers B (peer_tunn p) of
         (_, TWriteToNetwork b) \<Rightarrow> [(i, b)] | _ \<Rightarrow> []) (enumerate 0 (wg_peers wg))) \<and>
     (wg_limiter wg', wg_last_reset wg') =
       (if 1000 \<le> now - wg_last_reset wg then (bt_reset_count B (wg_limiter wg), now)
        else (wg_limiter wg, wg_last_reset wg))"
  using assms by (auto simp: update_timers_def timer_loop_spec Let_def)

theorem update_timers_spec_witness:
  "\<exists>wg' out'. update_timers ex_boringtun 1000 ex_wg [] = (wg', out') \<and> wg_last_reset wg' = 1000"
proof -
  obtain wg' out' where u: "update_timers ex_boringtun 1000 ex_wg [] = (wg', out')" by fastforce
  have "wg_last_reset ex_wg = 0"
    by (simp add: ex_wg_def add_peer_def wg_new_def Let_def)
  with update_timers_spec [OF u] u show ?thesis by auto
qed

end
