(* ===== verification/Server.thy ===== *)
theory Server
  imports Config Net_Packets Wgcore
begin

text \<open>
  \<open>crates/server/src/lib.rs\<close>, the data plane: the tables \<open>start\<close> builds, and the three tasks that move
  datagrams (peer to stack, stack to peer, timers). Tokio's channels are an argument: \<open>try_send\<close>.
\<close>

section \<open>Bringing the server up\<close>

datatype start_error = StartKey key_error | StartUpstream upstream_error | StartWg wg_error

fun lift_err :: "('e \<Rightarrow> 'f) \<Rightarrow> 'e + 'a \<Rightarrow> 'f + 'a" where
  "lift_err f (Inl e) = Inl (f e)"
| "lift_err f (Inr x) = Inr x"

lemma lift_err_Inr_iff [simp]: "lift_err f r = Inr x \<longleftrightarrow> r = Inr x"
  by (cases r) auto

text \<open>\<open>Option::map\<close> followed by \<open>transpose\<close>.\<close>

fun transpose_map :: "('a \<Rightarrow> 'e + 'b) \<Rightarrow> 'a option \<Rightarrow> 'e + 'b option" where
  "transpose_map f None = Inr None"
| "transpose_map f (Some x) = and_then (f x) (\<lambda>y. Inr (Some y))"

lemma transpose_map_Inr_iff:
  "transpose_map f x = Inr y \<longleftrightarrow>
     (case x of None \<Rightarrow> y = None | Some a \<Rightarrow> (\<exists>b. f a = Inr b \<and> y = Some b))"
  by (cases x) (auto simp: and_then_Inr_iff)

lemma transpose_map_ok: "pred_option (\<lambda>x. is_ok (f x)) y \<Longrightarrow> \<exists>z. transpose_map f y = Inr z"
  by (cases y) (auto simp: is_ok_iff)

record ('net, 't, 'l) tables =
  tb_wg :: "('t, 'l) wg"
  tb_allowed :: "('net \<times> nat) list"
  tb_upstreams :: "upstream list"

fun start_peers ::
  "key_lib \<Rightarrow> ('t, 'l, 'i) boringtun_lib \<Rightarrow> upstream \<Rightarrow> ('net, 't, 'l) tables \<Rightarrow> 'net peer_config list
    \<Rightarrow> start_error + ('net, 't, 'l) tables" where
  "start_peers K B global tb [] = Inr tb"
| "start_peers K B global tb (p # ps) =
     and_then (lift_err StartKey (transpose_map (decode_key K) (pc_preshared_key p))) (\<lambda>psk.
     and_then (lift_err StartKey (decode_key K (pc_public_key p))) (\<lambda>key.
     and_then (lift_err StartWg (add_peer B (tb_wg tb) key psk None)) (\<lambda>(wg, idx).
     and_then (lift_err StartUpstream (transpose_map parse_upstream (pc_upstream p))) (\<lambda>up.
       start_peers K B global
         \<lparr>tb_wg = wg, tb_allowed = tb_allowed tb @ map (\<lambda>n. (n, idx)) (pc_allowed_ips p),
          tb_upstreams = tb_upstreams tb @ [unwrap_or global up]\<rparr> ps))))"

definition start_tables ::
  "key_lib \<Rightarrow> ('t, 'l, 'i) boringtun_lib \<Rightarrow> nat \<Rightarrow> 'net config \<Rightarrow> start_error + ('net, 't, 'l) tables" where
  "start_tables K B now cfg =
     and_then (lift_err StartUpstream (parse_upstream (cfg_upstream cfg))) (\<lambda>global.
     and_then (lift_err StartKey (decode_key K (cfg_private_key cfg))) (\<lambda>key.
       start_peers K B global \<lparr>tb_wg = wg_new B now key, tb_allowed = [], tb_upstreams = []\<rparr> (cfg_peers cfg)))"

text \<open>The relay always talks to the WireGuard socket over loopback.\<close>

definition relay_target :: "socket_addr \<Rightarrow> socket_addr" where
  "relay_target udp_addr =
     (if ip_is_unspecified (sa_ip udp_addr) then sock (V4 (v4_addr 127 0 0 1)) (sa_port udp_addr) else udp_addr)"

section \<open>State of the running server\<close>

definition QUEUE :: nat where
  "QUEUE = 4096"

record ('net, 't, 'l, 'q) server =
  sv_net :: 'net
  sv_allow_private :: bool
  sv_allowed :: "('net \<times> nat) list"
  sv_wg :: "('t, 'l) wg"
  sv_to_stack :: 'q

type_synonym sent = "(bytes \<times> socket_addr) list"

section \<open>Peer to stack\<close>

fun ingress_packets ::
  "'net ipnet_lib \<Rightarrow> etherparse_lib \<Rightarrow> ('t, 'l, 'i) boringtun_lib \<Rightarrow> (bytes \<Rightarrow> 'q \<Rightarrow> 'q option)
    \<Rightarrow> nat \<Rightarrow> socket_addr \<Rightarrow> ('net, 't, 'l, 'q) server \<Rightarrow> bytes list \<Rightarrow> ('net, 't, 'l, 'q) server \<times> sent" where
  "ingress_packets L E B try_send idx from sv [] = (sv, [])"
| "ingress_packets L E B try_send idx from sv (packet # ps) =
     (case (src_address packet, dst_address B packet) of
        (Some src, Some dst) \<Rightarrow>
          if peer_for L (sv_allowed sv) src \<noteq> Some idx then ingress_packets L E B try_send idx from sv ps
          else if \<not> allowed_dst L (sv_net sv) dst (sv_allow_private sv) then
            (case tcp_rst E packet of
               Some rst \<Rightarrow>
                 (let (wg', net_out) = encapsulate B (sv_wg sv) idx rst [];
                      (sv', sent) = ingress_packets L E B try_send idx from (sv\<lparr>sv_wg := wg'\<rparr>) ps
                  in (sv', map (\<lambda>d. (d, from)) net_out @ sent))
             | None \<Rightarrow> ingress_packets L E B try_send idx from sv ps)
          else
            ingress_packets L E B try_send idx from
              (sv\<lparr>sv_to_stack := send_or_drop try_send packet (sv_to_stack sv)\<rparr>) ps
      | _ \<Rightarrow> ingress_packets L E B try_send idx from sv ps)"

text \<open>One turn of the task; \<open>None\<close> as a received datagram is a socket error, \<open>None\<close> as a result a hang.\<close>

definition ingress ::
  "'net ipnet_lib \<Rightarrow> etherparse_lib \<Rightarrow> ('t, 'l, 'i) boringtun_lib \<Rightarrow> (bytes \<Rightarrow> 'q \<Rightarrow> 'q option)
    \<Rightarrow> ('net, 't, 'l, 'q) server \<Rightarrow> (bytes \<times> socket_addr) option
    \<Rightarrow> (('net, 't, 'l, 'q) server \<times> sent) option" where
  "ingress L E B try_send sv received =
     (case received of
        None \<Rightarrow> Some (sv, [])
      | Some (datagram, from) \<Rightarrow>
          (case recv_from_network B (sv_wg sv) from datagram [] [] of
             None \<Rightarrow> None
           | Some (wg', net_out, ip_out, res) \<Rightarrow>
               (let sv' = sv\<lparr>sv_wg := wg'\<rparr>; replies = map (\<lambda>d. (d, from)) net_out in
                case res of
                  None \<Rightarrow> Some (sv', replies)
                | Some idx \<Rightarrow>
                    (let (sv'', sent) = ingress_packets L E B try_send idx from sv' ip_out
                     in Some (sv'', replies @ sent)))))"

section \<open>Stack to peer, and timers\<close>

definition egress ::
  "'net ipnet_lib \<Rightarrow> ('t, 'l, 'i) boringtun_lib \<Rightarrow> ('net, 't, 'l, 'q) server \<Rightarrow> bytes
    \<Rightarrow> ('net, 't, 'l, 'q) server \<times> sent" where
  "egress L B sv packet =
     (case dst_address B packet of
        None \<Rightarrow> (sv, [])
      | Some dst \<Rightarrow>
          (case peer_for L (sv_allowed sv) dst of
             None \<Rightarrow> (sv, [])
           | Some idx \<Rightarrow>
               (let (wg', net_out) = encapsulate B (sv_wg sv) idx packet [];
                    sv' = sv\<lparr>sv_wg := wg'\<rparr>
                in case endpoint wg' idx of
                     None \<Rightarrow> (sv', [])
                   | Some ep \<Rightarrow> (sv', map (\<lambda>d. (d, ep)) net_out))))"

definition tick ::
  "('t, 'l, 'i) boringtun_lib \<Rightarrow> nat \<Rightarrow> ('net, 't, 'l, 'q) server \<Rightarrow> ('net, 't, 'l, 'q) server \<times> sent" where
  "tick B now sv =
     (let (wg', out) = update_timers B now (sv_wg sv) [];
          targets = map (\<lambda>(i, _). endpoint wg' i) out
      in (sv\<lparr>sv_wg := wg'\<rparr>,
          concat (map (\<lambda>((_, d), ep). case ep of Some e \<Rightarrow> [(d, e)] | None \<Rightarrow> []) (zip out targets))))"

section \<open>The tables of a started server\<close>

lemma add_peer_Inr_iff:
  "add_peer B wg key psk ka = Inr (wg', idx) \<longleftrightarrow>
     wg_by_key wg key = None \<and> idx = length (wg_peers wg) \<and>
     wg' = wg\<lparr>wg_peers := wg_peers wg @ [\<lparr>peer_public_key = key, peer_endpoint = None,
               peer_tunn = bt_new_tunn B (wg_private wg) key psk ka (of_nat idx)\<rparr>],
             wg_by_key := (wg_by_key wg)(key \<mapsto> idx)\<rparr>"
  by (auto simp: add_peer_def Let_def)

definition routing_from :: "nat \<Rightarrow> 'net peer_config list \<Rightarrow> ('net \<times> nat) list" where
  "routing_from k ps = concat (map (\<lambda>(i, p). map (\<lambda>n. (n, i)) (pc_allowed_ips p)) (enumerate k ps))"

definition own_upstream :: "upstream \<Rightarrow> 'net peer_config \<Rightarrow> upstream" where
  "own_upstream global p = (case pc_upstream p of None \<Rightarrow> global
     | Some u \<Rightarrow> (case parse_upstream u of Inr up \<Rightarrow> up | Inl _ \<Rightarrow> global))"

lemma start_peers_tables:
  assumes "start_peers K B global tb ps = Inr tb'"
  shows "tb_allowed tb' = tb_allowed tb @ routing_from (length (wg_peers (tb_wg tb))) ps
     \<and> tb_upstreams tb' = tb_upstreams tb @ map (own_upstream global) ps
     \<and> map (Inr \<circ> peer_public_key) (wg_peers (tb_wg tb'))
         = map (Inr \<circ> peer_public_key) (wg_peers (tb_wg tb)) @ map (decode_key K \<circ> pc_public_key) ps"
  using assms
proof (induction ps arbitrary: tb)
  case (Cons p ps)
  from Cons.prems obtain psk key wg idx up where *:
    "decode_key K (pc_public_key p) = Inr key" "add_peer B (tb_wg tb) key psk None = Inr (wg, idx)"
    "transpose_map parse_upstream (pc_upstream p) = Inr up"
    "start_peers K B global \<lparr>tb_wg = wg, tb_allowed = tb_allowed tb @ map (\<lambda>n. (n, idx)) (pc_allowed_ips p),
       tb_upstreams = tb_upstreams tb @ [unwrap_or global up]\<rparr> ps = Inr tb'"
    by (auto simp: and_then_Inr_iff)
  have "unwrap_or global up = own_upstream global p"
    using *(3) by (auto simp: own_upstream_def transpose_map_Inr_iff split: option.splits)
  then show ?case
    using Cons.IH [OF *(4)] * by (simp add: add_peer_Inr_iff routing_from_def)
qed (simp add: routing_from_def)

lemma start_peers_succeeds:
  assumes "list_all (peer_ok K) ps"
    and "distinct (map (decode_key K \<circ> pc_public_key) ps)"
    and "\<forall>p \<in> set ps. \<forall>k. decode_key K (pc_public_key p) = Inr k \<longrightarrow> wg_by_key (tb_wg tb) k = None"
  shows "is_ok (start_peers K B global tb ps)"
  using assms
proof (induction ps arbitrary: tb)
  case (Cons p ps)
  from Cons.prems(1) obtain key psk up where *: "decode_key K (pc_public_key p) = Inr key"
    "transpose_map (decode_key K) (pc_preshared_key p) = Inr psk"
    "transpose_map parse_upstream (pc_upstream p) = Inr up"
    by (auto simp: peer_ok_def is_ok_iff [of "decode_key K (pc_public_key p)"] dest!: transpose_map_ok)
  then obtain wg idx where wg: "add_peer B (tb_wg tb) key psk None = Inr (wg, idx)"
    using Cons.prems(3) by (auto simp: add_peer_Inr_iff)
  have "wg_by_key wg k = None"
    if "q \<in> set ps" "decode_key K (pc_public_key q) = Inr k" for q k
  proof -
    have "decode_key K (pc_public_key p) \<noteq> decode_key K (pc_public_key q)"
      using Cons.prems(2) that(1) by force
    with that Cons.prems(3) wg *(1) show ?thesis by (auto simp: add_peer_Inr_iff)
  qed
  then have "is_ok (start_peers K B global \<lparr>tb_wg = wg, tb_allowed = tb_allowed tb @ map (\<lambda>n. (n, idx)) (pc_allowed_ips p),
      tb_upstreams = tb_upstreams tb @ [unwrap_or global up]\<rparr> ps)"
    using Cons.prems(1,2) by (intro Cons.IH) simp_all
  with * wg show ?case by simp
qed simp

section \<open>What a turn of the data plane admits\<close>

text \<open>
  A packet the gate lets through for a peer: its source is routed to that peer and its destination
  passes the gate (\<open>admits\<close> of the guarded plane, on the server's own table and gate).
\<close>

definition admitted ::
  "'net ipnet_lib \<Rightarrow> ('t, 'l, 'i) boringtun_lib \<Rightarrow> 'net \<Rightarrow> bool \<Rightarrow> ('net \<times> nat) list \<Rightarrow> nat \<Rightarrow> bytes \<Rightarrow> bool" where
  "admitted L B net allow_private allowed idx packet \<longleftrightarrow>
     (case (src_address packet, dst_address B packet) of
        (Some src, Some dst) \<Rightarrow> peer_for L allowed src = Some idx \<and> allowed_dst L net dst allow_private
      | _ \<Rightarrow> False)"

lemma admitted_plane:
  "admitted L B net ap allowed idx packet \<longleftrightarrow>
     (\<exists>src dst. src_address packet = Some src \<and> dst_address B packet = Some dst \<and>
        guarded_plane.admits (peer_for L allowed) (\<lambda>a. allowed_dst L net a ap) idx src dst)"
  by (auto simp: admitted_def server_plane.admits_def split: option.splits)

abbreviation sv_admitted ::
  "'net ipnet_lib \<Rightarrow> ('t, 'l, 'i) boringtun_lib \<Rightarrow> ('net, 't, 'l, 'q) server \<Rightarrow> nat \<Rightarrow> bytes \<Rightarrow> bool" where
  "sv_admitted L B sv \<equiv> admitted L B (sv_net sv) (sv_allow_private sv) (sv_allowed sv)"

text \<open>The tables do not change while the server runs.\<close>

definition same_tables :: "('net, 't, 'l, 'q) server \<Rightarrow> ('net, 't, 'l, 'q) server \<Rightarrow> bool" where
  "same_tables sv sv' \<longleftrightarrow> sv_net sv' = sv_net sv \<and> sv_allow_private sv' = sv_allow_private sv \<and>
     sv_allowed sv' = sv_allowed sv \<and> same_registration (sv_wg sv) (sv_wg sv')"

lemma same_registration_trans:
  "same_registration u v \<Longrightarrow> same_registration v w \<Longrightarrow> same_registration u w"
  by (simp add: same_registration_def)

lemma ingress_packets_spec:
  assumes "ingress_packets L E B ts idx from sv ps = (sv', sent)"
  shows "same_tables sv sv' \<and>
     sv_to_stack sv' = fold (send_or_drop ts) (filter (sv_admitted L B sv idx) ps) (sv_to_stack sv) \<and>
     (\<forall>(d, ep) \<in> set sent. ep = from)"
  using assms
proof (induction ps arbitrary: sv sv' sent)
  case (Cons packet ps)
  show ?case
  proof (cases "case (src_address packet, dst_address B packet) of
      (Some src, Some dst) \<Rightarrow> peer_for L (sv_allowed sv) src = Some idx | _ \<Rightarrow> False")
    case False
    then have "ingress_packets L E B ts idx from sv ps = (sv', sent)" "\<not> sv_admitted L B sv idx packet"
      using Cons.prems by (auto simp: admitted_def split: option.splits)
    with Cons.IH show ?thesis by simp
  next
    case True
    then obtain src dst where a: "src_address packet = Some src" "dst_address B packet = Some dst"
        "peer_for L (sv_allowed sv) src = Some idx"
      by (auto split: option.splits)
    show ?thesis
    proof (cases "allowed_dst L (sv_net sv) dst (sv_allow_private sv)")
      case True
      let ?sv = "sv\<lparr>sv_to_stack := send_or_drop ts packet (sv_to_stack sv)\<rparr>"
      from True a Cons.prems have "ingress_packets L E B ts idx from ?sv ps = (sv', sent)"
        "sv_admitted L B sv idx packet"
        by (auto simp: admitted_def)
      with Cons.IH [of ?sv] show ?thesis by (auto simp: same_tables_def)
    next
      case False
      then have no: "\<not> sv_admitted L B sv idx packet" using a by (simp add: admitted_def)
      show ?thesis
      proof (cases "tcp_rst E packet")
        case None
        with False a Cons.prems Cons.IH [of sv] no show ?thesis by simp
      next
        case (Some rst)
        obtain wg' net_out where e: "encapsulate B (sv_wg sv) idx rst [] = (wg', net_out)"
          by fastforce
        obtain sent' where i: "ingress_packets L E B ts idx from (sv\<lparr>sv_wg := wg'\<rparr>) ps = (sv', sent')"
            "sent = map (\<lambda>d. (d, from)) net_out @ sent'"
          using Cons.prems False a Some e by (auto split: prod.splits)
        have "same_registration (sv_wg sv) wg'"
          using encapsulate_same_registration [of "sv_wg sv" B idx rst "[]"] e by simp
        with Cons.IH [OF i(1)] i(2) no show ?thesis
          by (auto simp: same_tables_def intro: same_registration_trans)
      qed
    qed
  qed
qed (simp add: same_tables_def)

lemma ingress_spec:
  assumes "ingress L E B ts sv (Some (datagram, from)) = Some (sv', sent)"
  obtains wg' net_out ip_out res where
    "recv_from_network B (sv_wg sv) from datagram [] [] = Some (wg', net_out, ip_out, res)"
    "same_tables sv sv'"
    "sv_to_stack sv' = fold (send_or_drop ts)
       (case res of None \<Rightarrow> [] | Some idx \<Rightarrow> filter (sv_admitted L B sv idx) ip_out) (sv_to_stack sv)"
    "\<forall>(d, ep) \<in> set sent. ep = from"
proof -
  from assms obtain wg' net_out ip_out res where r:
    "recv_from_network B (sv_wg sv) from datagram [] [] = Some (wg', net_out, ip_out, res)"
    by (auto simp: ingress_def split: option.splits)
  let ?sv = "sv\<lparr>sv_wg := wg'\<rparr>"
  have tables: "same_tables sv ?sv"
    using recv_same_registration [OF r] by (simp add: same_tables_def)
  show thesis
  proof (cases res)
    case None
    with assms r tables show thesis by (intro that [OF r]) (auto simp: ingress_def)
  next
    case (Some idx)
    obtain sent' where i: "ingress_packets L E B ts idx from ?sv ip_out = (sv', sent')"
        "sent = map (\<lambda>d. (d, from)) net_out @ sent'"
      using assms r Some by (auto simp: ingress_def Let_def split: prod.splits)
    with ingress_packets_spec [OF i(1)] tables Some show thesis
      by (intro that [OF r]) (auto simp: same_tables_def intro: same_registration_trans)
  qed
qed

lemma ingress_error [simp]: "ingress L E B ts sv None = Some (sv, [])"
  by (simp add: ingress_def)

lemma endpoint_encapsulate:
  "encapsulate B wg idx packet net_out = (wg', net') \<Longrightarrow> endpoint wg' i = endpoint wg i"
  by (auto simp: encapsulate_def endpoint_def Let_def nth_list_update split: if_splits prod.splits tunn_result.splits)

lemma encapsulate_registration:
  "encapsulate B wg idx packet net_out = (wg', net') \<Longrightarrow> same_registration wg wg'"
  using encapsulate_same_registration [of wg B idx packet net_out] by simp

lemma encapsulate_other:
  "encapsulate B wg idx packet net_out = (wg', net') \<Longrightarrow> j \<noteq> idx \<Longrightarrow> wg_peers wg' ! j = wg_peers wg ! j"
  by (auto simp: encapsulate_def Let_def split: if_splits prod.splits tunn_result.splits)

lemma egress_cases:
  assumes "egress L B sv packet = (sv', sent)"
  obtains
    (dropped) "sv' = sv" "sent = []"
      "\<forall>dst. dst_address B packet = Some dst \<longrightarrow> peer_for L (sv_allowed sv) dst = None"
  | (routed) dst idx wg' net_out where "dst_address B packet = Some dst"
      "peer_for L (sv_allowed sv) dst = Some idx"
      "encapsulate B (sv_wg sv) idx packet [] = (wg', net_out)" "sv' = sv\<lparr>sv_wg := wg'\<rparr>"
      "sent = (case endpoint (sv_wg sv) idx of None \<Rightarrow> [] | Some ep \<Rightarrow> map (\<lambda>d. (d, ep)) net_out)"
proof (cases "dst_address B packet")
  case None
  with assms show thesis by (intro dropped) (auto simp: egress_def)
next
  case (Some dst)
  show thesis
  proof (cases "peer_for L (sv_allowed sv) dst")
    case None
    with assms Some show thesis by (intro dropped) (auto simp: egress_def)
  next
    case (Some idx)
    obtain wg' net_out where e: "encapsulate B (sv_wg sv) idx packet [] = (wg', net_out)" by fastforce
    with assms Some \<open>dst_address B packet = Some dst\<close> endpoint_encapsulate [OF e, of idx] show thesis
      by (intro routed) (auto simp: egress_def Let_def split: option.splits)
  qed
qed

lemma egress_tables: "egress L B sv packet = (sv', sent) \<Longrightarrow> same_tables sv sv' \<and> sv_to_stack sv' = sv_to_stack sv"
  by (erule egress_cases) (auto simp: same_tables_def dest: encapsulate_registration)

lemma tick_tables: "tick B now sv = (sv', sent) \<Longrightarrow> same_tables sv sv' \<and> sv_to_stack sv' = sv_to_stack sv"
  using update_timers_same_registration [of "sv_wg sv" B now "[]"]
  by (auto simp: tick_def same_tables_def Let_def split: prod.splits)

section \<open>The data plane as a transition system\<close>

text \<open>One step is a turn of one task, or the TCP/IP stack taking a packet from its queue.\<close>

inductive server_step ::
  "'net ipnet_lib \<Rightarrow> etherparse_lib \<Rightarrow> ('t, 'l, 'i) boringtun_lib \<Rightarrow> (bytes \<Rightarrow> 'q \<Rightarrow> 'q option)
    \<Rightarrow> ('q \<Rightarrow> (bytes \<times> 'q) option) \<Rightarrow> ('net, 't, 'l, 'q) server \<Rightarrow> ('net, 't, 'l, 'q) server \<Rightarrow> bool"
  for L E B ts rc where
  from_peer: "ingress L E B ts sv received = Some (sv', sent) \<Longrightarrow> server_step L E B ts rc sv sv'"
| to_peer: "egress L B sv packet = (sv', sent) \<Longrightarrow> server_step L E B ts rc sv sv'"
| timers: "tick B now sv = (sv', sent) \<Longrightarrow> server_step L E B ts rc sv sv'"
| stack_takes: "rc (sv_to_stack sv) = Some (p, q) \<Longrightarrow> server_step L E B ts rc sv (sv\<lparr>sv_to_stack := q\<rparr>)"

text \<open>
  The invariant: the tables are the configuration's, the endpoint is registered consistently, and every
  packet waiting for the stack was admitted for some peer.
\<close>

definition server_inv ::
  "'net ipnet_lib \<Rightarrow> ('t, 'l, 'i) boringtun_lib \<Rightarrow> ('q \<Rightarrow> bytes list) \<Rightarrow> 'net config
    \<Rightarrow> ('net, 't, 'l, 'q) server \<Rightarrow> bool" where
  "server_inv L B items cfg sv \<longleftrightarrow>
     sv_net sv = cfg_address cfg \<and> sv_allow_private sv = cfg_allow_private cfg \<and>
     sv_allowed sv = routing_table (cfg_peers cfg) \<and> wg_inv (sv_wg sv) \<and>
     length (items (sv_to_stack sv)) \<le> QUEUE \<and>
     (\<forall>p \<in> set (items (sv_to_stack sv)). \<exists>idx. sv_admitted L B sv idx p)"

text \<open>A freshly started server: its tables from \<open>start\<close>, nothing queued.\<close>

definition started ::
  "key_lib \<Rightarrow> ('t, 'l, 'i) boringtun_lib \<Rightarrow> ('q \<Rightarrow> bytes list) \<Rightarrow> 'net config
    \<Rightarrow> ('net, 't, 'l, 'q) server \<Rightarrow> bool" where
  "started K B items cfg sv \<longleftrightarrow>
     (\<exists>now tb. start_tables K B now cfg = Inr tb \<and> items (sv_to_stack sv) = [] \<and>
        sv_net sv = cfg_address cfg \<and> sv_allow_private sv = cfg_allow_private cfg \<and>
        sv_allowed sv = tb_allowed tb \<and> sv_wg sv = tb_wg tb)"

lemma routing_from_0: "routing_from 0 ps = routing_table ps"
  by (simp add: routing_from_def routing_table_def)

lemma start_peers_inv: "start_peers K B global tb ps = Inr tb' \<Longrightarrow> wg_inv (tb_wg tb) \<Longrightarrow> wg_inv (tb_wg tb')"
  by (induction ps arbitrary: tb) (fastforce simp: and_then_Inr_iff dest: add_peer_inv)+

lemma start_tables_spec:
  assumes "start_tables K B now cfg = Inr tb"
  obtains global where "parse_upstream (cfg_upstream cfg) = Inr global"
    "tb_allowed tb = routing_table (cfg_peers cfg)"
    "tb_upstreams tb = map (own_upstream global) (cfg_peers cfg)"
    "map (Inr \<circ> peer_public_key) (wg_peers (tb_wg tb)) = map (decode_key K \<circ> pc_public_key) (cfg_peers cfg)"
    "wg_inv (tb_wg tb)"
proof -
  from assms obtain global key where *: "parse_upstream (cfg_upstream cfg) = Inr global"
    "start_peers K B global \<lparr>tb_wg = wg_new B now key, tb_allowed = [], tb_upstreams = []\<rparr> (cfg_peers cfg) = Inr tb"
    by (auto simp: start_tables_def and_then_Inr_iff)
  have "wg_peers (wg_new B now key) = []" by (simp add: wg_new_def Let_def)
  with start_peers_tables [OF *(2)] start_peers_inv [OF *(2)] * show thesis
    by (intro that [of global]) (simp_all add: routing_from_0 wg_new_inv)
qed

lemma started_inv: "started K B items cfg sv \<Longrightarrow> server_inv L B items cfg sv"
  by (auto simp: started_def server_inv_def QUEUE_def elim!: start_tables_spec)

lemma same_tables_admitted:
  "same_tables sv sv' \<Longrightarrow> sv_admitted L B sv' idx p = sv_admitted L B sv idx p"
  by (simp add: same_tables_def)

lemma server_inv_tables:
  assumes "server_inv L B items cfg sv" "same_tables sv sv'"
    and "length (items (sv_to_stack sv')) \<le> QUEUE"
    and "\<forall>p \<in> set (items (sv_to_stack sv')). \<exists>idx. sv_admitted L B sv idx p"
  shows "server_inv L B items cfg sv'"
  using assms by (auto simp: server_inv_def same_tables_def intro: wg_inv_same)

lemma server_inv_queue:
  assumes "server_inv L B items cfg sv" "same_tables sv sv'"
    and "length (items (sv_to_stack sv')) \<le> length (items (sv_to_stack sv))"
    and "set (items (sv_to_stack sv')) \<subseteq> set (items (sv_to_stack sv))"
  shows "server_inv L B items cfg sv'"
  using assms(1,3,4) by (intro server_inv_tables [OF assms(1,2)]) (auto simp: server_inv_def)

lemma ingress_inv:
  assumes "bounded_channel ts rc items QUEUE" "server_inv L B items cfg sv"
    and "ingress L E B ts sv received = Some (sv', sent)"
  shows "server_inv L B items cfg sv'"
proof (cases received)
  case None
  with assms show ?thesis by simp
next
  case (Some r)
  obtain datagram "from" where r: "r = (datagram, from)" by (cases r)
  from assms(3) Some r obtain wg' net_out ip_out res where i:
    "same_tables sv sv'" "sv_to_stack sv' = fold (send_or_drop ts)
       (case res of None \<Rightarrow> [] | Some idx \<Rightarrow> filter (sv_admitted L B sv idx) ip_out) (sv_to_stack sv)"
    by (auto elim: ingress_spec)
  let ?ps = "case res of None \<Rightarrow> [] | Some idx \<Rightarrow> filter (sv_admitted L B sv idx) ip_out"
  obtain ys where ys: "items (sv_to_stack sv') = items (sv_to_stack sv) @ ys" "subseq ys ?ps"
    using bounded_channel.offers_prefix [OF assms(1), of ?ps "sv_to_stack sv"] i(2) by auto
  have "set ys \<subseteq> set ?ps" using ys(2) by (auto dest: list_emb_set)
  then have "\<forall>p \<in> set ys. \<exists>idx. sv_admitted L B sv idx p" by (cases res) auto
  with ys(1) assms(2) have "\<forall>p \<in> set (items (sv_to_stack sv')). \<exists>idx. sv_admitted L B sv idx p"
    by (auto simp: server_inv_def)
  moreover have "length (items (sv_to_stack sv')) \<le> QUEUE"
    unfolding i(2) using assms(2) by (intro bounded_channel.offers_bound [OF assms(1)]) (simp add: server_inv_def)
  ultimately show ?thesis using server_inv_tables [OF assms(2) i(1)] by blast
qed

lemma server_step_inv:
  assumes "bounded_channel ts rc items QUEUE" "server_inv L B items cfg sv" "server_step L E B ts rc sv sv'"
  shows "server_inv L B items cfg sv'"
  using assms(3)
proof (cases rule: server_step.cases)
  case (from_peer received sent)
  with assms(1,2) show ?thesis by (blast intro: ingress_inv)
next
  case (to_peer packet sent)
  from egress_tables [OF to_peer] show ?thesis by (auto intro: server_inv_queue [OF assms(2)])
next
  case (timers now sent)
  from tick_tables [OF timers] show ?thesis by (auto intro: server_inv_queue [OF assms(2)])
next
  case (stack_takes p q)
  have "items (sv_to_stack sv) = p # items q"
    using bounded_channel.receive_Some [OF assms(1) stack_takes(2)] .
  with stack_takes(1) show ?thesis
    by (auto intro!: server_inv_queue [OF assms(2)] simp: same_tables_def)
qed

interpretation server_system: transition_system "started K B items cfg" "server_step L E B ts rc"
    "\<lambda>sv. bounded_channel ts rc items QUEUE \<longrightarrow> server_inv L B items cfg sv"
  for K L E B ts rc items cfg
  by unfold_locales (auto intro: started_inv server_step_inv)

section \<open>Properties\<close>

text \<open>
  What brought a packet to the queue: in some turn of the run, the endpoint read it from a received datagram and
  attributed that datagram to peer \<open>idx\<close>.
\<close>

definition brought_by ::
  "'net ipnet_lib \<Rightarrow> etherparse_lib \<Rightarrow> ('t, 'l, 'i) boringtun_lib \<Rightarrow> (bytes \<Rightarrow> 'q \<Rightarrow> 'q option)
    \<Rightarrow> ('q \<Rightarrow> (bytes \<times> 'q) option) \<Rightarrow> ('net, 't, 'l, 'q) server \<Rightarrow> ('net, 't, 'l, 'q) server \<Rightarrow> nat \<Rightarrow> bytes \<Rightarrow> bool" where
  "brought_by L E B ts rc sv sv' idx p \<longleftrightarrow>
     (\<exists>sv1 sv2 datagram from sent wg net_out ip_out.
        (server_step L E B ts rc)\<^sup>*\<^sup>* sv sv1 \<and>
        recv_from_network B (sv_wg sv1) from datagram [] [] = Some (wg, net_out, ip_out, Some idx) \<and> p \<in> set ip_out \<and>
        ingress L E B ts sv1 (Some (datagram, from)) = Some (sv2, sent) \<and> (server_step L E B ts rc)\<^sup>*\<^sup>* sv2 sv')"

lemma brought_by_step:
  "brought_by L E B ts rc sv sv1 idx p \<Longrightarrow> server_step L E B ts rc sv1 sv2 \<Longrightarrow> brought_by L E B ts rc sv sv2 idx p"
  unfolding brought_by_def by (meson rtranclp.rtrancl_into_rtrancl)

lemma ingress_brings:
  assumes "bounded_channel ts rc items QUEUE" "(server_step L E B ts rc)\<^sup>*\<^sup>* sv sv1"
    and "ingress L E B ts sv1 received = Some (sv2, sent)" "p \<in> set (items (sv_to_stack sv2))"
  shows "p \<in> set (items (sv_to_stack sv1)) \<or> (\<exists>idx. brought_by L E B ts rc sv sv2 idx p \<and> sv_admitted L B sv1 idx p)"
proof (cases received)
  case (Some r)
  obtain datagram "from" where r: "r = (datagram, from)" by (cases r)
  from assms(3) Some r obtain wg net_out ip_out res where i:
    "recv_from_network B (sv_wg sv1) from datagram [] [] = Some (wg, net_out, ip_out, res)"
    "sv_to_stack sv2 = fold (send_or_drop ts)
       (case res of None \<Rightarrow> [] | Some idx \<Rightarrow> filter (sv_admitted L B sv1 idx) ip_out) (sv_to_stack sv1)"
    by (auto elim: ingress_spec)
  let ?ps = "case res of None \<Rightarrow> [] | Some idx \<Rightarrow> filter (sv_admitted L B sv1 idx) ip_out"
  obtain ys where ys: "items (sv_to_stack sv2) = items (sv_to_stack sv1) @ ys" "subseq ys ?ps"
    using bounded_channel.offers_prefix [OF assms(1), of ?ps "sv_to_stack sv1"] i(2) by auto
  show ?thesis
  proof (cases "p \<in> set ys")
    case True
    then have "p \<in> set ?ps" using ys(2) by (auto dest: list_emb_set)
    then obtain idx where idx: "res = Some idx" "p \<in> set ip_out" "sv_admitted L B sv1 idx p" by (cases res) auto
    then have "brought_by L E B ts rc sv sv2 idx p"
      using assms(2,3) Some r i(1) unfolding brought_by_def by blast
    with idx(3) show ?thesis by blast
  qed (use ys(1) assms(4) in simp)
qed (use assms(3,4) in simp)

lemma ingress_tables: "ingress L E B ts sv received = Some (sv', sent) \<Longrightarrow> same_tables sv sv'"
  by (cases received) (auto simp: same_tables_def elim: ingress_spec)

lemma server_step_tables: "server_step L E B ts rc sv sv' \<Longrightarrow> same_tables sv sv'"
  by (erule server_step.cases) (auto simp: same_tables_def dest: egress_tables tick_tables ingress_tables)

lemma queued_brought:
  assumes "bounded_channel ts rc items QUEUE" "items (sv_to_stack sv) = []" "(server_step L E B ts rc)\<^sup>*\<^sup>* sv sv'"
  shows "\<forall>p \<in> set (items (sv_to_stack sv')). \<exists>idx. brought_by L E B ts rc sv sv' idx p \<and> sv_admitted L B sv' idx p"
  using assms(3)
proof (induction rule: rtranclp_induct)
  case (step y z)
  have keep: "\<exists>idx. brought_by L E B ts rc sv z idx p \<and> sv_admitted L B z idx p" if "p \<in> set (items (sv_to_stack y))" for p
    using step.IH that brought_by_step [OF _ step.hyps(2)] same_tables_admitted [OF server_step_tables [OF step.hyps(2)]]
    by blast
  show ?case
    using step.hyps(2)
  proof (cases rule: server_step.cases)
    case (from_peer received sent)
    show ?thesis
      using ingress_brings [OF assms(1) step.hyps(1) from_peer] keep same_tables_admitted [OF server_step_tables [OF step.hyps(2)]]
      by blast
  next
    case (to_peer packet sent)
    then show ?thesis using keep egress_tables by metis
  next
    case (timers now sent)
    then show ?thesis using keep tick_tables by metis
  next
    case (stack_takes p q)
    have "items (sv_to_stack y) = p # items q" using bounded_channel.receive_Some [OF assms(1) stack_takes(2)] .
    then show ?thesis using keep stack_takes(1) by simp
  qed
qed (simp add: assms(2))

text \<open>
  C1: peers are isolated from each other, in every reachable state of a server started from a validated
  configuration: whatever waits for the TCP/IP stack was read from a datagram of a peer that owns its source address,
  and no other peer owns that address; it is for a destination the documented isolation blocks admit, and for no
  address of any peer or of the tunnel subnet; and the queue never exceeds its bound.
\<close>

theorem server_isolates_peers:
  assumes "ipnet_documented L" "bounded_channel ts rc items QUEUE" "validate K L cfg = Inr ()"
    and "started K B items cfg sv" "(server_step L E B ts rc)\<^sup>*\<^sup>* sv sv'" "p \<in> set (items (sv_to_stack sv'))"
  shows "length (items (sv_to_stack sv')) \<le> QUEUE \<and>
     (\<exists>idx src dst. brought_by L E B ts rc sv sv' idx p \<and> src_address p = Some src \<and> dst_address B p = Some dst \<and>
        (\<forall>j. owns L (routing_table (cfg_peers cfg)) j src \<longleftrightarrow> j = idx) \<and>
        isolation_spec (net_contains L (cfg_address cfg)) (cfg_allow_private cfg) dst \<and>
        \<not> net_contains L (cfg_address cfg) dst \<and>
        (\<forall>j. \<not> owns L (routing_table (cfg_peers cfg)) j dst))"
proof -
  have inv: "server_inv L B items cfg sv'"
    using server_system.inv_reachable [OF assms(4,5)] assms(2) by blast
  have "items (sv_to_stack sv) = []" using assms(4) by (auto simp: started_def)
  from queued_brought [OF assms(2) this assms(5)] assms(6) obtain idx where
    idx: "brought_by L E B ts rc sv sv' idx p" "sv_admitted L B sv' idx p" by blast
  then obtain src dst where a: "src_address p = Some src" "dst_address B p = Some dst"
      "peer_for L (routing_table (cfg_peers cfg)) src = Some idx"
      "allowed_dst L (cfg_address cfg) dst (cfg_allow_private cfg)"
    using inv by (auto simp: admitted_def server_inv_def split: option.splits)
  have nets: "nets_ok L (cfg_address cfg) (all_nets (cfg_peers cfg))"
    using assms(3) by (intro config_ok_nets) (simp add: validate_ok_iff)
  have owner: "owns L (routing_table (cfg_peers cfg)) j src \<longleftrightarrow> j = idx" for j
    using a(3) nets_ok_unique_owner [OF assms(1) nets] peer_table.lookup_exclusive by (metis option.inject)
  have out: "\<not> net_contains L (cfg_address cfg) dst" using a(4) by (rule allowed_dst_tunnel)
  then have "\<forall>j. \<not> owns L (routing_table (cfg_peers cfg)) j dst"
    using nets_ok_inside [OF assms(1) nets] by blast
  with idx(1) a(1,2,4) owner out inv show ?thesis
    by (auto simp: server_inv_def allowed_dst_blocks)
qed

definition ex_packet :: bytes where
  "ex_packet = [0x45, 0, 0, 20, 0, 0, 0, 0, 64, 6, 0, 0, 10, 7, 0, 2, 93, 184, 216, 34]"

definition ex_server :: "(ip_addr \<times> nat, nat, nat, bytes list) server" where
  "ex_server = \<lparr>sv_net = cfg_address ex_config, sv_allow_private = False,
     sv_allowed = routing_table (cfg_peers ex_config), sv_wg = ex_wg, sv_to_stack = []\<rparr>"

lemma ex_started: "started nibble_lib ex_boringtun id ex_config ex_server"
proof -
  obtain w where
    "add_peer ex_boringtun (wg_new ex_boringtun 0 (replicate 32 1)) (replicate 32 2) None None = Inr (w, 0)"
    "add_peer ex_boringtun w (replicate 32 3) None None = Inr (ex_wg, 1)"
    by (rule ex_adds)
  then have "start_tables nibble_lib ex_boringtun 0 ex_config =
      Inr \<lparr>tb_wg = ex_wg, tb_allowed = routing_table (cfg_peers ex_config),
        tb_upstreams = [\<lparr>up_addr = ''h:1080'', up_auth = None\<rparr>, \<lparr>up_addr = ''h:1080'', up_auth = None\<rparr>]\<rparr>"
    by (simp add: start_tables_def ex_config_def ex_upstream_ok ex_peer_def routing_table_def)
  then show ?thesis
    unfolding started_def by (intro exI conjI, assumption) (simp_all add: ex_server_def ex_config_def)
qed

lemma ex_recv_data:
  "\<exists>wg'. recv_from_network ex_boringtun ex_wg from ([4, 0, 0, 0, 0] @ p) [] [] = Some (wg', [], [p], Some 0)"
proof -
  have "decap_loop ex_boringtun ip ([4, 0, 0, 0, 0] @ p) t l [] [] = Some (t, l, [], [p], Some True)" for ip t l
    by (subst decap_loop.simps) (simp add: ex_boringtun_def)
  moreover have "bt_verify ex_boringtun ip ([4, 0, 0, 0, 0] @ p) l = (l, Inr (PacketData 0))" for ip l
    by (simp add: ex_boringtun_def be_word_def)
  ultimately show ?thesis
    by (simp add: recv_from_network_def ex_wg_value classify_def Let_def)
qed

lemma ex_packet_addrs:
  "src_address ex_packet = Some (V4 (v4_addr 10 7 0 2))"
  "dst_address ex_boringtun ex_packet = Some (V4 (v4_addr 93 184 216 34))"
  by (simp_all add: src_address_def dst_address_def ex_boringtun_def ex_dst_def ex_packet_def
      be_word_def v4_addr_def word_eq_iff_unsigned [where 'a = nat])

lemma ex_ingress:
  "\<exists>sv' sent. ingress cidr_lib ex_etherparse ex_boringtun (list_send QUEUE) ex_server
      (Some ([4, 0, 0, 0, 0] @ ex_packet, from)) = Some (sv', sent) \<and> sv_to_stack sv' = [ex_packet]"
proof -
  obtain wg' where "recv_from_network ex_boringtun ex_wg from ([4, 0, 0, 0, 0] @ ex_packet) [] [] = Some (wg', [], [ex_packet], Some 0)"
    using ex_recv_data by blast
  then show ?thesis
    by (simp add: ingress_def ex_server_def ex_packet_addrs ex_routes send_or_drop_def list_send_def QUEUE_def del: append.simps)
qed

definition ex_reply :: bytes where
  "ex_reply = [0x45, 0, 0, 20, 0, 0, 0, 0, 64, 6, 0, 0, 93, 184, 216, 34, 10, 7, 0, 6]"

text \<open>The example server after the second peer has been heard from.\<close>

definition ex_met_server :: "(ip_addr \<times> nat, nat, nat, bytes list) server" where
  "ex_met_server = ex_server\<lparr>sv_wg := ex_wg\<lparr>wg_peers := (wg_peers ex_wg)
     [1 := (wg_peers ex_wg ! 1)\<lparr>peer_endpoint := Some (sock (V4 7) 9)\<rparr>]\<rparr>\<rparr>"

lemma ex_egress:
  "\<exists>sv'. egress cidr_lib ex_boringtun ex_met_server ex_reply = (sv', [(4 # ex_reply, sock (V4 7) 9)])"
proof -
  have "dst_address ex_boringtun ex_reply = Some (V4 (v4_addr 10 7 0 6))"
    by (simp add: dst_address_def ex_boringtun_def ex_dst_def ex_reply_def be_word_def v4_addr_def
        word_eq_iff_unsigned [where 'a = nat])
  moreover have "peer_for cidr_lib (routing_table (cfg_peers ex_config)) (V4 (v4_addr 10 7 0 6)) = Some 1"
    by (simp add: peer_for_def ex_config_def routing_table_def ex_peer_def cidr_lib_def v4_addr_def)
  ultimately show ?thesis
    by (simp add: egress_def ex_met_server_def ex_server_def ex_wg_value encapsulate_def ex_boringtun_def
        endpoint_def Let_def)
qed

theorem server_isolates_peers_witness:
  "\<exists>sv' idx. (server_step cidr_lib ex_etherparse ex_boringtun (list_send QUEUE) list_receive)\<^sup>*\<^sup>* ex_server sv' \<and>
     sv_to_stack sv' = [ex_packet] \<and>
     brought_by cidr_lib ex_etherparse ex_boringtun (list_send QUEUE) list_receive ex_server sv' idx ex_packet \<and>
     owns cidr_lib (routing_table (cfg_peers ex_config)) idx (V4 (v4_addr 10 7 0 2))"
proof -
  obtain sv' sent where i: "ingress cidr_lib ex_etherparse ex_boringtun (list_send QUEUE) ex_server
      (Some ([4, 0, 0, 0, 0] @ ex_packet, sock (V4 7) 9)) = Some (sv', sent)" "sv_to_stack sv' = [ex_packet]"
    using ex_ingress by blast
  then have steps: "(server_step cidr_lib ex_etherparse ex_boringtun (list_send QUEUE) list_receive)\<^sup>*\<^sup>* ex_server sv'"
    by (blast intro: from_peer)
  show ?thesis
    using server_isolates_peers [OF cidr_lib_documented list_channel.bounded_channel_axioms
        ex_config_valid ex_started steps, of ex_packet] steps i(2) ex_packet_addrs(1)
    by auto
qed

text \<open>
  C12: a validated configuration whose peers have distinct keys starts, and the tables it starts with are
  the configuration's: peer \<open>i\<close> of the endpoint has the key of entry \<open>i\<close>, routing entries carry their
  peer's index, and a peer without an upstream of its own gets the global one.
\<close>

theorem validated_config_starts:
  assumes "validate K L cfg = Inr ()" "distinct (map (decode_key K \<circ> pc_public_key) (cfg_peers cfg))"
  shows "\<exists>tb global. start_tables K B now cfg = Inr tb \<and> parse_upstream (cfg_upstream cfg) = Inr global \<and>
     tb_allowed tb = routing_table (cfg_peers cfg) \<and>
     map (Inr \<circ> peer_public_key) (wg_peers (tb_wg tb)) = map (decode_key K \<circ> pc_public_key) (cfg_peers cfg) \<and>
     tb_upstreams tb = map (\<lambda>p. case pc_upstream p of None \<Rightarrow> global
        | Some u \<Rightarrow> (case parse_upstream u of Inr up \<Rightarrow> up | Inl _ \<Rightarrow> global)) (cfg_peers cfg)"
proof -
  have ok: "config_ok K L cfg" using assms(1) by (simp add: validate_ok_iff)
  then obtain key global where k: "decode_key K (cfg_private_key cfg) = Inr key"
      "parse_upstream (cfg_upstream cfg) = Inr global"
    by (auto simp: config_ok_def is_ok_iff)
  have "is_ok (start_peers K B global \<lparr>tb_wg = wg_new B now key, tb_allowed = [], tb_upstreams = []\<rparr> (cfg_peers cfg))"
    using ok assms(2) by (intro start_peers_succeeds) (simp_all add: config_ok_def wg_new_def Let_def)
  then obtain tb where tb: "start_tables K B now cfg = Inr tb"
    using k by (auto simp: start_tables_def is_ok_iff)
  then show ?thesis
    by (rule start_tables_spec) (use tb in \<open>auto simp: own_upstream_def fun_eq_iff\<close>)
qed

theorem validated_config_starts_witness:
  "\<exists>tb. start_tables nibble_lib ex_boringtun 0 ex_config = Inr tb \<and> length (wg_peers (tb_wg tb)) = 2"
proof -
  have "distinct (map (decode_key nibble_lib \<circ> pc_public_key) (cfg_peers ex_config))"
    by (simp add: ex_config_def ex_peer_def replicate_key_neq)
  from validated_config_starts [OF ex_config_valid this, of ex_boringtun 0]
  show ?thesis by (auto simp: ex_config_def dest!: map_eq_imp_length_eq)
qed

text \<open>
  A packet from the stack is encrypted for the peer that owns its destination and for no other, and
  what is sent goes to that peer's current endpoint; a packet no peer owns changes and sends nothing.
\<close>

theorem egress_routes_to_owner:
  assumes "egress L B sv packet = (sv', sent)"
  shows "(sent \<noteq> [] \<longrightarrow> (\<exists>dst idx ep. dst_address B packet = Some dst \<and> peer_for L (sv_allowed sv) dst = Some idx \<and>
        endpoint (sv_wg sv) idx = Some ep \<and>
        sent = map (\<lambda>d. (d, ep)) (snd (encapsulate B (sv_wg sv) idx packet [])))) \<and>
     (\<forall>j. (\<forall>dst. dst_address B packet = Some dst \<longrightarrow> peer_for L (sv_allowed sv) dst \<noteq> Some j) \<longrightarrow>
        wg_peers (sv_wg sv') ! j = wg_peers (sv_wg sv) ! j) \<and>
     (\<forall>j. endpoint (sv_wg sv') j = endpoint (sv_wg sv) j) \<and> sv_to_stack sv' = sv_to_stack sv"
  using assms
proof (cases rule: egress_cases)
  case (routed dst idx wg' net_out)
  then show ?thesis
    by (auto simp: encapsulate_other endpoint_encapsulate split: option.splits)
qed auto

theorem egress_routes_to_owner_witness:
  "\<exists>sv'. egress cidr_lib ex_boringtun ex_met_server ex_reply = (sv', [(4 # ex_reply, sock (V4 7) 9)]) \<and>
     endpoint (sv_wg sv') 0 = endpoint (sv_wg ex_met_server) 0"
proof -
  obtain sv' where e: "egress cidr_lib ex_boringtun ex_met_server ex_reply = (sv', [(4 # ex_reply, sock (V4 7) 9)])"
    using ex_egress by blast
  with egress_routes_to_owner [OF e] show ?thesis by blast
qed

end
