(* ===== verification/Flow_Egress.thy ===== *)
theory Flow_Egress
  imports Flow Flow_Admission Server
begin

text \<open>
  \<open>crates/server/src/flow.rs\<close>, whole flows: \<open>dial\<close>, \<open>handle_tcp\<close>, \<open>udp_relay\<close> and \<open>dns_over_tcp\<close> with the
  connections they open, and the hand-over of an accepted stream in \<open>crates/server/src/lib.rs\<close>. Every
  connection is recorded as a contact, so that where a flow's bytes can go is a statement about the record.
\<close>

section \<open>Contacts\<close>

text \<open>
  A SOCKS5 CONNECT through a proxy to a target, the control connection of an association, and the UDP socket
  connected to the relay the proxy named.
\<close>

datatype contact =
    SocksConnect string "(string \<times> string) option" socket_addr
  | SocksAssociate string
  | RelaySocket socket_addr

section \<open>One SOCKS5 CONNECT\<close>

text \<open>
  \<open>tokio-socks\<close> is third-party: its two entry points, which answer an error or a stream, or nothing
  within the given number of seconds.
\<close>

record 's socks_lib =
  sl_connect :: "string \<Rightarrow> socket_addr \<Rightarrow> nat \<Rightarrow> (unit + 's) option"
  sl_connect_with_password :: "string \<Rightarrow> socket_addr \<Rightarrow> string \<Rightarrow> string \<Rightarrow> nat \<Rightarrow> (unit + 's) option"

definition DIAL_TIMEOUT :: nat where
  "DIAL_TIMEOUT = 10"

datatype dial_error = DialRefused | DialTimedOut socket_addr

definition dial_socks :: "'s socks_lib \<Rightarrow> upstream \<Rightarrow> socket_addr \<Rightarrow> contact \<times> (dial_error + 's)" where
  "dial_socks S up dst =
     (SocksConnect (up_addr up) (up_auth up) dst,
      case (case up_auth up of
              Some (user, pass) \<Rightarrow> sl_connect_with_password S (up_addr up) dst user pass DIAL_TIMEOUT
            | None \<Rightarrow> sl_connect S (up_addr up) dst DIAL_TIMEOUT) of
        Some (Inr remote) \<Rightarrow> Inr remote
      | Some (Inl _) \<Rightarrow> Inl DialRefused
      | None \<Rightarrow> Inl (DialTimedOut dst))"

datatype tcp_outcome = TcpDialFailed dial_error | TcpCopied bool

text \<open>\<open>copy\<close> is \<open>tokio::io::copy_bidirectional\<close> on the peer's stream and the proxied one.\<close>

definition handle_tcp ::
  "'s socks_lib \<Rightarrow> ('s \<Rightarrow> bool) \<Rightarrow> upstream \<Rightarrow> socket_addr \<Rightarrow> contact list \<times> tcp_outcome" where
  "handle_tcp S copy up dst =
     (case dial_socks S up dst of
        (c, Inl e) \<Rightarrow> ([c], TcpDialFailed e)
      | (c, Inr remote) \<Rightarrow> ([c], TcpCopied (copy remote)))"

section \<open>DNS over TCP, with its connections\<close>

text \<open>
  One turn: what the peer's stream reads (none on an error), the proxy library at that moment, what the
  resolver sends on the proxied stream (none on an I/O error or a time-out), and whether the write back succeeds.
\<close>

record 's lookup =
  lk_read :: "bytes option"
  lk_socks :: "'s socks_lib"
  lk_exchange :: "'s \<Rightarrow> bytes option"
  lk_write :: bool

record dns_log =
  dl_contacts :: "contact list"
  dl_asked :: "bytes list"
  dl_answered :: "bytes list"

fun dns_over_tcp :: "upstream \<Rightarrow> socket_addr \<Rightarrow> nat \<Rightarrow> 's lookup list \<Rightarrow> dns_log \<Rightarrow> dns_log" where
  "dns_over_tcp up target cap [] s = s"
| "dns_over_tcp up target cap (lk # lks) s =
     (case lk_read lk of
        None \<Rightarrow> s
      | Some query \<Rightarrow>
          if query = [] then s
          else (case dial_socks (lk_socks lk) up target of
              (c, Inl _) \<Rightarrow> dns_over_tcp up target cap lks (s\<lparr>dl_contacts := dl_contacts s @ [c]\<rparr>)
            | (c, Inr remote) \<Rightarrow>
                (let s' = s\<lparr>dl_contacts := dl_contacts s @ [c], dl_asked := dl_asked s @ [dns_frame query]\<rparr>
                 in case Option.bind (lk_exchange lk remote) dns_read of
                      None \<Rightarrow> dns_over_tcp up target cap lks s'
                    | Some answer \<Rightarrow>
                        if lk_write lk
                        then dns_over_tcp up target cap lks (s'\<lparr>dl_answered := dl_answered s' @ [clip_answer cap answer]\<rparr>)
                        else s')))"

definition lookup_event :: "upstream \<Rightarrow> socket_addr \<Rightarrow> 's lookup \<Rightarrow> dns_event" where
  "lookup_event up target lk =
     (case lk_read lk of
        None \<Rightarrow> DnsEnd
      | Some query \<Rightarrow>
          (case snd (dial_socks (lk_socks lk) up target) of
             Inl _ \<Rightarrow> DnsQuery query False None (lk_write lk)
           | Inr remote \<Rightarrow> DnsQuery query True (lk_exchange lk remote) (lk_write lk)))"

text \<open>Forgetting the connections, this is the loop of \<open>Flow\<close>.\<close>

lemma dns_over_tcp_run:
  "dns_run cap (map (lookup_event up target) lks) (dl_asked s, dl_answered s) =
     (dl_asked (dns_over_tcp up target cap lks s), dl_answered (dns_over_tcp up target cap lks s))"
proof (induction lks arbitrary: s)
  case (Cons lk lks)
  show ?case
  proof (cases "lk_read lk")
    case None
    then have "lookup_event up target lk = DnsEnd" by (simp add: lookup_event_def)
    with None show ?thesis by simp
  next
    case (Some query)
    obtain c r where d: "dial_socks (lk_socks lk) up target = (c, r)" by fastforce
    show ?thesis
    proof (cases r)
      case (Inl e)
      have "lookup_event up target lk = DnsQuery query False None (lk_write lk)"
        using Some d Inl by (simp add: lookup_event_def)
      with Some d Inl Cons.IH [of "s\<lparr>dl_contacts := dl_contacts s @ [c]\<rparr>"] show ?thesis by simp
    next
      case (Inr remote)
      have ev: "lookup_event up target lk = DnsQuery query True (lk_exchange lk remote) (lk_write lk)"
        using Some d Inr by (simp add: lookup_event_def)
      let ?s = "s\<lparr>dl_contacts := dl_contacts s @ [c], dl_asked := dl_asked s @ [dns_frame query]\<rparr>"
      have e: "(case lk_exchange lk remote of None \<Rightarrow> None | Some st \<Rightarrow> dns_read st)
          = Option.bind (lk_exchange lk remote) dns_read"
        by (cases "lk_exchange lk remote") simp_all
      show ?thesis
      proof (cases "Option.bind (lk_exchange lk remote) dns_read")
        case None
        with Some d Inr ev e Cons.IH [of ?s] show ?thesis by simp
      next
        case (Some answer)
        with \<open>lk_read lk = Some query\<close> d Inr ev e
          Cons.IH [of "?s\<lparr>dl_answered := dl_answered ?s @ [clip_answer cap answer]\<rparr>"]
        show ?thesis by (simp add: Let_def)
      qed
    qed
  qed
qed simp

lemma fst_dial_socks [simp]: "fst (dial_socks S up dst) = SocksConnect (up_addr up) (up_auth up) dst"
  by (simp add: dial_socks_def)

lemma dial_socks_contact:
  "dial_socks S up dst = (c, r) \<Longrightarrow> c = SocksConnect (up_addr up) (up_auth up) dst"
  by (simp add: dial_socks_def)

lemma dns_over_tcp_contacts:
  "set (dl_contacts (dns_over_tcp up target cap lks s)) \<subseteq>
     set (dl_contacts s) \<union> {SocksConnect (up_addr up) (up_auth up) target}"
proof (induction lks arbitrary: s)
  case (Cons lk lks)
  obtain c r where d: "dial_socks (lk_socks lk) up target = (c, r)" by fastforce
  note c = dial_socks_contact [OF d]
  have step: "set (dl_contacts (dns_over_tcp up target cap lks t)) \<subseteq>
      set (dl_contacts s) \<union> {SocksConnect (up_addr up) (up_auth up) target}"
    if "dl_contacts t = dl_contacts s @ [c]" for t
    using Cons.IH [of t] that c by auto
  show ?case
  proof (cases r)
    case (Inl e)
    with d step show ?thesis by (auto split: option.split)
  next
    case (Inr remote)
    with d step c show ?thesis by (auto simp: Let_def split: option.split)
  qed
qed auto

section \<open>UDP flows, with their connections\<close>

text \<open>
  What an association meets: whether it ends within its ten seconds, the control connection (none when the
  proxy refuses it) with the bytes the proxy will send, the proxy's address, and whether the relay socket can
  be bound and connected.
\<close>

record assoc_env =
  ae_in_time :: bool
  ae_control :: "conn option"
  ae_proxy_ip :: ip_addr
  ae_sockets :: bool

definition attempt_associate :: "upstream \<Rightarrow> assoc_env \<Rightarrow> attempt \<times> contact list" where
  "attempt_associate up env =
     (if \<not> ae_in_time env then (AssociateTimedOut, [SocksAssociate (up_addr up)])
      else (case ae_control env of
          None \<Rightarrow> (AssociateFailed, [SocksAssociate (up_addr up)])
        | Some c \<Rightarrow>
            (case associate up (ae_proxy_ip env) (ae_sockets env) c of
               (_, Inl _) \<Rightarrow> (AssociateFailed, [SocksAssociate (up_addr up)])
             | (_, Inr (local, relay)) \<Rightarrow> (Associated, [SocksAssociate (up_addr up), RelaySocket relay]))))"

record flow_log =
  lg_contacts :: "contact list"
  lg_relayed :: "relayed option"
  lg_dns :: "dns_log option"

definition dns_log_of :: "contact list \<Rightarrow> dns_log \<Rightarrow> flow_log" where
  "dns_log_of cs l = \<lparr>lg_contacts = cs @ dl_contacts l, lg_relayed = None, lg_dns = Some l\<rparr>"

definition no_dns :: dns_log where
  "no_dns = \<lparr>dl_contacts = [], dl_asked = [], dl_answered = []\<rparr>"

text \<open>
  \<open>handle_udp\<close> with everything it runs. The association is tried unless the lookup is forced elsewhere or the
  upstream is known not to relay UDP.
\<close>

definition serve_udp ::
  "string set \<Rightarrow> upstream \<Rightarrow> socket_addr \<Rightarrow> socket_addr option \<Rightarrow> u16 \<Rightarrow> nat \<Rightarrow> assoc_env \<Rightarrow> relay_event list
    \<Rightarrow> 's lookup list \<Rightarrow> string set \<times> flow_log" where
  "serve_udp no_udp up dst dns mtu idle env relay_events lookups =
     (let (attempt, cs) = attempt_associate up env;
          (no_udp', outcome) = handle_udp no_udp up dst dns idle attempt;
          tried = (if up_addr up \<in> no_udp then [] else cs)
      in (no_udp',
          case outcome of
            DnsForced t \<Rightarrow> dns_log_of [] (dns_over_tcp up t (payload_cap mtu) lookups no_dns)
          | Relayed _ \<Rightarrow>
              \<lparr>lg_contacts = tried, lg_relayed = Some (relay_run dst (payload_cap mtu) relay_events \<lparr>to_relay = [], to_peer = []\<rparr>),
               lg_dns = None\<rparr>
          | DnsFallback t \<Rightarrow> dns_log_of tried (dns_over_tcp up t (payload_cap mtu) lookups no_dns)
          | Dropped \<Rightarrow> \<lparr>lg_contacts = tried, lg_relayed = None, lg_dns = None\<rparr>))"

section \<open>An accepted stream\<close>

datatype 's stream =
    StreamTcp "'s socks_lib" "'s \<Rightarrow> bool"
  | StreamUdp assoc_env "relay_event list" "'s lookup list"
  | StreamOther

fun serve_stream ::
  "string set \<Rightarrow> upstream \<Rightarrow> socket_addr option \<Rightarrow> u16 \<Rightarrow> nat \<Rightarrow> socket_addr \<Rightarrow> 's stream \<Rightarrow> string set \<times> flow_log" where
  "serve_stream no_udp up dns mtu idle dst (StreamTcp S copy) =
     (no_udp, \<lparr>lg_contacts = fst (handle_tcp S copy up dst), lg_relayed = None, lg_dns = None\<rparr>)"
| "serve_stream no_udp up dns mtu idle dst (StreamUdp env relay_events lookups) =
     serve_udp no_udp up dst dns mtu idle env relay_events lookups"
| "serve_stream no_udp up dns mtu idle dst StreamOther =
     (no_udp, \<lparr>lg_contacts = [], lg_relayed = None, lg_dns = None\<rparr>)"

section \<open>Where a flow's bytes go\<close>

text \<open>
  The relay a proxy named on a flow's control connection: the bytes it sent there begin with a conforming reply, and
  the relay is the address bound in it, the proxy's own where that is a wildcard.
\<close>

definition relays_named :: "upstream \<Rightarrow> 's stream \<Rightarrow> socket_addr set" where
  "relays_named up stream =
     (case stream of
        StreamUdp env relay_events lookups \<Rightarrow>
          {r. \<exists>c reply rest bound sent. ae_control env = Some c \<and> c_in c = reply @ rest \<and> conforming up reply bound sent \<and>
             r = (if ip_is_unspecified (sa_ip bound) then sock (ae_proxy_ip env) (sa_port bound) else bound)}
      | _ \<Rightarrow> {})"

lemma conforming_unique:
  assumes "conforming up reply bound sent" "conforming up reply' bound' sent'" "reply @ rest = reply' @ rest'"
  shows "bound = bound'"
proof -
  let ?c = "\<lparr>c_in = reply @ rest, c_out = [], c_writes = length sent + length sent'\<rparr>"
  have "exchanged ?c reply sent \<lparr>c_in = rest, c_out = sent, c_writes = length sent'\<rparr>"
    "exchanged ?c reply' sent' \<lparr>c_in = rest', c_out = sent', c_writes = length sent\<rparr>"
    using assms(3) by (simp_all add: exchanged_def)
  with assms(1,2) have "\<exists>c'. negotiate up ?c = (c', Inr bound)" "\<exists>c'. negotiate up ?c = (c', Inr bound')"
    unfolding negotiate_iff by blast+
  then show ?thesis by auto
qed

text \<open>It names at most one.\<close>

lemma one_relay_named: "r \<in> relays_named up stream \<Longrightarrow> r' \<in> relays_named up stream \<Longrightarrow> r = r'"
  by (auto simp: relays_named_def split: stream.splits dest: conforming_unique)

text \<open>
  The contacts a flow through \<open>up\<close> may make: the proxy of \<open>up\<close>, with its credentials, for a target among \<open>targets\<close>; and
  a relay among those \<open>named\<close>.
\<close>

fun contact_ok :: "upstream \<Rightarrow> socket_addr set \<Rightarrow> socket_addr set \<Rightarrow> contact \<Rightarrow> bool" where
  "contact_ok up targets named (SocksConnect via auth t) \<longleftrightarrow> via = up_addr up \<and> auth = up_auth up \<and> t \<in> targets"
| "contact_ok up targets named (SocksAssociate via) \<longleftrightarrow> via = up_addr up"
| "contact_ok up targets named (RelaySocket r) \<longleftrightarrow> r \<in> named"

lemma attempt_contacts:
  "list_all (contact_ok up targets (relays_named up (StreamUdp env relay_events lookups))) (snd (attempt_associate up env))"
proof -
  have "relay \<in> relays_named up (StreamUdp env relay_events lookups)"
    if "ae_control env = Some c" "associate up (ae_proxy_ip env) (ae_sockets env) c = (c', Inr (local, relay))" for c c' local relay
  proof -
    from that(2) obtain bound reply sent where "conforming up reply bound sent" "exchanged c reply sent c'"
      "relay = relay_address (ae_proxy_ip env) bound"
      unfolding associate_iff negotiate_iff by blast
    with that(1) show ?thesis
      unfolding relays_named_def stream.case exchanged_def relay_address_def mem_Collect_eq by blast
  qed
  then show ?thesis
    by (auto simp: attempt_associate_def split: option.split prod.split sum.split)
qed

lemma dns_log_contacts:
  "t \<in> targets \<Longrightarrow> list_all (contact_ok up targets named) cs \<Longrightarrow>
   list_all (contact_ok up targets named) (lg_contacts (dns_log_of cs (dns_over_tcp up t cap lookups no_dns)))"
  using dns_over_tcp_contacts [of up t cap lookups no_dns]
  by (auto simp: dns_log_of_def no_dns_def list_all_iff)

lemma handle_udp_target:
  "handle_udp no_udp up dst dns idle attempt = (no_udp', outcome) \<Longrightarrow>
   (\<forall>t. outcome = DnsForced t \<longrightarrow> dns = Some t) \<and> (\<forall>t. outcome = DnsFallback t \<longrightarrow> t = dst)"
  by (auto simp: handle_udp_def Let_def split: bool.splits option.splits if_splits prod.splits)

lemma serve_stream_contacts:
  assumes "serve_stream no_udp up dns mtu idle dst stream = (no_udp', log)"
  shows "list_all (contact_ok up (insert dst (set_option dns)) (relays_named up stream)) (lg_contacts log)"
proof (cases stream)
  case (StreamTcp S copy)
  with assms show ?thesis
    by (auto simp: handle_tcp_def split: prod.splits sum.splits dest: dial_socks_contact)
next
  case (StreamUdp env relay_events lookups)
  let ?T = "insert dst (set_option dns)"
  obtain attempt cs where a: "attempt_associate up env = (attempt, cs)" by fastforce
  obtain n outcome where h: "handle_udp no_udp up dst dns idle attempt = (n, outcome)" by fastforce
  have cs: "list_all (contact_ok up ?T (relays_named up stream)) (if up_addr up \<in> no_udp then [] else cs)"
    using attempt_contacts [of up ?T env relay_events lookups] a StreamUdp by simp
  note t = handle_udp_target [OF h]
  have "lg_contacts log = lg_contacts (snd (serve_udp no_udp up dst dns mtu idle env relay_events lookups))"
    using assms StreamUdp by simp
  then show ?thesis
    using a h cs t by (cases outcome) (simp_all add: serve_udp_def dns_log_contacts)
qed (use assms in auto)

lemma contacts_mono:
  assumes "list_all (contact_ok up A named) cs" "A \<subseteq> A'"
  shows "list_all (contact_ok up A' named) cs"
proof -
  have "contact_ok up A named c \<Longrightarrow> contact_ok up A' named c" for c
    using assms(2) by (cases c) auto
  with assms(1) show ?thesis by (auto simp: list_all_iff)
qed

lemma serve_stream_relayed:
  assumes "serve_stream no_udp up dns mtu idle dst stream = (no_udp', log)" "lg_relayed log = Some r"
  shows "\<forall>d \<in> set (to_relay r). \<exists>p. parse_udp d = Some (dst, p)"
proof -
  obtain cap es where "r = relay_run dst cap es \<lparr>to_relay = [], to_peer = []\<rparr>"
    using assms by (cases stream)
      (auto simp: serve_udp_def dns_log_of_def Let_def split: prod.splits udp_outcome.splits)
  then show ?thesis by (auto simp: relay_run_spec udp_codec.dec_enc)
qed

lemma own_upstream_parses:
  assumes "peer_ok K p" "parse_upstream g = Inr global"
  shows "parse_upstream (unwrap_or g (pc_upstream p)) = Inr (own_upstream global p)"
  using assms by (cases "pc_upstream p") (auto simp: peer_ok_def own_upstream_def is_ok_iff)

section \<open>Properties\<close>

text \<open>
  C4: nothing leaves the server but through the peer's proxy. In a server started from a validated
  configuration, a live flow contacts only the SOCKS5 upstream of the peer that owns its source (its own, or the
  global one), with that upstream's credentials, and the relay that upstream named, on this flow's own control
  connection, in a conforming reply; it asks the proxy only for its own destination or the configured resolver, both admitted by the isolation blocks; and
  every datagram it relays names its own destination.
\<close>

theorem flows_leave_through_upstream:
  assumes "validate K L cfg = Inr ()" "start_tables K B now cfg = Inr tb"
    and "semaphore acq rel held MAX_FLOWS" "held permits = 0"
    and "(flow_step L cfg (tb_allowed tb) acq rel)\<^sup>*\<^sup>* (initial_flows permits cfg) s" "f \<in> set (fs_live s)"
    and "serve_stream no_udp (tb_upstreams tb ! fl_peer f) (cfg_dns cfg) (config_mtu cfg) (config_udp_idle cfg)
           (sock (fl_dst f) port) stream = (no_udp', log)"
  shows "\<exists>up. parse_upstream (unwrap_or (cfg_upstream cfg) (pc_upstream (cfg_peers cfg ! fl_peer f))) = Inr up \<and>
     owns L (routing_table (cfg_peers cfg)) (fl_peer f) (fl_src f) \<and>
     list_all (contact_ok up {t. isolation_spec (net_contains L (cfg_address cfg)) (cfg_allow_private cfg) (sa_ip t) \<and>
        (t = sock (fl_dst f) port \<or> cfg_dns cfg = Some t)} (relays_named up stream)) (lg_contacts log) \<and>
     (\<forall>r. lg_relayed log = Some r \<longrightarrow>
        (\<forall>d \<in> set (to_relay r). \<exists>p. parse_udp d = Some (sock (fl_dst f) port, p)))"
proof -
  obtain global where tb: "parse_upstream (cfg_upstream cfg) = Inr global" "tb_allowed tb = routing_table (cfg_peers cfg)"
      "tb_upstreams tb = map (own_upstream global) (cfg_peers cfg)"
    using assms(2) by (rule start_tables_spec)
  have inv: "flow_inv L cfg (routing_table (cfg_peers cfg)) held s"
    using flow_system.inv_reachable [where held = held, OF _ assms(5) [unfolded tb(2)]] assms(3,4) by blast
  with assms(6) have f: "fl_peer f < length (cfg_peers cfg)" "flow_ok L cfg (routing_table (cfg_peers cfg)) f"
    by (auto simp: flow_inv_def)
  let ?p = "cfg_peers cfg ! fl_peer f" and ?up = "tb_upstreams tb ! fl_peer f"
  have ok: "config_ok K L cfg" using assms(1) by (simp add: validate_ok_iff)
  have peer: "peer_ok K ?p" using ok nth_mem [OF f(1)] by (simp add: config_ok_def list_all_iff)
  have up: "parse_upstream (unwrap_or (cfg_upstream cfg) (pc_upstream ?p)) = Inr ?up"
    using own_upstream_parses [OF peer tb(1)] f(1) tb(3) by simp
  have "isolation_spec (net_contains L (cfg_address cfg)) (cfg_allow_private cfg) (sa_ip t)"
    if "t \<in> insert (sock (fl_dst f) port) (set_option (cfg_dns cfg))" for t
    using that f(2) ok by (cases "cfg_dns cfg") (auto simp: flow_ok_def config_ok_def allowed_dst_blocks)
  then have targets: "insert (sock (fl_dst f) port) (set_option (cfg_dns cfg)) \<subseteq>
      {t. isolation_spec (net_contains L (cfg_address cfg)) (cfg_allow_private cfg) (sa_ip t) \<and>
        (t = sock (fl_dst f) port \<or> cfg_dns cfg = Some t)}"
    by blast
  have "owns L (routing_table (cfg_peers cfg)) (fl_peer f) (fl_src f)"
    using f(2) unfolding flow_ok_def by (blast intro: peer_table.lookup_Some)
  with up contacts_mono [OF serve_stream_contacts [OF assms(7)] targets] serve_stream_relayed [OF assms(7)]
  show ?thesis by blast
qed

text \<open>A UDP flow whose proxy answers an association with a wildcard.\<close>

definition ex_assoc :: assoc_env where
  "ex_assoc = \<lparr>ae_in_time = True,
     ae_control = Some \<lparr>c_in = [5, 0, 5, 0, 0, 1, 0, 0, 0, 0, 0, 9], c_out = [], c_writes = 2\<rparr>,
     ae_proxy_ip = V4 7, ae_sockets = True\<rparr>"

lemma ex_attempt:
  "attempt_associate \<lparr>up_addr = ''h:1080'', up_auth = None\<rparr> ex_assoc =
     (Associated, [SocksAssociate ''h:1080'', RelaySocket (sock (V4 7) 9)])"
  by (simp add: attempt_associate_def ex_assoc_def associate_def negotiate_def authenticate_def read_bound_def io_bind_def
      io_return_def io_ensure_def write_all_def read_exact_def ensure_def relay_address_def local_address_def be_word_def
      be16_of_bytes_def addr_defs Let_def)

theorem flows_leave_through_upstream_witness:
  "\<exists>now tb no_udp log. start_tables nibble_lib ex_boringtun now ex_config = Inr tb \<and>
     serve_stream {} (tb_upstreams tb ! 0) (cfg_dns ex_config) (config_mtu ex_config) (config_udp_idle ex_config)
       (sock (fl_dst ex_flow) 443) (StreamUdp ex_assoc [] [] :: unit stream) = (no_udp, log) \<and>
     lg_contacts log = [SocksAssociate ''h:1080'', RelaySocket (sock (V4 7) 9)] \<and>
     sock (V4 7) 9 \<in> relays_named (tb_upstreams tb ! 0) (StreamUdp ex_assoc [] [] :: unit stream)"
proof -
  obtain now tb where tb: "start_tables nibble_lib ex_boringtun now ex_config = Inr tb"
    using ex_started by (auto simp: started_def)
  have up: "tb_upstreams tb ! 0 = \<lparr>up_addr = ''h:1080'', up_auth = None\<rparr>" "tb_allowed tb = routing_table (cfg_peers ex_config)"
    using tb by (auto elim!: start_tables_spec simp: ex_config_def ex_peer_def own_upstream_def ex_upstream_ok)
  have peer: "fl_peer ex_flow = 0" by (simp add: ex_flow_def)
  obtain no_udp log where serve: "serve_stream {} (tb_upstreams tb ! fl_peer ex_flow) (cfg_dns ex_config) (config_mtu ex_config)
       (config_udp_idle ex_config) (sock (fl_dst ex_flow) 443) (StreamUdp ex_assoc [] [] :: unit stream) = (no_udp, log)"
    by fastforce
  then have contacts: "lg_contacts log = [SocksAssociate ''h:1080'', RelaySocket (sock (V4 7) 9)]"
    using up(1) peer ex_attempt by (auto simp: serve_udp_def handle_udp_def relay_entry_def Let_def)
  have live: "ex_flow \<in> set (fs_live (ex_run ! 3))" by (simp add: ex_run_def)
  have own: "parse_upstream (unwrap_or (cfg_upstream ex_config) (pc_upstream (cfg_peers ex_config ! 0))) = Inr (tb_upstreams tb ! 0)"
    by (simp add: ex_config_def ex_peer_def ex_upstream_ok up(1))
  from flows_leave_through_upstream [OF ex_config_valid tb counter.semaphore_axioms _ ex_run_live [folded up(2)] live serve]
  have "sock (V4 7) 9 \<in> relays_named (tb_upstreams tb ! 0) (StreamUdp ex_assoc [] [] :: unit stream)"
    by (auto simp: contacts peer own)
  then show ?thesis using tb serve contacts unfolding peer by blast
qed

end
