(* ===== verification/Ws_Relay.thy ===== *)
theory Ws_Relay
  imports Rust_Net
begin

text \<open>
  \<open>crates/wsrelay/src/lib.rs\<close>: WireGuard datagrams over WebSocket. The accepting side (\<open>serve_limited\<close>,
  \<open>relay_conn\<close>) and the dialling side (\<open>run_client_to\<close>, \<open>client_peer\<close>). Times are in milliseconds;
  tokio's semaphore and channels are arguments; the WebSocket library delivers whole messages.
\<close>

definition MAX_DATAGRAM :: nat where
  "MAX_DATAGRAM = 65535"

definition IDLE :: nat where
  "IDLE = 300000"

definition BACKOFF_MIN :: nat where
  "BACKOFF_MIN = 250"

definition BACKOFF_MAX :: nat where
  "BACKOFF_MAX = 8000"

definition CHANNEL :: nat where
  "CHANNEL = 1024"

section \<open>Accepting connections\<close>

text \<open>A connection holds its permit until its task ends; one over the limit is refused at once.\<close>

record 'p listener_state =
  ls_permits :: 'p
  ls_conns :: "socket_addr list"

datatype listener_event = Accepted socket_addr | AcceptFailed | ConnEnded nat

fun serve_turn ::
  "('p \<Rightarrow> 'p option) \<Rightarrow> ('p \<Rightarrow> 'p) \<Rightarrow> listener_event \<Rightarrow> 'p listener_state \<Rightarrow> 'p listener_state" where
  "serve_turn try_acquire release (Accepted peer) s =
     (case try_acquire (ls_permits s) of
        None \<Rightarrow> s
      | Some p \<Rightarrow> s\<lparr>ls_permits := p, ls_conns := ls_conns s @ [peer]\<rparr>)"
| "serve_turn try_acquire release AcceptFailed s = s"
| "serve_turn try_acquire release (ConnEnded k) s =
     (if k < length (ls_conns s) then
        s\<lparr>ls_permits := release (ls_permits s), ls_conns := take k (ls_conns s) @ drop (Suc k) (ls_conns s)\<rparr>
      else s)"

definition listener_inv :: "('p \<Rightarrow> nat) \<Rightarrow> nat \<Rightarrow> 'p listener_state \<Rightarrow> bool" where
  "listener_inv held cap s \<longleftrightarrow> held (ls_permits s) = length (ls_conns s) \<and> length (ls_conns s) \<le> cap"

lemma serve_turn_inv:
  assumes "semaphore acq rel held cap" "listener_inv held cap s"
  shows "listener_inv held cap (serve_turn acq rel e s)"
proof (cases e)
  case (Accepted peer)
  then show ?thesis
    using assms(2) semaphore.acquire_Some [OF assms(1), of "ls_permits s"]
    by (cases "acq (ls_permits s)") (auto simp: listener_inv_def)
next
  case (ConnEnded k)
  then show ?thesis
    using assms(2) semaphore.held_release [OF assms(1), of "ls_permits s"]
    by (auto simp: listener_inv_def)
qed (use assms in auto)

interpretation listener: handler "serve_turn acq rel"
    "\<lambda>s. semaphore acq rel held cap \<longrightarrow> listener_inv held cap s" for acq rel held cap
  by unfold_locales (auto intro: serve_turn_inv)

text \<open>The handshake is answered only at the relay's own path.\<close>

definition handshake_status :: "string \<Rightarrow> string \<Rightarrow> nat" where
  "handshake_status path uri_path = (if uri_path = path then 101 else 404)"

section \<open>One accepted connection\<close>

datatype ws_message = WsBinary bytes | WsClose | WsOther

text \<open>A read off the WebSocket: the end of the stream, an error, or a message.\<close>

datatype ws_read = WsEnd | WsFailed | WsMessage ws_message

datatype conn_event =
    FromWs ws_read
  | FromUdp "bytes option" bool
  | PingTick bool
  | DeadlinePassed

datatype close_reason = Closed | ReadError | WriteError | Idle

record pump =
  pm_deadline :: nat
  pm_udp :: "bytes list"
  pm_ws :: "ws_message list"
  pm_end :: "close_reason option"

definition pump_start :: "nat \<Rightarrow> pump" where
  "pump_start now = \<lparr>pm_deadline = now + IDLE, pm_udp = [], pm_ws = [], pm_end = None\<rparr>"

text \<open>
  One turn at time \<open>now\<close>. Sends to the WebSocket carry whether they succeed; a failed UDP send only
  logs, so it counts as sent.
\<close>

fun relay_conn_turn :: "nat \<Rightarrow> conn_event \<Rightarrow> pump \<Rightarrow> pump" where
  "relay_conn_turn now (FromWs WsEnd) s = s\<lparr>pm_end := Some Closed\<rparr>"
| "relay_conn_turn now (FromWs WsFailed) s = s\<lparr>pm_end := Some ReadError\<rparr>"
| "relay_conn_turn now (FromWs (WsMessage (WsBinary b))) s =
     (let s' = s\<lparr>pm_deadline := now + IDLE\<rparr>
      in if length b \<le> MAX_DATAGRAM then s'\<lparr>pm_udp := pm_udp s' @ [b]\<rparr> else s')"
| "relay_conn_turn now (FromWs (WsMessage WsClose)) s = s\<lparr>pm_end := Some Closed\<rparr>"
| "relay_conn_turn now (FromWs (WsMessage WsOther)) s = s"
| "relay_conn_turn now (FromUdp None ok) s = s"
| "relay_conn_turn now (FromUdp (Some d) ok) s =
     (let s' = s\<lparr>pm_deadline := now + IDLE\<rparr>
      in if ok then s'\<lparr>pm_ws := pm_ws s' @ [WsBinary d]\<rparr> else s'\<lparr>pm_end := Some WriteError\<rparr>)"
| "relay_conn_turn now (PingTick ok) s =
     (if ok then s\<lparr>pm_ws := pm_ws s @ [WsOther]\<rparr> else s\<lparr>pm_end := Some WriteError\<rparr>)"
| "relay_conn_turn now DeadlinePassed s = s\<lparr>pm_end := Some Idle\<rparr>"

text \<open>
  The loop over timed events; after it, unless a send failed, the close frame is sent (its own failure
  is ignored). The timer can only fire at or after the deadline, which \<open>timely\<close> says of a run.
\<close>

fun relay_conn_run :: "(nat \<times> conn_event) list \<Rightarrow> pump \<Rightarrow> pump" where
  "relay_conn_run [] s = s"
| "relay_conn_run ((now, e) # es) s =
     (if pm_end s \<noteq> None then s else relay_conn_run es (relay_conn_turn now e s))"

definition relay_conn :: "(nat \<times> conn_event) list \<Rightarrow> nat \<Rightarrow> pump" where
  "relay_conn es start =
     (let s = relay_conn_run es (pump_start start)
      in if pm_end s \<in> {Some Closed, Some ReadError, Some Idle} then s\<lparr>pm_ws := pm_ws s @ [WsClose]\<rparr> else s)"

fun timely :: "(nat \<times> conn_event) list \<Rightarrow> pump \<Rightarrow> bool" where
  "timely [] s = True"
| "timely ((now, e) # es) s =
     ((e = DeadlinePassed \<longrightarrow> pm_deadline s \<le> now) \<and> timely es (relay_conn_turn now e s))"

text \<open>What counts as traffic, what ends a connection, and what an event carries each way.\<close>

fun is_traffic :: "conn_event \<Rightarrow> bool" where
  "is_traffic (FromWs (WsMessage (WsBinary b))) = True"
| "is_traffic (FromUdp (Some d) ok) = True"
| "is_traffic _ = False"

fun ends_conn :: "conn_event \<Rightarrow> close_reason option" where
  "ends_conn (FromWs WsEnd) = Some Closed"
| "ends_conn (FromWs WsFailed) = Some ReadError"
| "ends_conn (FromWs (WsMessage WsClose)) = Some Closed"
| "ends_conn (FromUdp (Some d) False) = Some WriteError"
| "ends_conn (PingTick False) = Some WriteError"
| "ends_conn DeadlinePassed = Some Idle"
| "ends_conn _ = None"

fun to_udp :: "conn_event \<Rightarrow> bytes list" where
  "to_udp (FromWs (WsMessage (WsBinary b))) = (if length b \<le> MAX_DATAGRAM then [b] else [])"
| "to_udp _ = []"

fun to_ws :: "conn_event \<Rightarrow> bytes list" where
  "to_ws (FromUdp (Some d) True) = [d]"
| "to_ws _ = []"

fun binaries :: "ws_message list \<Rightarrow> bytes list" where
  "binaries [] = []"
| "binaries (WsBinary b # ms) = b # binaries ms"
| "binaries (m # ms) = binaries ms"

lemma binaries_append [simp]: "binaries (xs @ ys) = binaries xs @ binaries ys"
  by (induction xs rule: binaries.induct) auto

lemma relay_conn_turn_spec:
  "pm_end (relay_conn_turn now e s) = (case ends_conn e of None \<Rightarrow> pm_end s | r \<Rightarrow> r)"
  "pm_udp (relay_conn_turn now e s) = pm_udp s @ to_udp e"
  "binaries (pm_ws (relay_conn_turn now e s)) = binaries (pm_ws s) @ to_ws e"
  "pm_deadline (relay_conn_turn now e s) = (if is_traffic e then now + IDLE else pm_deadline s)"
  by (induction now e s rule: relay_conn_turn.induct) (auto simp: Let_def)

text \<open>The events up to and with the first that ends the connection.\<close>

fun until_end :: "(nat \<times> conn_event) list \<Rightarrow> (nat \<times> conn_event) list" where
  "until_end [] = []"
| "until_end ((t, e) # es) = (t, e) # (if ends_conn e \<noteq> None then [] else until_end es)"

lemma relay_conn_run_ended [simp]: "pm_end s \<noteq> None \<Longrightarrow> relay_conn_run es s = s"
  by (cases es) auto

lemma relay_conn_run_spec:
  "pm_end s = None \<Longrightarrow>
     pm_udp (relay_conn_run es s) = pm_udp s @ concat (map (to_udp \<circ> snd) (until_end es)) \<and>
     binaries (pm_ws (relay_conn_run es s)) = binaries (pm_ws s) @ concat (map (to_ws \<circ> snd) (until_end es))"
proof (induction es arbitrary: s)
  case (Cons te es)
  obtain t e where te: "te = (t, e)" by (cases te)
  show ?case
  proof (cases "ends_conn e")
    case None
    with Cons te show ?thesis by (simp add: relay_conn_turn_spec)
  next
    case (Some r)
    with Cons.prems te show ?thesis by (simp add: relay_conn_turn_spec)
  qed
qed simp

text \<open>The deadline a run of events leaves.\<close>

fun deadline_after :: "(nat \<times> conn_event) list \<Rightarrow> nat \<Rightarrow> nat" where
  "deadline_after [] d = d"
| "deadline_after ((t, e) # es) d = deadline_after es (if is_traffic e then t + IDLE else d)"

lemma deadline_after_ge:
  "sorted (map fst es) \<Longrightarrow> \<forall>(t, e) \<in> set es. d \<le> t + IDLE \<Longrightarrow> d \<le> deadline_after es d"
proof (induction es d rule: deadline_after.induct)
  case (2 t e es d)
  show ?case
  proof (cases "is_traffic e")
    case True
    have "\<forall>(u, f) \<in> set es. t + IDLE \<le> u + IDLE" using "2.prems"(1) by auto
    then have "t + IDLE \<le> deadline_after es (t + IDLE)" using "2.IH" "2.prems"(1) True by simp
    with "2.prems"(2) True show ?thesis by simp
  next
    case False
    with "2" show ?thesis by simp
  qed
qed simp

lemma deadline_after_traffic:
  "sorted (map fst es) \<Longrightarrow> (u, f) \<in> set es \<Longrightarrow> is_traffic f \<Longrightarrow> u + IDLE \<le> deadline_after es d"
proof (induction es d rule: deadline_after.induct)
  case (2 t e es d)
  show ?case
  proof (cases "(u, f) = (t, e)")
    case True
    have "\<forall>(v, g) \<in> set es. t + IDLE \<le> v + IDLE" using "2.prems"(1) by auto
    with True "2.prems" deadline_after_ge [of es "t + IDLE"] show ?thesis by simp
  next
    case False
    with "2.prems" have "(u, f) \<in> set es" by auto
    with "2.IH" "2.prems" show ?thesis by simp
  qed
qed simp

lemma idle_end:
  assumes "timely es s" "pm_end s = None" "pm_end (relay_conn_run es s) = Some Idle"
  shows "\<exists>pre t post. es = pre @ (t, DeadlinePassed) # post \<and> deadline_after pre (pm_deadline s) \<le> t"
  using assms
proof (induction es arbitrary: s)
  case (Cons te es)
  obtain t e where te: "te = (t, e)" by (cases te)
  let ?s = "relay_conn_turn t e s"
  show ?case
  proof (cases "ends_conn e")
    case (Some r)
    with Cons.prems te have "r = Idle" by (simp add: relay_conn_turn_spec)
    with Some have "e = DeadlinePassed" by (induction e rule: ends_conn.induct) auto
    with te Cons.prems show ?thesis
      by (intro exI [of _ "[]"] exI [of _ t] exI [of _ es]) simp
  next
    case None
    with Cons.prems te have "timely es ?s" "pm_end ?s = None" "pm_end (relay_conn_run es ?s) = Some Idle"
      by (simp_all add: relay_conn_turn_spec)
    from Cons.IH [OF this] obtain pre u post where *: "es = pre @ (u, DeadlinePassed) # post"
      "deadline_after pre (pm_deadline ?s) \<le> u"
      by blast
    then have "te # es = ((t, e) # pre) @ (u, DeadlinePassed) # post"
      "deadline_after ((t, e) # pre) (pm_deadline s) \<le> u"
      using te by (simp_all add: relay_conn_turn_spec)
    then show ?thesis by blast
  qed
qed simp

section \<open>The dialling side: one mapping per source\<close>

text \<open>
  A mapping's task, its source, its queue, and whether it has returned (which closes the queue's
  receiver); \<open>peers\<close> maps a source to the index of its task.
\<close>

record 'q mapping =
  mp_src :: socket_addr
  mp_queue :: 'q
  mp_closed :: bool

record 'q bridge =
  br_peers :: "socket_addr \<Rightarrow> nat option"
  br_tasks :: "'q mapping list"

datatype bridge_event = Datagram bytes socket_addr | RecvFailed | Sweep | TaskReturns nat | TaskTakes nat

text \<open>The open task of a source, spawned when there is none.\<close>

definition open_mapping :: "'q \<Rightarrow> socket_addr \<Rightarrow> 'q bridge \<Rightarrow> 'q bridge \<times> nat" where
  "open_mapping q0 src s =
     (let spawn = (\<lparr>br_peers = (br_peers s)(src \<mapsto> length (br_tasks s)),
                    br_tasks = br_tasks s @ [\<lparr>mp_src = src, mp_queue = q0, mp_closed = False\<rparr>]\<rparr>,
                   length (br_tasks s))
      in case br_peers s src of
           None \<Rightarrow> spawn
         | Some k \<Rightarrow> if mp_closed (br_tasks s ! k) then spawn else (s, k))"

fun bridge_turn ::
  "(bytes \<Rightarrow> 'q \<Rightarrow> 'q option) \<Rightarrow> ('q \<Rightarrow> (bytes \<times> 'q) option) \<Rightarrow> 'q \<Rightarrow> bridge_event \<Rightarrow> 'q bridge \<Rightarrow> 'q bridge" where
  "bridge_turn try_send receive q0 (Datagram d src) s =
     (let (s', k) = open_mapping q0 src s
      in s'\<lparr>br_tasks := (br_tasks s')[k := (br_tasks s' ! k)
               \<lparr>mp_queue := send_or_drop try_send d (mp_queue (br_tasks s' ! k))\<rparr>]\<rparr>)"
| "bridge_turn try_send receive q0 RecvFailed s = s"
| "bridge_turn try_send receive q0 Sweep s =
     s\<lparr>br_peers := (\<lambda>src. case br_peers s src of None \<Rightarrow> None
        | Some k \<Rightarrow> if mp_closed (br_tasks s ! k) then None else Some k)\<rparr>"
| "bridge_turn try_send receive q0 (TaskReturns k) s =
     (if k < length (br_tasks s) then
        s\<lparr>br_tasks := (br_tasks s)[k := (br_tasks s ! k)\<lparr>mp_closed := True\<rparr>]\<rparr> else s)"
| "bridge_turn try_send receive q0 (TaskTakes k) s =
     (if k < length (br_tasks s) \<and> \<not> mp_closed (br_tasks s ! k) then
        (case receive (mp_queue (br_tasks s ! k)) of
           None \<Rightarrow> s
         | Some (d, q) \<Rightarrow> s\<lparr>br_tasks := (br_tasks s)[k := (br_tasks s ! k)\<lparr>mp_queue := q\<rparr>]\<rparr>)
      else s)"

definition bridge_start :: "'q bridge" where
  "bridge_start = \<lparr>br_peers = Map.empty, br_tasks = []\<rparr>"

text \<open>Every open task is the one its source maps to, so a source has at most one.\<close>

definition bridge_inv :: "'q bridge \<Rightarrow> bool" where
  "bridge_inv s \<longleftrightarrow>
     (\<forall>src k. br_peers s src = Some k \<longrightarrow> k < length (br_tasks s) \<and> mp_src (br_tasks s ! k) = src) \<and>
     (\<forall>k < length (br_tasks s). \<not> mp_closed (br_tasks s ! k) \<longrightarrow> br_peers s (mp_src (br_tasks s ! k)) = Some k)"

lemma open_mapping_spec:
  assumes "bridge_inv s" "open_mapping q0 src s = (s', k)"
  shows "bridge_inv s' \<and> k < length (br_tasks s') \<and> mp_src (br_tasks s' ! k) = src \<and> \<not> mp_closed (br_tasks s' ! k)"
proof (cases "\<exists>j. br_peers s src = Some j \<and> \<not> mp_closed (br_tasks s ! j)")
  case True
  then have "s' = s" "br_peers s src = Some k" "\<not> mp_closed (br_tasks s ! k)"
    using assms(2) by (auto simp: open_mapping_def Let_def)
  with assms(1) show ?thesis by (auto simp: bridge_inv_def)
next
  case False
  then have s': "s' = \<lparr>br_peers = (br_peers s)(src \<mapsto> length (br_tasks s)),
      br_tasks = br_tasks s @ [\<lparr>mp_src = src, mp_queue = q0, mp_closed = False\<rparr>]\<rparr>"
    and k: "k = length (br_tasks s)"
    using assms(2) by (auto simp: open_mapping_def Let_def split: option.splits if_splits)
  have "mp_closed (br_tasks s ! j)" if "j < length (br_tasks s)" "mp_src (br_tasks s ! j) = src" for j
    using False assms(1) that by (auto simp: bridge_inv_def)
  with assms(1) show ?thesis
    unfolding s' k by (auto simp: bridge_inv_def nth_append less_Suc_eq)
qed

lemma bridge_inv_update:
  assumes "bridge_inv s" "k < length (br_tasks s)" "mp_src t = mp_src (br_tasks s ! k)"
    and "mp_closed (br_tasks s ! k) \<longrightarrow> mp_closed t"
  shows "bridge_inv (s\<lparr>br_tasks := (br_tasks s)[k := t]\<rparr>)"
  using assms by (auto simp: bridge_inv_def nth_list_update)

lemma bridge_turn_inv:
  assumes "bridge_inv s"
  shows "bridge_inv (bridge_turn ts rc q0 e s)"
proof (cases e)
  case (Datagram d src)
  obtain s' k where o: "open_mapping q0 src s = (s', k)" by fastforce
  from open_mapping_spec [OF assms o] Datagram o show ?thesis
    by (simp add: bridge_inv_update)
next
  case Sweep
  with assms show ?thesis by (auto simp: bridge_inv_def split: option.splits)
next
  case (TaskReturns k)
  with assms show ?thesis by (simp add: bridge_inv_update)
next
  case (TaskTakes k)
  with assms show ?thesis by (auto simp: bridge_inv_update split: option.split)
qed (use assms in simp)

interpretation bridge: handler "bridge_turn ts rc q0" bridge_inv for ts rc q0
  by unfold_locales (rule bridge_turn_inv)

section \<open>The dialling side: reconnecting with back-off\<close>

text \<open>
  One mapping's task. \<open>Dialling\<close> waits for the connection attempt, \<open>Pumping\<close> moves messages,
  \<open>Pausing\<close> sleeps for the back-off; events carry the time at which the task sees them.
\<close>

datatype phase = Dialling | Pumping | Pausing | Returned

record client_task =
  ct_phase :: phase
  ct_backoff :: nat
  ct_deadline :: nat
  ct_to_ws :: "bytes list"
  ct_to_peer :: "bytes list"

definition client_start :: "nat \<Rightarrow> client_task" where
  "client_start now =
     \<lparr>ct_phase = Dialling, ct_backoff = BACKOFF_MIN, ct_deadline = now + IDLE, ct_to_ws = [], ct_to_peer = []\<rparr>"

datatype client_event =
    Dialled bool
  | FromSource "bytes option" bool
  | FromServer ws_read
  | IdleTimer
  | PauseOver

text \<open>After a failed attempt or a lost connection: give up when idle, else pause.\<close>

definition retry :: "nat \<Rightarrow> client_task \<Rightarrow> client_task" where
  "retry now s = (if ct_deadline s \<le> now then s\<lparr>ct_phase := Returned\<rparr> else s\<lparr>ct_phase := Pausing\<rparr>)"

fun client_turn :: "nat \<Rightarrow> client_event \<Rightarrow> client_task \<Rightarrow> client_task" where
  "client_turn now (Dialled ok) s =
     (if ct_phase s \<noteq> Dialling then s
      else if ok then s\<lparr>ct_phase := Pumping, ct_backoff := BACKOFF_MIN\<rparr>
      else retry now s)"
| "client_turn now (FromSource d ok) s =
     (if ct_phase s \<noteq> Pumping then s
      else (case d of
          None \<Rightarrow> s\<lparr>ct_phase := Returned\<rparr>
        | Some b \<Rightarrow>
            (let s' = s\<lparr>ct_deadline := now + IDLE\<rparr>
             in if ok then s'\<lparr>ct_to_ws := ct_to_ws s' @ [b]\<rparr> else retry now s')))"
| "client_turn now (FromServer r) s =
     (if ct_phase s \<noteq> Pumping then s
      else (case r of
          WsMessage (WsBinary b) \<Rightarrow> s\<lparr>ct_deadline := now + IDLE, ct_to_peer := ct_to_peer s @ [b]\<rparr>
        | WsMessage WsOther \<Rightarrow> s
        | _ \<Rightarrow> retry now s))"
| "client_turn now IdleTimer s =
     (if ct_phase s = Pumping \<and> ct_deadline s \<le> now then s\<lparr>ct_phase := Returned\<rparr> else s)"
| "client_turn now PauseOver s =
     (if ct_phase s \<noteq> Pausing then s
      else s\<lparr>ct_phase := Dialling, ct_backoff := min (ct_backoff s * 2) BACKOFF_MAX\<rparr>)"

fun client_run :: "(nat \<times> client_event) list \<Rightarrow> client_task \<Rightarrow> client_task" where
  "client_run [] s = s"
| "client_run ((now, e) # es) s = client_run es (client_turn now e s)"

definition backoff_inv :: "client_task \<Rightarrow> bool" where
  "backoff_inv s \<longleftrightarrow> (\<exists>k. ct_backoff s = min (BACKOFF_MIN * 2 ^ k) BACKOFF_MAX)"

lemma backoff_step: "min (min (b * 2 ^ k) m * 2) m = min (b * 2 ^ Suc k) (m :: nat)"
  by (simp add: min_def)

lemma client_turn_backoff: "backoff_inv s \<Longrightarrow> backoff_inv (client_turn now e s)"
proof (cases e)
  case PauseOver
  assume "backoff_inv s"
  then obtain k where "ct_backoff s = min (BACKOFF_MIN * 2 ^ k) BACKOFF_MAX" by (auto simp: backoff_inv_def)
  then have "min (ct_backoff s * 2) BACKOFF_MAX = min (BACKOFF_MIN * 2 ^ Suc k) BACKOFF_MAX"
    by (simp only: backoff_step)
  with PauseOver \<open>backoff_inv s\<close> show ?thesis by (auto simp: backoff_inv_def intro: exI [of _ "Suc k"])
next
  case (Dialled ok)
  assume "backoff_inv s"
  with Dialled show ?thesis
    by (auto simp: backoff_inv_def retry_def BACKOFF_MIN_def BACKOFF_MAX_def intro: exI [of _ 0])
qed (auto simp: backoff_inv_def retry_def Let_def split: option.split ws_read.split ws_message.split)

interpretation reconnector: handler "\<lambda>(now, e). client_turn now e" backoff_inv
  by unfold_locales (auto intro: client_turn_backoff)

lemma backoff_bounds: "backoff_inv s \<Longrightarrow> BACKOFF_MIN \<le> ct_backoff s \<and> ct_backoff s \<le> BACKOFF_MAX"
  by (auto simp: backoff_inv_def BACKOFF_MIN_def BACKOFF_MAX_def)

lemma client_run_fold: "client_run es s = fold (\<lambda>(now, e). client_turn now e) es s"
  by (induction es s rule: client_run.induct) auto

text \<open>\<open>n\<close> attempts that all fail, each followed by its pause; the attempt and pause times are given.\<close>

definition failures :: "(nat \<times> nat) list \<Rightarrow> (nat \<times> client_event) list" where
  "failures ts = concat (map (\<lambda>(t, u). [(t, Dialled False), (u, PauseOver)]) ts)"

lemma failures_run:
  assumes "\<forall>(t, u) \<in> set ts. t < ct_deadline s" "ct_phase s = Dialling"
    and "ct_backoff s = min (BACKOFF_MIN * 2 ^ k) BACKOFF_MAX"
  shows "client_run (failures ts) s = s\<lparr>ct_backoff := min (BACKOFF_MIN * 2 ^ (k + length ts)) BACKOFF_MAX\<rparr>"
  using assms
proof (induction ts arbitrary: s k)
  case (Cons tu ts)
  obtain t u where tu: "tu = (t, u)" by (cases tu)
  let ?s = "s\<lparr>ct_backoff := min (BACKOFF_MIN * 2 ^ Suc k) BACKOFF_MAX\<rparr>"
  have "client_turn u PauseOver (client_turn t (Dialled False) s) = ?s"
    using Cons.prems tu backoff_step [of BACKOFF_MIN k BACKOFF_MAX] by (simp add: retry_def)
  then have "client_run (failures (tu # ts)) s = client_run (failures ts) ?s"
    by (simp add: failures_def tu)
  also have "\<dots> = ?s\<lparr>ct_backoff := min (BACKOFF_MIN * 2 ^ (Suc k + length ts)) BACKOFF_MAX\<rparr>"
    using Cons.prems by (intro Cons.IH) simp_all
  finally show ?case by simp
qed (simp add: failures_def)

section \<open>Properties\<close>

text \<open>
  C28: a relay connection moves datagrams in both directions unchanged and in order: up to the event that
  ends it, the UDP socket is sent exactly the binary messages (none longer than a datagram), and the
  WebSocket exactly the received datagrams.
\<close>

theorem relay_conn_pumps:
  "pm_udp (relay_conn es start) = concat (map (to_udp \<circ> snd) (until_end es)) \<and>
   binaries (pm_ws (relay_conn es start)) = concat (map (to_ws \<circ> snd) (until_end es))"
  using relay_conn_run_spec [of "pump_start start" es]
  by (auto simp: relay_conn_def pump_start_def Let_def)

text \<open>
  C29: a relay connection is dropped as idle only after five minutes without traffic: when the timer
  fires, at least 300 seconds have passed since the start and since every datagram in either direction.
\<close>

theorem idle_means_idle:
  assumes "timely es (pump_start start)" "sorted (map fst es)" "\<forall>(t, e) \<in> set es. start \<le> t"
    and "pm_end (relay_conn es start) = Some Idle"
  shows "\<exists>pre t post. es = pre @ (t, DeadlinePassed) # post \<and> start + 300000 \<le> t \<and>
     (\<forall>(u, f) \<in> set pre. is_traffic f \<longrightarrow> u + 300000 \<le> t)"
proof -
  have "pm_end (relay_conn_run es (pump_start start)) = Some Idle"
    using assms(4) by (auto simp: relay_conn_def Let_def split: if_splits)
  then obtain pre t post where *: "es = pre @ (t, DeadlinePassed) # post"
      "deadline_after pre (start + IDLE) \<le> t"
    using idle_end [OF assms(1)] by (auto simp: pump_start_def)
  have "sorted (map fst pre)" "\<forall>(u, f) \<in> set pre. start + IDLE \<le> u + IDLE"
    using assms(2,3) *(1) by (auto simp: sorted_append)
  with deadline_after_ge [of pre "start + IDLE"] deadline_after_traffic [of pre] *(2)
  have "start + IDLE \<le> t" "\<forall>(u, f) \<in> set pre. is_traffic f \<longrightarrow> u + IDLE \<le> t"
    by (fastforce intro: order_trans)+
  with *(1) show ?thesis unfolding IDLE_def by blast
qed

theorem idle_means_idle_witness:
  "\<exists>pre t post. [(5 :: nat, FromUdp (Some [1]) True), (300005, DeadlinePassed)] = pre @ (t, DeadlinePassed) # post \<and>
     (\<forall>(u, f) \<in> set pre. is_traffic f \<longrightarrow> u + 300000 \<le> t)"
  using idle_means_idle [of "[(5, FromUdp (Some [1]) True), (300005, DeadlinePassed)]" 0]
  by (simp add: pump_start_def IDLE_def relay_conn_def) blast

text \<open>
  The bridge keeps one connection per source: whatever arrives, is swept or returns in whatever
  order, no two open tasks serve the same source, and a datagram is queued on its source's own task.
\<close>

theorem one_mapping_per_source:
  assumes "s = fold (bridge_turn ts rc q0) es bridge_start"
  shows "(\<forall>j k. j < length (br_tasks s) \<longrightarrow> k < length (br_tasks s) \<longrightarrow>
        \<not> mp_closed (br_tasks s ! j) \<longrightarrow> \<not> mp_closed (br_tasks s ! k) \<longrightarrow>
        mp_src (br_tasks s ! j) = mp_src (br_tasks s ! k) \<longrightarrow> j = k) \<and>
     (\<exists>k. br_peers (bridge_turn ts rc q0 (Datagram d src) s) src = Some k \<and>
        mp_src (br_tasks (bridge_turn ts rc q0 (Datagram d src) s) ! k) = src \<and>
        \<not> mp_closed (br_tasks (bridge_turn ts rc q0 (Datagram d src) s) ! k))"
proof -
  have inv: "bridge_inv s"
    unfolding assms by (rule bridge.inv_fold) (simp add: bridge_inv_def bridge_start_def)
  obtain s' k where o: "open_mapping q0 src s = (s', k)" by fastforce
  from open_mapping_spec [OF inv o] have "br_peers s' src = Some k"
    by (auto simp: bridge_inv_def)
  with open_mapping_spec [OF inv o] o
  have "\<exists>k. br_peers (bridge_turn ts rc q0 (Datagram d src) s) src = Some k \<and>
        mp_src (br_tasks (bridge_turn ts rc q0 (Datagram d src) s) ! k) = src \<and>
        \<not> mp_closed (br_tasks (bridge_turn ts rc q0 (Datagram d src) s) ! k)"
    by simp
  moreover have "j = k" if "j < length (br_tasks s)" "k < length (br_tasks s)"
      "\<not> mp_closed (br_tasks s ! j)" "\<not> mp_closed (br_tasks s ! k)"
      "mp_src (br_tasks s ! j) = mp_src (br_tasks s ! k)" for j k
    using inv that by (metis bridge_inv_def option.inject)
  ultimately show ?thesis by blast
qed

theorem one_mapping_per_source_witness:
  "\<exists>k. br_peers (bridge_turn (list_send CHANNEL) list_receive [] (Datagram [1] (sock (V4 7) 9)) bridge_start)
     (sock (V4 7) 9) = Some k"
  using one_mapping_per_source [of bridge_start "list_send CHANNEL" list_receive "[]" "[]" "[1]" "sock (V4 7) 9"]
  by auto

text \<open>
  C30: reconnecting backs off exponentially within bounds: whatever happens, the pause is between 250 ms
  and 8 s, and after \<open>n\<close> attempts that fail in a row it is 250 ms times 2^n, capped at 8 s.
\<close>

theorem backoff_doubles:
  assumes "s = client_run es (client_start start)"
    and "\<forall>(t, u) \<in> set ts. t < ct_deadline s"
  shows "250 \<le> ct_backoff s \<and> ct_backoff s \<le> 8000 \<and>
     (ct_phase s = Dialling \<longrightarrow> ct_backoff s = 250 \<longrightarrow>
        ct_backoff (client_run (failures ts) s) = min (250 * 2 ^ length ts) 8000)"
proof -
  have inv: "backoff_inv s"
    unfolding assms(1) client_run_fold
    by (rule reconnector.inv_fold)
      (auto simp: backoff_inv_def client_start_def BACKOFF_MIN_def BACKOFF_MAX_def intro: exI [of _ 0])
  have "ct_backoff (client_run (failures ts) s) = min (250 * 2 ^ length ts) 8000"
    if "ct_phase s = Dialling" "ct_backoff s = 250"
    using failures_run [OF assms(2) that(1), of 0] that(2) by (simp add: BACKOFF_MIN_def BACKOFF_MAX_def)
  with backoff_bounds [OF inv] show ?thesis by (simp add: BACKOFF_MIN_def BACKOFF_MAX_def)
qed

theorem backoff_doubles_witness:
  "ct_backoff (client_run (failures [(1, 300), (400, 1000), (1100, 2000)]) (client_start 0)) = 2000"
  using backoff_doubles [of "client_start 0" "[]" 0 "[(1, 300), (400, 1000), (1100, 2000)]"]
  by (simp add: client_start_def IDLE_def BACKOFF_MIN_def)

text \<open>
  The relay never serves more connections than its limit, and a connection that ends frees its place.
\<close>

theorem relay_connections_bounded:
  assumes "semaphore acq rel held cap" "held permits = 0"
  shows "let s = fold (serve_turn acq rel) es \<lparr>ls_permits = permits, ls_conns = []\<rparr> in
     length (ls_conns s) \<le> cap \<and> held (ls_permits s) = length (ls_conns s) \<and>
     (k < length (ls_conns s) \<longrightarrow>
        acq (ls_permits (serve_turn acq rel (ConnEnded k) s)) \<noteq> None)"
proof -
  let ?s = "fold (serve_turn acq rel) es \<lparr>ls_permits = permits, ls_conns = []\<rparr>"
  have inv: "listener_inv held cap ?s"
    using listener.inv_fold [of acq rel held cap "\<lparr>ls_permits = permits, ls_conns = []\<rparr>" es] assms
    by (auto simp: listener_inv_def)
  then have "acq (rel (ls_permits ?s)) \<noteq> None" if "k < length (ls_conns ?s)"
    using that by (intro semaphore.acquire_after_release [OF assms(1)]) (auto simp: listener_inv_def)
  with inv show ?thesis by (simp add: Let_def listener_inv_def)
qed

theorem relay_connections_bounded_witness:
  "length (ls_conns (fold (serve_turn (counter_acquire 1) counter_release)
     [Accepted (sock (V4 7) 1), Accepted (sock (V4 7) 2)] \<lparr>ls_permits = 0, ls_conns = []\<rparr>)) \<le> 1"
  using relay_connections_bounded [OF counter.semaphore_axioms, of 0 1
      "[Accepted (sock (V4 7) 1), Accepted (sock (V4 7) 2)]" 0]
  unfolding Let_def by simp

end
