(* ===== verification/Relay_Setup.thy ===== *)
theory Relay_Setup
  imports Ws_Relay
begin

text \<open>
  \<open>crates/wsrelay/src/lib.rs\<close>, around the loops of \<open>Ws_Relay\<close>: the TLS set-up of \<open>serve_limited\<close>, what an
  accepted transport goes through before its pump, how the dialling side reaches the relay, and the command line
  (\<open>crates/wsrelay/src/main.rs\<close>). TLS, the WebSocket handshakes and sockets are arguments.
\<close>

section \<open>The relay's certificate\<close>

record tls_files =
  tls_cert :: string
  tls_key :: string

definition tls_of :: "string option \<Rightarrow> string option \<Rightarrow> tls_files option" where
  "tls_of cert key =
     (case (cert, key) of
        (Some c, Some k) \<Rightarrow> Some \<lparr>tls_cert = c, tls_key = k\<rparr>
      | _ \<Rightarrow> None)"

lemma tls_of_None_iff: "tls_of cert key = None \<longleftrightarrow> cert = None \<or> key = None"
  by (auto simp: tls_of_def split: option.splits)

text \<open>
  The PEM readers and the configuration builder are third-party: certificates and the first private key
  of an opened file (none on a malformed one), and the configuration made of both.
\<close>

record ('c, 'k, 'tls) tls_lib =
  tl_open :: "string \<Rightarrow> string option"
  tl_certs :: "string \<Rightarrow> 'c list option"
  tl_private_key :: "string \<Rightarrow> 'k option option"
  tl_config :: "'c list \<Rightarrow> 'k \<Rightarrow> 'tls option"

datatype serve_error =
    TlsOpen string
  | TlsPem string
  | NoCertificates string
  | NoPrivateKey string
  | TlsPair
  | ListenerAddress

definition tls_acceptor :: "('c, 'k, 'tls) tls_lib \<Rightarrow> tls_files option \<Rightarrow> serve_error + 'tls option" where
  "tls_acceptor T tls =
     (case tls of
        None \<Rightarrow> Inr None
      | Some f \<Rightarrow>
          and_then (ok_or (TlsOpen (tls_cert f)) (tl_open T (tls_cert f))) (\<lambda>cert_text.
          and_then (ok_or (TlsPem (tls_cert f)) (tl_certs T cert_text)) (\<lambda>certs.
          and_then (ensure (certs \<noteq> []) (NoCertificates (tls_cert f))) (\<lambda>_.
          and_then (ok_or (TlsOpen (tls_key f)) (tl_open T (tls_key f))) (\<lambda>key_text.
          and_then (ok_or (TlsPem (tls_key f)) (tl_private_key T key_text)) (\<lambda>k.
          and_then (ok_or (NoPrivateKey (tls_key f)) k) (\<lambda>key.
          and_then (ok_or TlsPair (tl_config T certs key)) (\<lambda>c. Inr (Some c)))))))))"

text \<open>TLS material is accepted only whole: both files open and parse, with a certificate and a key that go together.\<close>

lemma tls_acceptor_Some_iff:
  "tls_acceptor T tls = Inr (Some c) \<longleftrightarrow>
     (\<exists>f cert_text certs key_text key. tls = Some f \<and> tl_open T (tls_cert f) = Some cert_text \<and>
        tl_certs T cert_text = Some certs \<and> certs \<noteq> [] \<and> tl_open T (tls_key f) = Some key_text \<and>
        tl_private_key T key_text = Some (Some key) \<and> tl_config T certs key = Some c)"
  by (cases tls) (auto simp: tls_acceptor_def and_then_Inr_iff)

text \<open>Without files there is no TLS, and with files never a plain listener.\<close>

lemma tls_acceptor_None_iff: "tls_acceptor T tls = Inr None \<longleftrightarrow> tls = None"
  by (cases tls) (auto simp: tls_acceptor_def and_then_Inr_iff)

section \<open>Serving\<close>

definition MAX_CONNS :: nat where
  "MAX_CONNS = 1024"

text \<open>
  \<open>serve_limited\<close> over the events of its listener: \<open>new_semaphore\<close> is Tokio's, \<open>addr_ok\<close> whether the listener's
  own address can be read for the log.
\<close>

definition serve_limited ::
  "('c, 'k, 'tls) tls_lib \<Rightarrow> ('p \<Rightarrow> 'p option) \<Rightarrow> ('p \<Rightarrow> 'p) \<Rightarrow> (nat \<Rightarrow> 'p) \<Rightarrow> bool \<Rightarrow> tls_files option \<Rightarrow> nat
    \<Rightarrow> listener_event list \<Rightarrow> serve_error + 'tls option \<times> 'p listener_state" where
  "serve_limited T try_acquire release new_semaphore addr_ok tls max_conns events =
     and_then (tls_acceptor T tls) (\<lambda>acceptor.
     and_then (ensure addr_ok ListenerAddress) (\<lambda>_.
       Inr (acceptor, fold (serve_turn try_acquire release) events
              \<lparr>ls_permits = new_semaphore max_conns, ls_conns = []\<rparr>)))"

definition serve ::
  "('c, 'k, 'tls) tls_lib \<Rightarrow> ('p \<Rightarrow> 'p option) \<Rightarrow> ('p \<Rightarrow> 'p) \<Rightarrow> (nat \<Rightarrow> 'p) \<Rightarrow> bool \<Rightarrow> tls_files option
    \<Rightarrow> listener_event list \<Rightarrow> serve_error + 'tls option \<times> 'p listener_state" where
  "serve T try_acquire release new_semaphore addr_ok tls events =
     serve_limited T try_acquire release new_semaphore addr_ok tls MAX_CONNS events"

text \<open>
  One accepted transport: the TLS handshake when there is an acceptor, the WebSocket handshake at the relay's
  path, the loopback socket towards the target, then the pump.
\<close>

datatype conn_outcome =
    TlsHandshakeFailed
  | WsHandshakeFailed
  | NotFound
  | UdpSocketFailed
  | Pumped pump

definition accepted_conn ::
  "'tls option \<Rightarrow> ('tls \<Rightarrow> bool) \<Rightarrow> string \<Rightarrow> string option \<Rightarrow> bool \<Rightarrow> (nat \<times> conn_event) list \<Rightarrow> nat \<Rightarrow> conn_outcome" where
  "accepted_conn acceptor tls_accepts path requested udp_ok events now =
     (if (case acceptor of Some a \<Rightarrow> \<not> tls_accepts a | None \<Rightarrow> False) then TlsHandshakeFailed
      else (case requested of
          None \<Rightarrow> WsHandshakeFailed
        | Some uri_path \<Rightarrow>
            if handshake_status path uri_path \<noteq> 101 then NotFound
            else if \<not> udp_ok then UdpSocketFailed
            else Pumped (relay_conn events now)))"

text \<open>The local address of the socket towards the target: loopback, of the target's family.\<close>

definition relay_bind_addr :: "socket_addr \<Rightarrow> socket_addr" where
  "relay_bind_addr target =
     (if is_ipv4 (sa_ip target) then sock (V4 (v4_addr 127 0 0 1)) 0 else sock (V6 1) 0)"

lemma accepted_conn_Pumped_iff:
  "accepted_conn acceptor ok path requested udp_ok events now = Pumped p \<longleftrightarrow>
     pred_option ok acceptor \<and> requested = Some path \<and> udp_ok \<and> p = relay_conn events now"
  by (auto simp: accepted_conn_def handshake_status_def split: option.splits)

section \<open>Reaching the relay\<close>

text \<open>\<open>NoVerify\<close> answers every question about a certificate with its assertion, whatever it is asked about.\<close>

datatype verifier = NoVerify

fun verify_server_cert :: "verifier \<Rightarrow> 'cert \<Rightarrow> bool" where
  "verify_server_cert NoVerify cert = True"

fun verify_tls_signature :: "verifier \<Rightarrow> bytes \<Rightarrow> 'cert \<Rightarrow> 'sig \<Rightarrow> bool" where
  "verify_tls_signature NoVerify message cert sig = True"

definition connector :: "bool \<Rightarrow> verifier option" where
  "connector insecure = (if insecure then Some NoVerify else None)"

definition CONNECT_TIMEOUT :: nat where
  "CONNECT_TIMEOUT = 10"

text \<open>
  The network: a TCP connect that answers within a number of seconds or not, the WebSocket handshake over
  a stream, and the library's own dial, which looks the host of the URL up itself.
\<close>

record ('s, 'w) ws_net =
  wn_tcp :: "socket_addr \<Rightarrow> nat \<Rightarrow> (unit + 's) option"
  wn_client :: "string \<Rightarrow> 's \<Rightarrow> verifier option \<Rightarrow> unit + 'w"
  wn_connect :: "string \<Rightarrow> verifier option \<Rightarrow> unit + 'w"

datatype attempt_error = TcpRefused socket_addr | TcpTimedOut socket_addr | WsRefused

definition connect_attempt ::
  "('s, 'w) ws_net \<Rightarrow> string \<Rightarrow> verifier option \<Rightarrow> socket_addr option \<Rightarrow> attempt_error + 'w" where
  "connect_attempt N url verify addr =
     (case addr of
        Some a \<Rightarrow>
          (case wn_tcp N a CONNECT_TIMEOUT of
             Some (Inr stream) \<Rightarrow> map_sum (\<lambda>_. WsRefused) id (wn_client N url stream verify)
           | Some (Inl _) \<Rightarrow> Inl (TcpRefused a)
           | None \<Rightarrow> Inl (TcpTimedOut a))
      | None \<Rightarrow> map_sum (\<lambda>_. WsRefused) id (wn_connect N url verify))"

text \<open>With an address in hand nothing is looked up: the library's own dial plays no part.\<close>

lemma connect_attempt_no_lookup:
  "connect_attempt N url verify (Some a) = connect_attempt (N\<lparr>wn_connect := f\<rparr>) url verify (Some a)"
  by (simp add: connect_attempt_def split: option.split sum.split)

text \<open>
  The idle timer of a mapping only runs while it pumps: a task that waits for its connection attempt
  stays in that phase whatever else happens, for any length of time.
\<close>

lemma dialling_never_idles:
  assumes "ct_phase s = Dialling" "list_all (\<lambda>(now, e). \<forall>ok. e \<noteq> Dialled ok) es"
  shows "client_run es s = s"
proof -
  have "client_turn now e s = s" if "\<forall>ok. e \<noteq> Dialled ok" for now e
    using that assms(1) by (cases e) auto
  then show ?thesis using assms(2) by (induction es) auto
qed

section \<open>The bridge\<close>

text \<open>
  \<open>run_client_to\<close> over the events of its socket: how each source's task dials, given the network, and the mappings.
  \<open>addr_ok\<close> is whether the socket's own address can be read for the log.
\<close>

datatype bridge_error = BridgeBind socket_addr | BridgeAddress

type_synonym ('s, 'w) dialling = "('s, 'w) ws_net \<Rightarrow> attempt_error + 'w"

definition run_client_to ::
  "(bytes \<Rightarrow> 'q \<Rightarrow> 'q option) \<Rightarrow> ('q \<Rightarrow> (bytes \<times> 'q) option) \<Rightarrow> 'q \<Rightarrow> bool \<Rightarrow> string \<Rightarrow> bool \<Rightarrow> socket_addr option
    \<Rightarrow> bridge_event list \<Rightarrow> bridge_error + ('s, 'w) dialling \<times> 'q bridge" where
  "run_client_to try_send receive q0 addr_ok url insecure addr events =
     and_then (ensure addr_ok BridgeAddress) (\<lambda>_.
       Inr (\<lambda>N. connect_attempt N url (connector insecure) addr,
            fold (bridge_turn try_send receive q0) events bridge_start))"

definition run_client_on ::
  "(bytes \<Rightarrow> 'q \<Rightarrow> 'q option) \<Rightarrow> ('q \<Rightarrow> (bytes \<times> 'q) option) \<Rightarrow> 'q \<Rightarrow> bool \<Rightarrow> string \<Rightarrow> bool
    \<Rightarrow> bridge_event list \<Rightarrow> bridge_error + ('s, 'w) dialling \<times> 'q bridge" where
  "run_client_on try_send receive q0 addr_ok url insecure events =
     run_client_to try_send receive q0 addr_ok url insecure None events"

text \<open>\<open>run_client\<close>: \<open>bind_ok\<close> is whether the socket could be bound.\<close>

definition run_client ::
  "(bytes \<Rightarrow> 'q \<Rightarrow> 'q option) \<Rightarrow> ('q \<Rightarrow> (bytes \<times> 'q) option) \<Rightarrow> 'q \<Rightarrow> (socket_addr \<Rightarrow> bool) \<Rightarrow> bool \<Rightarrow> socket_addr \<Rightarrow> string \<Rightarrow> bool
    \<Rightarrow> bridge_event list \<Rightarrow> bridge_error + ('s, 'w) dialling \<times> 'q bridge" where
  "run_client try_send receive q0 bind_ok addr_ok listen url insecure events =
     and_then (ensure (bind_ok listen) (BridgeBind listen)) (\<lambda>_.
       run_client_on try_send receive q0 addr_ok url insecure events)"

text \<open>
  The Windows client's bridge has an address to dial: its tasks never look a name up, at a time when the resolver
  is only reachable through the tunnel they are to set up.
\<close>

lemma bridge_never_looks_up:
  assumes "run_client_to try_send receive q0 addr_ok url insecure (Some a) events = Inr (dialling, br)"
  shows "dialling N = dialling (N\<lparr>wn_connect := f\<rparr>)"
  using assms connect_attempt_no_lookup [of N url "connector insecure" a f]
  by (auto simp: run_client_to_def and_then_Inr_iff)

text \<open>The standalone bridge has none: its tasks dial by the URL.\<close>

lemma standalone_bridge_dials_url:
  assumes "run_client try_send receive q0 bind_ok addr_ok listen url insecure events = Inr (dialling, br)"
  shows "dialling N = map_sum (\<lambda>_. WsRefused) id (wn_connect N url (connector insecure)) \<and> bridge_inv br"
proof -
  have "br = fold (bridge_turn try_send receive q0) events bridge_start"
    "dialling = (\<lambda>N. connect_attempt N url (connector insecure) None)"
    using assms by (auto simp: run_client_def run_client_on_def run_client_to_def and_then_Inr_iff)
  moreover have "bridge_inv (fold (bridge_turn try_send receive q0) events bridge_start)"
    by (rule bridge.inv_fold) (simp add: bridge_inv_def bridge_start_def)
  ultimately show ?thesis by (simp add: connect_attempt_def)
qed

section \<open>The command line\<close>

datatype bridge_command =
    ClientCmd socket_addr string bool
  | RelayCmd socket_addr string socket_addr "string option" "string option" nat

datatype bridge_run =
    RunClient socket_addr string "verifier option"
  | RunRelay socket_addr "tls_files option" string socket_addr nat

fun bridge_main :: "bridge_command \<Rightarrow> bridge_run" where
  "bridge_main (ClientCmd listen url insecure) = RunClient listen url (connector insecure)"
| "bridge_main (RelayCmd listen path target cert key max_conns) =
     RunRelay listen (tls_of cert key) path target max_conns"

end
