(* ===== verification/Server_Start.thy ===== *)
theory Server_Start
  imports Flow_Egress Relay_Setup
begin

text \<open>
  Bringing the server up: \<open>Config::load\<close> (\<open>crates/server/src/config.rs\<close>), the whole of \<open>start\<close>
  (\<open>crates/server/src/lib.rs\<close>) with the state its tasks share, and the command line
  (\<open>crates/server/src/main.rs\<close>). Reading a file, the JSON parser and binding a socket are arguments.
\<close>

section \<open>Loading a configuration\<close>

datatype 'net load_error = Reading string | Parsing string | Invalid "'net config_error"

definition load ::
  "(string \<Rightarrow> string option) \<Rightarrow> (string \<Rightarrow> 'net config option) \<Rightarrow> key_lib \<Rightarrow> 'net ipnet_lib \<Rightarrow> string
    \<Rightarrow> 'net load_error + 'net config" where
  "load read_file from_json K L path =
     and_then (ok_or (Reading path) (read_file path)) (\<lambda>text.
     and_then (ok_or (Parsing path) (from_json text)) (\<lambda>cfg.
     and_then (map_err Invalid (validate K L cfg)) (\<lambda>_. Inr cfg)))"

section \<open>The state the tasks share\<close>

record ('net, 't, 'l, 'q, 'p) launched =
  la_server :: "('net, 't, 'l, 'q) server"
  la_upstreams :: "upstream list"
  la_flows :: "'p flow_state"
  la_mtu :: u16
  la_udp_timeout :: nat
  la_tcp_timeout :: nat
  la_dns :: "socket_addr option"

definition launch ::
  "'net config \<Rightarrow> ('net, 't, 'l) tables \<Rightarrow> 'q \<Rightarrow> 'p \<Rightarrow> ('net, 't, 'l, 'q, 'p) launched" where
  "launch cfg tb queue permits =
     \<lparr>la_server = \<lparr>sv_net = cfg_address cfg, sv_allow_private = cfg_allow_private cfg,
        sv_allowed = tb_allowed tb, sv_wg = tb_wg tb, sv_to_stack = queue\<rparr>,
      la_upstreams = tb_upstreams tb, la_flows = initial_flows permits cfg,
      la_mtu = config_mtu cfg, la_udp_timeout = config_udp_idle cfg, la_tcp_timeout = config_tcp_idle cfg,
      la_dns = cfg_dns cfg\<rparr>"

section \<open>\<open>start\<close>\<close>

datatype server_task =
    IngressTask
  | EgressTask
  | TimerTask
  | AcceptTask
  | RelayTask "tls_files option" string socket_addr

record running =
  run_udp_addr :: socket_addr
  run_ws_addr :: "socket_addr option"

datatype up_error = UpTables start_error | UpUdpSocket | UpWsListener

text \<open>What binding an address answers: the local address, or an error.\<close>

record sockets =
  bind_udp :: "socket_addr \<Rightarrow> socket_addr option"
  bind_tcp :: "socket_addr \<Rightarrow> socket_addr option"

definition udp_bind_addr :: "'net config \<Rightarrow> socket_addr" where
  "udp_bind_addr cfg = unwrap_or (sock (V4 (v4_addr 127 0 0 1)) 0) (cfg_listen_udp cfg)"

definition relay_tls :: "ws_listen \<Rightarrow> tls_files option" where
  "relay_tls ws = tls_of (ws_cert ws) (ws_key ws)"

text \<open>
  The result, the tasks spawned by then, and the state they share. The listener for WebSockets is bound after
  the data plane has been spawned.
\<close>

definition start ::
  "key_lib \<Rightarrow> ('t, 'l, 'i) boringtun_lib \<Rightarrow> nat \<Rightarrow> sockets \<Rightarrow> 'q \<Rightarrow> 'p \<Rightarrow> 'net config
    \<Rightarrow> (up_error + running) \<times> server_task list \<times> ('net, 't, 'l, 'q, 'p) launched option" where
  "start K B now S queue permits cfg =
     (case start_tables K B now cfg of
        Inl e \<Rightarrow> (Inl (UpTables e), [], None)
      | Inr tb \<Rightarrow>
          (case bind_udp S (udp_bind_addr cfg) of
             None \<Rightarrow> (Inl UpUdpSocket, [], None)
           | Some udp_addr \<Rightarrow>
               (let state = launch cfg tb queue permits;
                    tasks = [IngressTask, EgressTask, TimerTask, AcceptTask]
                in case cfg_listen_ws cfg of
                     None \<Rightarrow> (Inr \<lparr>run_udp_addr = udp_addr, run_ws_addr = None\<rparr>, tasks, Some state)
                   | Some ws \<Rightarrow>
                       (case bind_tcp S (ws_addr ws) of
                          None \<Rightarrow> (Inl UpWsListener, tasks, Some state)
                        | Some a \<Rightarrow>
                            (Inr \<lparr>run_udp_addr = udp_addr, run_ws_addr = Some a\<rparr>,
                             tasks @ [RelayTask (relay_tls ws) (ws_path ws) (relay_target udp_addr)], Some state)))))"

section \<open>The command line\<close>

datatype cli_command = Genkey | Serve string

datatype 'net main_outcome =
    Printed "string list"
  | LoadFailed "'net load_error"
  | StartFailed up_error
  | Serving running

text \<open>\<open>main\<close> until it waits for the interrupt; \<open>random\<close> is what the operating system's generator fills the key with.\<close>

definition server_main ::
  "bytes \<Rightarrow> (string \<Rightarrow> string option) \<Rightarrow> (string \<Rightarrow> 'net config option) \<Rightarrow> key_lib \<Rightarrow> 'net ipnet_lib
    \<Rightarrow> ('t, 'l, 'i) boringtun_lib \<Rightarrow> nat \<Rightarrow> sockets \<Rightarrow> 'q \<Rightarrow> 'p \<Rightarrow> cli_command \<Rightarrow> 'net main_outcome" where
  "server_main random read_file from_json K L B now S queue permits command =
     (case command of
        Genkey \<Rightarrow>
          (let private_key = generate_key random
           in Printed [''private_key: '' @ encode_key K private_key,
                       ''public_key:  '' @ encode_key K (public_key K private_key)])
      | Serve path \<Rightarrow>
          (case load read_file from_json K L path of
             Inl e \<Rightarrow> LoadFailed e
           | Inr cfg \<Rightarrow>
               (case fst (start K B now S queue permits cfg) of
                  Inl e \<Rightarrow> StartFailed e
                | Inr r \<Rightarrow> Serving r)))"

section \<open>What \<open>start\<close> brings up\<close>

lemma load_Inr_iff:
  "load read_file from_json K L path = Inr cfg \<longleftrightarrow>
     (\<exists>text. read_file path = Some text \<and> from_json text = Some cfg) \<and> validate K L cfg = Inr ()"
  by (auto simp: load_def and_then_Inr_iff is_ok_iff)

lemma launch_started:
  "start_tables K B now cfg = Inr tb \<Longrightarrow> items queue = [] \<Longrightarrow> started K B items cfg (la_server (launch cfg tb queue permits))"
  by (auto simp: started_def launch_def)

lemma relay_tls_iff:
  assumes "ws_cert ws = None \<longleftrightarrow> ws_key ws = None"
  shows "relay_tls ws = tls \<longleftrightarrow> ws_cert ws = None \<and> ws_key ws = None \<and> tls = None \<or>
    (\<exists>c k. ws_cert ws = Some c \<and> ws_key ws = Some k \<and> tls = Some \<lparr>tls_cert = c, tls_key = k\<rparr>)"
  using assms by (cases "ws_cert ws"; cases "ws_key ws") (auto simp: relay_tls_def tls_of_def)

lemma tables_exist:
  assumes "config_ok K L cfg" "distinct (map (decode_key K \<circ> pc_public_key) (cfg_peers cfg))"
  shows "\<exists>tb. start_tables K B now cfg = Inr tb"
proof -
  obtain key global where k: "decode_key K (cfg_private_key cfg) = Inr key" "parse_upstream (cfg_upstream cfg) = Inr global"
    using assms(1) by (auto simp: config_ok_def is_ok_iff)
  have "is_ok (start_peers K B global \<lparr>tb_wg = wg_new B now key, tb_allowed = [], tb_upstreams = []\<rparr> (cfg_peers cfg))"
    using assms by (intro start_peers_succeeds) (simp_all add: config_ok_def wg_new_def Let_def)
  with k show ?thesis by (auto simp: start_tables_def is_ok_iff)
qed

lemma tables_upstreams:
  assumes "config_ok K L cfg" "start_tables K B now cfg = Inr tb" "i < length (cfg_peers cfg)"
  shows "parse_upstream (unwrap_or (cfg_upstream cfg) (pc_upstream (cfg_peers cfg ! i))) = Inr (tb_upstreams tb ! i)"
proof -
  obtain global where "parse_upstream (cfg_upstream cfg) = Inr global"
      "tb_upstreams tb = map (own_upstream global) (cfg_peers cfg)"
    using assms(2) by (rule start_tables_spec)
  moreover have "peer_ok K (cfg_peers cfg ! i)"
    using assms(1,3) by (auto simp: config_ok_def list_all_iff)
  ultimately show ?thesis using own_upstream_parses assms(3) by simp
qed

section \<open>Properties\<close>

text \<open>
  C19: a configuration that loads, with distinct peer keys, starts unless a socket cannot be bound. The tables are
  the configuration's (\<open>started\<close>, so the data-plane properties apply), upstream \<open>i\<close> is the one entry \<open>i\<close> names or the
  global one, no counter is missing; one relay is served exactly when configured, at its path, which starts with a
  slash, over TLS with its certificate and its key, or in the clear when neither is given, towards the bound UDP
  address, with 127.0.0.1 for a wildcard.
\<close>

theorem loaded_config_starts:
  assumes "load read_file from_json K L path = Inr cfg"
    and "distinct (map (decode_key K \<circ> pc_public_key) (cfg_peers cfg))"
    and "start K B now S queue permits cfg = (r, tasks, state)" "items queue = []"
  shows "(bind_udp S (udp_bind_addr cfg) = None \<longrightarrow> r = Inl UpUdpSocket \<and> tasks = []) \<and>
     (\<forall>u. bind_udp S (udp_bind_addr cfg) = Some u \<longrightarrow>
        (\<exists>l. state = Some l \<and> started K B items cfg (la_server l) \<and>
           length (fs_counts (la_flows l)) = length (cfg_peers cfg) \<and>
           (\<forall>i < length (cfg_peers cfg).
              parse_upstream (unwrap_or (cfg_upstream cfg) (pc_upstream (cfg_peers cfg ! i))) = Inr (la_upstreams l ! i))) \<and>
        (cfg_listen_ws cfg = None \<longrightarrow>
           r = Inr \<lparr>run_udp_addr = u, run_ws_addr = None\<rparr> \<and> (\<forall>tls path t. RelayTask tls path t \<notin> set tasks)) \<and>
        (\<forall>ws. cfg_listen_ws cfg = Some ws \<longrightarrow>
           (case bind_tcp S (ws_addr ws) of
              None \<Rightarrow> r = Inl UpWsListener \<and> (\<forall>tls path t. RelayTask tls path t \<notin> set tasks)
            | Some a \<Rightarrow> r = Inr \<lparr>run_udp_addr = u, run_ws_addr = Some a\<rparr> \<and> prefix ''/'' (ws_path ws) \<and>
                (\<forall>tls path t. RelayTask tls path t \<in> set tasks \<longleftrightarrow> path = ws_path ws \<and>
                   (ws_cert ws = None \<and> ws_key ws = None \<and> tls = None \<or>
                    (\<exists>c k. ws_cert ws = Some c \<and> ws_key ws = Some k \<and> tls = Some \<lparr>tls_cert = c, tls_key = k\<rparr>)) \<and>
                   t = (if ip_is_unspecified (sa_ip u) then sock (V4 (v4_addr 127 0 0 1)) (sa_port u) else u)))))"
proof -
  have ok: "config_ok K L cfg" using assms(1) by (simp add: load_Inr_iff validate_ok_iff)
  then obtain tb where tb: "start_tables K B now cfg = Inr tb" using tables_exist assms(2) by blast
  show ?thesis
  proof (cases "bind_udp S (udp_bind_addr cfg)")
    case None
    with assms(3) tb show ?thesis by (auto simp: start_def)
  next
    case (Some u)
    let ?l = "launch cfg tb queue permits"
    have l: "started K B items cfg (la_server ?l)" "length (fs_counts (la_flows ?l)) = length (cfg_peers cfg)"
        "\<forall>i < length (cfg_peers cfg). parse_upstream (unwrap_or (cfg_upstream cfg) (pc_upstream (cfg_peers cfg ! i)))
           = Inr (la_upstreams ?l ! i)"
      using launch_started [OF tb, of items queue permits] assms(4) tables_upstreams [OF ok tb] by (simp_all add: launch_def initial_flows_def)
    show ?thesis
    proof (cases "cfg_listen_ws cfg")
      case None
      with assms(3) tb Some l show ?thesis by (auto simp: start_def Let_def)
    next
      case (Some ws)
      have ws: "ws_cert ws = None \<longleftrightarrow> ws_key ws = None" "prefix ''/'' (ws_path ws)"
        using ok Some by (simp_all add: config_ok_def)
      note run = assms(3) tb \<open>bind_udp S (udp_bind_addr cfg) = Some u\<close> Some
      show ?thesis
      proof (cases "bind_tcp S (ws_addr ws)")
        case None
        with run l show ?thesis by (auto simp: start_def Let_def simp del: prefix_code)
      next
        case (Some a)
        with run have started: "r = Inr \<lparr>run_udp_addr = u, run_ws_addr = Some a\<rparr>" "state = Some ?l"
          "tasks = [IngressTask, EgressTask, TimerTask, AcceptTask, RelayTask (relay_tls ws) (ws_path ws) (relay_target u)]"
          by (simp_all add: start_def)
        then have "RelayTask x path t \<in> set tasks \<longleftrightarrow> path = ws_path ws \<and> relay_tls ws = x \<and> t = relay_target u" for x path t
          by auto
        with started(1,2) run(3,4) l ws(2) Some show ?thesis
          by (simp add: relay_tls_iff [OF ws(1)] relay_target_def del: prefix_code)
      qed
    qed
  qed
qed

text \<open>
  C18: the printed keys are usable as they are: what stands after the colon of either line decodes, white space
  and all, to the generated private key and to its public key.
\<close>

theorem genkey_output_is_usable:
  assumes "base64_documented K" "length random = 32" "\<forall>k. length k = 32 \<longrightarrow> length (x25519_public K k) = 32"
  shows "\<exists>private_line public_line t u.
     server_main random read_file from_json K L B now S queue permits Genkey = Printed [private_line, public_line] \<and>
     split_once (CHR '':'') private_line = Some (''private_key'', t) \<and> decode_key K t = Inr (generate_key random) \<and>
     split_once (CHR '':'') public_line = Some (''public_key'', u) \<and>
     decode_key K u = Inr (x25519_public K (generate_key random))"
proof -
  let ?k = "generate_key random"
  have k: "length ?k = 32" using assms(2) by simp
  have "decode_key K ('' '' @ encode_key K ?k) = Inr ?k"
    using decode_key_encode [of K ?k "'' ''" "[]"] assms(1) k by (simp add: ascii_blank_def)
  moreover have "decode_key K (''  '' @ encode_key K (x25519_public K ?k)) = Inr (x25519_public K ?k)"
    using decode_key_encode [of K "x25519_public K ?k" "''  ''" "[]"] assms(1,3) k by (simp add: ascii_blank_def)
  ultimately show ?thesis
    by (simp add: server_main_def Let_def public_key_def)
qed

section \<open>What a started server does not know\<close>

text \<open>
  \<open>start\<close> does not look at the certificate: it answers with the address of the WebSocket listener whatever
  the relay's own set-up finds, which only logs its error and drops the listener.
\<close>

lemma bad_certificate_goes_unnoticed:
  assumes "start K B now S queue permits cfg = (Inr r, tasks, state)" "RelayTask tls path t \<in> set tasks"
    and "tls_acceptor T tls = Inl e"
  shows "run_ws_addr r \<noteq> None \<and> serve T acq rel new_semaphore addr_ok tls events = Inl e"
  using assms by (auto simp: start_def serve_def serve_limited_def Let_def split: sum.splits option.splits)

text \<open>When the WebSocket listener cannot be bound, the data plane is already running.\<close>

lemma failed_listener_leaves_tasks:
  assumes "start K B now S queue permits cfg = (Inl UpWsListener, tasks, state)"
  shows "tasks = [IngressTask, EgressTask, TimerTask, AcceptTask] \<and> state \<noteq> None"
  using assms by (auto simp: start_def Let_def split: sum.splits option.splits)

section \<open>Examples\<close>

definition ex_sockets :: sockets where
  "ex_sockets = \<lparr>bind_udp = (\<lambda>a. Some (sock (sa_ip a) 51820)), bind_tcp = Some\<rparr>"

text \<open>The example with a relay over TLS; its UDP socket is bound to the wildcard.\<close>

definition ex_relay :: ws_listen where
  "ex_relay = \<lparr>ws_addr = sock (V4 0) 443, ws_path = ''/wg'', ws_cert = Some ''cert.pem'', ws_key = Some ''key.pem''\<rparr>"

definition ex_ws_config :: "(ip_addr \<times> nat) config" where
  "ex_ws_config = ex_config\<lparr>cfg_listen_ws := Some ex_relay\<rparr>"

lemma ex_ws_config_valid: "validate nibble_lib cidr_lib ex_ws_config = Inr ()"
  using ex_config_valid by (simp add: validate_ok_iff config_ok_def ex_ws_config_def ex_relay_def)

theorem loaded_config_starts_witness:
  "\<exists>r tasks state. start nibble_lib ex_boringtun 0 ex_sockets ([] :: bytes list) (0 :: nat) ex_ws_config = (r, tasks, state) \<and>
     r = Inr \<lparr>run_udp_addr = sock (V4 0) 51820, run_ws_addr = Some (sock (V4 0) 443)\<rparr> \<and>
     RelayTask (Some \<lparr>tls_cert = ''cert.pem'', tls_key = ''key.pem''\<rparr>) ''/wg'' (sock (V4 (v4_addr 127 0 0 1)) 51820) \<in> set tasks"
proof -
  have l: "load (\<lambda>_. Some ''{}'') (\<lambda>_. Some ex_ws_config) nibble_lib cidr_lib ''config.json'' = Inr ex_ws_config"
    by (simp add: load_Inr_iff ex_ws_config_valid)
  have d: "distinct (map (decode_key nibble_lib \<circ> pc_public_key) (cfg_peers ex_ws_config))"
    by (simp add: ex_ws_config_def ex_config_def ex_peer_def replicate_key_neq)
  obtain r tasks state where s: "start nibble_lib ex_boringtun 0 ex_sockets ([] :: bytes list) (0 :: nat) ex_ws_config
      = (r, tasks, state)"
    by (metis prod_cases3)
  have bound: "bind_udp ex_sockets (udp_bind_addr ex_ws_config) = Some (sock (V4 0) 51820)" "cfg_listen_ws ex_ws_config = Some ex_relay"
    "bind_tcp ex_sockets (ws_addr ex_relay) = Some (sock (V4 0) 443)"
    by (simp_all add: ex_ws_config_def ex_config_def ex_sockets_def udp_bind_addr_def ex_relay_def)
  have "ip_is_unspecified (V4 0)" by (simp add: addr_defs)
  with loaded_config_starts [OF l d s, where items = id] bound
  have "r = Inr \<lparr>run_udp_addr = sock (V4 0) 51820, run_ws_addr = Some (sock (V4 0) 443)\<rparr>"
    "RelayTask (Some \<lparr>tls_cert = ''cert.pem'', tls_key = ''key.pem''\<rparr>) ''/wg'' (sock (V4 (v4_addr 127 0 0 1)) 51820) \<in> set tasks"
    by (simp_all add: ex_relay_def)
  with s show ?thesis by blast
qed

lemma nibble_public_length: "length k = 32 \<Longrightarrow> length (x25519_public nibble_lib k) = 32"
  by (simp add: nibble_lib_def)

theorem genkey_output_is_usable_witness:
  "\<exists>k. decode_key nibble_lib ('' '' @ encode_key nibble_lib (generate_key (replicate 32 7))) = Inr k"
proof -
  obtain a b t u where "server_main (replicate 32 7) (\<lambda>_. None) (\<lambda>_. None) nibble_lib cidr_lib ex_boringtun 0 ex_sockets
       ([] :: bytes list) (0 :: nat) Genkey = Printed [a, b]"
    and t: "split_once (CHR '':'') a = Some (''private_key'', t)"
      "decode_key nibble_lib t = Inr (generate_key (replicate 32 7))"
    using genkey_output_is_usable [of nibble_lib "replicate 32 7" "\<lambda>_. None" "\<lambda>_. None" cidr_lib ex_boringtun 0 ex_sockets
        "[] :: bytes list" "0 :: nat"] nibble_lib_documented nibble_public_length by auto
  then have "t = '' '' @ encode_key nibble_lib (generate_key (replicate 32 7))"
    by (auto simp: server_main_def Let_def)
  with t(2) show ?thesis by blast
qed

end
