(* ===== verification/Rust_Addr.thy ===== *)
theory Rust_Addr
  imports Rust_Net
begin

text \<open>
  Addresses as text: the parsers behind \<open>Ipv4Addr\<close>, \<open>IpAddr\<close> and \<open>SocketAddr\<close>'s \<open>FromStr\<close>, and
  \<open>Ipv4Addr\<close>'s \<open>Display\<close>, as the Rust standard library has them. A parser takes the rest of the input
  and returns a value with what is left. A scope id of an IPv6 socket address is read and dropped.
\<close>

section \<open>Parsing\<close>

type_synonym 'a reader = "string \<Rightarrow> ('a \<times> string) option"

fun digits_value :: "nat \<Rightarrow> nat \<Rightarrow> string \<Rightarrow> nat" where
  "digits_value r acc [] = acc"
| "digits_value r acc (c # cs) = digits_value r (acc * r + (case digit_val r c of Some d \<Rightarrow> d | None \<Rightarrow> 0)) cs"

definition read_number :: "nat \<Rightarrow> nat option \<Rightarrow> bool \<Rightarrow> nat \<Rightarrow> nat reader" where
  "read_number radix max_digits allow_zero_prefix limit s =
     (let ds = takeWhile (\<lambda>c. digit_val radix c \<noteq> None) s; v = digits_value radix 0 ds in
      if ds = [] \<or> (case max_digits of Some m \<Rightarrow> m < length ds | None \<Rightarrow> False) then None
      else if \<not> allow_zero_prefix \<and> hd ds = CHR ''0'' \<and> 1 < length ds then None
      else if limit < v then None
      else Some (v, drop (length ds) s))"

fun read_char :: "char \<Rightarrow> unit reader" where
  "read_char c [] = None"
| "read_char c (x # xs) = (if x = c then Some ((), xs) else None)"

definition read_separator :: "char \<Rightarrow> nat \<Rightarrow> 'a reader \<Rightarrow> 'a reader" where
  "read_separator sep i inner s =
     (if 0 < i then (case read_char sep s of None \<Rightarrow> None | Some (_, s') \<Rightarrow> inner s') else inner s)"

fun read_octets :: "nat \<Rightarrow> nat \<Rightarrow> nat list reader" where
  "read_octets i 0 s = Some ([], s)"
| "read_octets i (Suc n) s =
     (case read_separator (CHR ''.'') i (read_number 10 (Some 3) False 255) s of
        None \<Rightarrow> None
      | Some (o1, s') \<Rightarrow>
          (case read_octets (Suc i) n s' of None \<Rightarrow> None | Some (os, s'') \<Rightarrow> Some (o1 # os, s'')))"

definition read_ipv4 :: "u32 reader" where
  "read_ipv4 s = map_option (\<lambda>(os, r). (of_nat (foldl (\<lambda>a b. a * 256 + b) 0 os), r)) (read_octets 0 4 s)"

function read_groups :: "nat \<Rightarrow> nat \<Rightarrow> u16 list \<Rightarrow> string \<Rightarrow> u16 list \<times> bool \<times> string" where
  "read_groups limit i acc s =
     (if limit \<le> i then (acc, False, s)
      else (case (if i < limit - 1 then read_separator (CHR '':'') i read_ipv4 s else None) of
          Some (a, r) \<Rightarrow> (acc @ [ucast (drop_bit 16 a), ucast a], True, r)
        | None \<Rightarrow>
            (case read_separator (CHR '':'') i (read_number 16 (Some 4) True 65535) s of
               Some (g, r) \<Rightarrow> read_groups limit (Suc i) (acc @ [of_nat g]) r
             | None \<Rightarrow> (acc, False, s))))"
  by pat_completeness auto
termination
  by (relation "measure (\<lambda>(limit, i, acc, s). limit - i)") auto

declare read_groups.simps [simp del]

definition v6_of_segments :: "u16 list \<Rightarrow> u128" where
  "v6_of_segments = foldl (\<lambda>a g. push_bit 16 a OR ucast g) 0"

definition read_ipv6 :: "u128 reader" where
  "read_ipv6 s =
     (case read_groups 8 0 [] s of (head, head_v4, r) \<Rightarrow>
        if length head = 8 then Some (v6_of_segments head, r)
        else if head_v4 then None
        else (case read_char (CHR '':'') r of
            None \<Rightarrow> None
          | Some (_, r1) \<Rightarrow>
              (case read_char (CHR '':'') r1 of
                 None \<Rightarrow> None
               | Some (_, r2) \<Rightarrow>
                   (case read_groups (8 - (length head + 1)) 0 [] r2 of (tail, _, r3) \<Rightarrow>
                      Some (v6_of_segments (head @ replicate (8 - length head - length tail) 0 @ tail), r3)))))"

definition read_port :: "nat reader" where
  "read_port s = (case read_char (CHR '':'') s of None \<Rightarrow> None | Some (_, r) \<Rightarrow> read_number 10 None True 65535 r)"

definition read_scope_id :: "string \<Rightarrow> string" where
  "read_scope_id s =
     (case read_char (CHR ''%'') s of
        None \<Rightarrow> s
      | Some (_, r) \<Rightarrow> (case read_number 10 None True 4294967295 r of None \<Rightarrow> s | Some (_, r') \<Rightarrow> r'))"

definition read_socket_v4 :: "socket_addr reader" where
  "read_socket_v4 s =
     (case read_ipv4 s of
        None \<Rightarrow> None
      | Some (a, r) \<Rightarrow> map_option (\<lambda>(p, r'). (sock (V4 a) (of_nat p), r')) (read_port r))"

definition read_socket_v6 :: "socket_addr reader" where
  "read_socket_v6 s =
     (case read_char (CHR ''['') s of
        None \<Rightarrow> None
      | Some (_, r) \<Rightarrow>
          (case read_ipv6 r of
             None \<Rightarrow> None
           | Some (a, r1) \<Rightarrow>
               (case read_char (CHR '']'') (read_scope_id r1) of
                  None \<Rightarrow> None
                | Some (_, r2) \<Rightarrow> map_option (\<lambda>(p, r'). (sock (V6 a) (of_nat p), r')) (read_port r2))))"

definition parse_with :: "'a reader \<Rightarrow> string \<Rightarrow> 'a option" where
  "parse_with p s = (case p s of Some (x, []) \<Rightarrow> Some x | _ \<Rightarrow> None)"

definition or_read :: "'a reader \<Rightarrow> 'a reader \<Rightarrow> 'a reader" where
  "or_read p q s = (case p s of Some r \<Rightarrow> Some r | None \<Rightarrow> q s)"

definition parse_ipv4 :: "string \<Rightarrow> u32 option" where
  "parse_ipv4 s = (if 15 < length s then None else parse_with read_ipv4 s)"

definition parse_ip :: "string \<Rightarrow> ip_addr option" where
  "parse_ip = parse_with (or_read
     (\<lambda>s. map_option (\<lambda>(a, r). (V4 a, r)) (read_ipv4 s)) (\<lambda>s. map_option (\<lambda>(a, r). (V6 a, r)) (read_ipv6 s)))"

definition parse_socket_addr :: "string \<Rightarrow> socket_addr option" where
  "parse_socket_addr = parse_with (or_read read_socket_v4 read_socket_v6)"

section \<open>Printing IPv4 addresses\<close>

fun show_nat :: "nat \<Rightarrow> string" where
  "show_nat n = (if n < 10 then [char_of (48 + n)] else show_nat (n div 10) @ [char_of (48 + n mod 10)])"

declare show_nat.simps [simp del]

definition show_ipv4 :: "u32 \<Rightarrow> string" where
  "show_ipv4 a =
     show_nat (unat (octet a 0)) @ ''.'' @ show_nat (unat (octet a 1)) @ ''.'' @
     show_nat (unat (octet a 2)) @ ''.'' @ show_nat (unat (octet a 3))"

section \<open>Reading back what is printed\<close>

definition decimal :: "char \<Rightarrow> bool" where
  "decimal c \<longleftrightarrow> digit_val 10 c \<noteq> None"

lemma digit_val_10: "n < 10 \<Longrightarrow> digit_val 10 (char_of (48 + n)) = Some n"
  by (simp add: Let_def)

lemma digits_value_append: "digits_value r acc (xs @ ys) = digits_value r (digits_value r acc xs) ys"
  by (induction xs arbitrary: acc) auto

lemma show_nat_digits: "\<forall>c \<in> set (show_nat n). decimal c"
  by (induction n rule: show_nat.induct)
    (subst show_nat.simps, auto simp: decimal_def digit_val_10 simp del: digit_val.simps)

lemma show_nat_value: "digits_value 10 0 (show_nat n) = n"
proof (induction n rule: show_nat.induct)
  case (1 n)
  show ?case
  proof (cases "n < 10")
    case True
    then show ?thesis by (subst show_nat.simps) (simp add: digit_val_10 del: digit_val.simps)
  next
    case False
    with 1 show ?thesis
      by (subst show_nat.simps) (simp add: digits_value_append digit_val_10 del: digit_val.simps)
  qed
qed

lemma show_nat_nonempty [simp]: "show_nat n \<noteq> []"
  by (subst show_nat.simps) simp

lemma show_nat_length: "n < 10 ^ Suc k \<Longrightarrow> length (show_nat n) \<le> Suc k"
proof (induction k arbitrary: n)
  case 0
  then show ?case by (subst show_nat.simps) simp
next
  case (Suc k)
  then have "n div 10 < 10 ^ Suc k" by (simp add: less_mult_imp_div_less mult.commute)
  with Suc.IH [of "n div 10"] show ?case by (subst show_nat.simps) simp
qed

lemma show_nat_no_zero_prefix: "hd (show_nat n) = CHR ''0'' \<Longrightarrow> n = 0"
proof (induction n rule: show_nat.induct)
  case (1 n)
  show ?case
  proof (cases "n < 10")
    case True
    with "1.prems" have "char_of (48 + n) = CHR ''0''" by (subst (asm) show_nat.simps) simp
    then have "byte (char_of (48 + n)) = 48" by (simp del: byte_char_of)
    with True show ?thesis by simp
  next
    case False
    with "1.prems" have "hd (show_nat (n div 10)) = CHR ''0''"
      by (subst (asm) show_nat.simps) simp
    with "1.IH" False have "n div 10 = 0" by simp
    with False show ?thesis by (simp add: div_eq_0_iff)
  qed
qed

lemma read_number_show:
  assumes "n \<le> m" "n < 10 ^ Suc k" "s = [] \<or> \<not> decimal (hd s)"
  shows "read_number 10 (Some (Suc k)) False m (show_nat n @ s) = Some (n, s)"
proof -
  have tw: "takeWhile (\<lambda>c. digit_val 10 c \<noteq> None) (show_nat n @ s) = show_nat n"
    using show_nat_digits assms(3) by (cases s) (simp_all add: takeWhile_append decimal_def)
  have "\<not> (hd (show_nat n) = CHR ''0'' \<and> 1 < length (show_nat n))"
    using show_nat_no_zero_prefix [of n] by (auto simp: show_nat.simps [of 0])
  with tw show_nat_length [OF assms(2)] assms(1) show ?thesis
    by (simp add: read_number_def show_nat_value Let_def)
qed

lemma decimal_literals [simp]: "\<not> decimal (CHR ''.'')" "\<not> decimal (CHR '':'')"
  by (simp_all add: decimal_def)

lemma read_octets_show:
  assumes "\<forall>n \<in> set (n # ns). n < 256" "s = [] \<or> \<not> decimal (hd s)"
  shows "read_octets (Suc i) (length ns) (concat (map (\<lambda>n. CHR ''.'' # show_nat n) ns) @ s) = Some (ns, s)"
  using assms
proof (induction ns arbitrary: i)
  case (Cons m ms)
  let ?r = "concat (map (\<lambda>n. CHR ''.'' # show_nat n) ms) @ s"
  have "?r = [] \<or> \<not> decimal (hd ?r)" using Cons.prems(2) by (cases ms) auto
  then have "read_number 10 (Some 3) False 255 (show_nat m @ ?r) = Some (m, ?r)"
    using Cons.prems(1) read_number_show [of m 255 2 ?r] by simp
  then have "read_separator (CHR ''.'') (Suc i) (read_number 10 (Some 3) False 255)
      (CHR ''.'' # show_nat m @ ?r) = Some (m, ?r)"
    by (simp add: read_separator_def)
  moreover have "read_octets (Suc (Suc i)) (length ms) ?r = Some (ms, s)"
    using Cons.prems by (intro Cons.IH) simp_all
  ultimately show ?case by simp
qed simp

lemma unat_octets: "foldl (\<lambda>a b. a * 256 + b) 0 (map (\<lambda>i. unat (octet a i)) [0, 1, 2, 3]) = unat a"
proof -
  have "unat a < 4294967296" using unsigned_less [of a, where 'a = nat] by simp
  then have "unat a div 16777216 < 256" by (simp add: less_mult_imp_div_less)
  moreover have "unat a div 16777216 = unat a div 256 div 256 div 256" "unat a div 65536 = unat a div 256 div 256"
    by (simp_all flip: div_mult2_eq)
  ultimately show ?thesis by (simp add: unat_octet)
qed

lemma read_ipv4_show:
  assumes "s = [] \<or> \<not> decimal (hd s)"
  shows "read_ipv4 (show_ipv4 a @ s) = Some (a, s)"
proof -
  let ?o = "\<lambda>i. unat (octet a i)"
  have less: "?o i < 256" for i using unsigned_less [of "octet a i", where 'a = nat] by simp
  let ?r = "concat (map (\<lambda>n. CHR ''.'' # show_nat n) [?o 1, ?o 2, ?o 3]) @ s"
  have "read_number 10 (Some 3) False 255 (show_nat (?o 0) @ ?r) = Some (?o 0, ?r)"
    using less [of 0] read_number_show [of "?o 0" 255 2 ?r] by simp
  moreover have "read_octets 1 3 ?r = Some ([?o 1, ?o 2, ?o 3], s)"
    using read_octets_show [of "?o 0" "[?o 1, ?o 2, ?o 3]" s 0] less assms by (simp add: numeral_3_eq_3)
  moreover have "show_ipv4 a @ s = show_nat (?o 0) @ ?r" by (simp add: show_ipv4_def)
  ultimately have "read_octets 0 4 (show_ipv4 a @ s) = Some ([?o 0, ?o 1, ?o 2, ?o 3], s)"
    by (simp add: read_separator_def numeral_eq_Suc)
  then show ?thesis using unat_octets [of a] by (simp add: read_ipv4_def)
qed

lemma parse_ip_show: "parse_ip (show_ipv4 a) = Some (V4 a)"
  using read_ipv4_show [of "[]" a] by (simp add: parse_ip_def parse_with_def or_read_def)

end
