(* ===== verification/Client_Conf.thy ===== *)
theory Client_Conf
  imports Wgcore_Keys Rust_Addr
begin

text \<open>
  \<open>crates/wgclient/src/lib.rs\<close>, the client's texts: the WireGuard configuration file (\<open>parse_conf\<close>), the
  endpoint URL (\<open>resolve_endpoint\<close>) and the output of \<open>route print\<close> (\<open>parse_routes\<close>). The \<open>ipnet\<close>
  parser and the name lookup are arguments.
\<close>

section \<open>More of Rust's strings\<close>

text \<open>\<open>lines\<close>: a carriage return goes with the newline it precedes; a last empty piece is no line.\<close>

definition strip_cr :: "string \<Rightarrow> string" where
  "strip_cr s = (if s \<noteq> [] \<and> last s = CHR 0x0D then butlast s else s)"

definition lines :: "string \<Rightarrow> string list" where
  "lines s =
     (let ps = split_on (\<lambda>c. c = CHR 0x0A) s
      in map strip_cr (butlast ps) @ (if last ps = [] then [] else [last ps]))"

definition trim_end_matches :: "char \<Rightarrow> string \<Rightarrow> string" where
  "trim_end_matches c s = rev (dropWhile (\<lambda>x. x = c) (rev s))"

definition split_char :: "char \<Rightarrow> string \<Rightarrow> string list" where
  "split_char c = split_on (\<lambda>x. x = c)"

fun take_word :: "string \<Rightarrow> string \<times> string" where
  "take_word [] = ([], [])"
| "take_word (c # cs) =
     (if strip_any ws_seqs (c # cs) \<noteq> None then ([], c # cs)
      else (let (w, r) = take_word cs in (c # w, r)))"

lemma take_word_length: "length (snd (take_word s)) \<le> length s"
  by (induction s) (auto split: prod.splits)

lemma take_word_shorter:
  "s \<noteq> [] \<Longrightarrow> strip_any ws_seqs s = None \<Longrightarrow> length (snd (take_word s)) < length s"
  using take_word_length [of "tl s"] by (cases s) (auto simp: less_Suc_eq_le split: prod.splits)

lemma trim_start_no_ws: "strip_any ws_seqs (trim_start s) = None"
  by (simp add: trim_start_def strip_all_fuel_enough)

lemma strip_all_fuel_length: "length (strip_all_fuel ps n s) \<le> length s"
proof (induction ps n s rule: strip_all_fuel.induct)
  case (2 ps n s)
  show ?case
  proof (cases "strip_any ps s")
    case (Some r)
    then have "length r \<le> length s" by (auto dest: strip_any_SomeD)
    with "2.IH" [OF Some] Some show ?thesis by simp
  qed simp
qed simp

lemma trim_start_length: "length (trim_start s) \<le> length s"
  by (simp add: trim_start_def strip_all_fuel_length)

function split_whitespace :: "string \<Rightarrow> string list" where
  "split_whitespace s =
     (if trim_start s = [] then []
      else fst (take_word (trim_start s)) # split_whitespace (snd (take_word (trim_start s))))"
  by pat_completeness auto
termination
  by (relation "measure length")
    (use take_word_shorter [OF _ trim_start_no_ws] trim_start_length in \<open>auto intro: less_le_trans\<close>)

declare split_whitespace.simps [simp del]

section \<open>The configuration file\<close>

datatype client_endpoint = EpUdp socket_addr | EpUdpHost string | EpWs string bool

record 'net client_config =
  cc_private_key :: string
  cc_peer_public_key :: string
  cc_preshared_key :: "string option"
  cc_address :: 'net
  cc_dns :: "ip_addr list"
  cc_endpoint :: client_endpoint
  cc_allowed_ips :: "'net list"
  cc_mtu :: nat
  cc_keepalive :: "nat option"

text \<open>\<open>ipnet\<close>'s parser and constructor.\<close>

record 'net net_text =
  nt_parse :: "string \<Rightarrow> 'net option"
  nt_new :: "ip_addr \<Rightarrow> nat \<Rightarrow> 'net option"

datatype conf_error =
    MalformedLine string
  | UnknownSection string string
  | Required string
  | BadKey string key_error
  | BadAddress
  | BadAllowedIp string
  | BadEndpoint string
  | BadMtu
  | BadKeepalive

type_synonym settings = "string \<Rightarrow> string option"
type_synonym conf_state = "string \<times> settings \<times> settings"

definition scan_line :: "string \<Rightarrow> conf_state \<Rightarrow> conf_error + conf_state" where
  "scan_line raw st =
     (case st of (section_name, iface, peer) \<Rightarrow>
       let line = trim (hd (split_char (CHR ''#'') raw)) in
       if line = [] then Inr st
       else (case strip_prefix ''['' line of
           Some name \<Rightarrow> Inr (to_ascii_lowercase (trim (trim_end_matches (CHR '']'') name)), iface, peer)
         | None \<Rightarrow>
             (case split_once (CHR ''='') line of
                None \<Rightarrow> Inl (MalformedLine raw)
              | Some (k, v) \<Rightarrow>
                  (let k' = to_ascii_lowercase (trim k); v' = trim v in
                   if section_name = ''interface'' then Inr (section_name, iface(k' \<mapsto> v'), peer)
                   else if section_name = ''peer'' then Inr (section_name, iface, peer(k' \<mapsto> v'))
                   else Inl (UnknownSection k' section_name)))))"

fun scan_lines :: "string list \<Rightarrow> conf_state \<Rightarrow> conf_error + conf_state" where
  "scan_lines [] st = Inr st"
| "scan_lines (l # ls) st = and_then (scan_line l st) (scan_lines ls)"

definition conf_address :: "'net net_text \<Rightarrow> string \<Rightarrow> conf_error + 'net" where
  "conf_address N v =
     (let first = trim (hd (split_char (CHR '','') v)) in
      case split_once (CHR ''/'') first of
        Some _ \<Rightarrow> ok_or BadAddress (nt_parse N first)
      | None \<Rightarrow>
          and_then (ok_or BadAddress (parse_ip first)) (\<lambda>ip.
            ok_or BadAddress (nt_new N ip (if is_ipv4 ip then 32 else 128))))"

definition conf_dns :: "string option \<Rightarrow> ip_addr list" where
  "conf_dns v = (case v of None \<Rightarrow> []
     | Some s \<Rightarrow> List.map_filter (\<lambda>d. parse_ip (trim d)) (split_char (CHR '','') s))"

fun collect :: "('a \<Rightarrow> 'e + 'b) \<Rightarrow> 'a list \<Rightarrow> 'e + 'b list" where
  "collect f [] = Inr []"
| "collect f (x # xs) = and_then (f x) (\<lambda>y. and_then (collect f xs) (\<lambda>ys. Inr (y # ys)))"

definition conf_allowed_ips :: "'net net_text \<Rightarrow> string option \<Rightarrow> conf_error + 'net list" where
  "conf_allowed_ips N v = (case v of None \<Rightarrow> Inr []
     | Some s \<Rightarrow> collect (\<lambda>p. ok_or (BadAllowedIp p) (nt_parse N (trim p)))
         (filter (\<lambda>p. trim p \<noteq> []) (split_char (CHR '','') s)))"

definition conf_endpoint :: "string \<Rightarrow> bool \<Rightarrow> conf_error + client_endpoint" where
  "conf_endpoint raw insecure =
     (let lower = to_ascii_lowercase raw in
      if prefix ''wss://'' lower \<or> prefix ''ws://'' lower then Inr (EpWs raw insecure)
      else (case parse_socket_addr raw of
          Some a \<Rightarrow> Inr (EpUdp a)
        | None \<Rightarrow>
            and_then (ok_or (BadEndpoint raw) (rsplit_once (CHR '':'') raw)) (\<lambda>(host, port).
              if host = [] \<or> parse_u16 port = None then Inl (BadEndpoint raw) else Inr (EpUdpHost raw))))"

definition conf_number :: "conf_error \<Rightarrow> string option \<Rightarrow> conf_error + nat option" where
  "conf_number e v = (case v of None \<Rightarrow> Inr None
     | Some s \<Rightarrow> and_then (ok_or e (parse_u16 s)) (\<lambda>n. Inr (Some n)))"

definition truthy :: "string \<Rightarrow> bool" where
  "truthy v \<longleftrightarrow> to_ascii_lowercase v \<in> {''true'', ''1'', ''yes'', ''on''}"

fun is_ws :: "client_endpoint \<Rightarrow> bool" where
  "is_ws (EpWs _ _) = True"
| "is_ws _ = False"

fun opt_filter :: "('a \<Rightarrow> bool) \<Rightarrow> 'a option \<Rightarrow> 'a option" where
  "opt_filter p None = None"
| "opt_filter p (Some x) = (if p x then Some x else None)"

text \<open>The fields, in the order the source takes them out of the two maps.\<close>

definition conf_fields ::
  "key_lib \<Rightarrow> 'net net_text \<Rightarrow> settings \<Rightarrow> settings \<Rightarrow> conf_error + 'net client_config" where
  "conf_fields K N iface peer =
     and_then (ok_or (Required ''PrivateKey'') (iface ''privatekey'')) (\<lambda>private_key.
     and_then (map_err (BadKey ''PrivateKey'') (decode_key K private_key)) (\<lambda>_.
     and_then (ok_or (Required ''PublicKey'') (peer ''publickey'')) (\<lambda>public.
     and_then (map_err (BadKey ''PublicKey'') (decode_key K public)) (\<lambda>_.
     and_then (case peer ''presharedkey'' of None \<Rightarrow> Inr ()
       | Some psk \<Rightarrow> map_err (BadKey ''PresharedKey'') (decode_key K psk)) (\<lambda>_.
     and_then (ok_or (Required ''Address'') (iface ''address'')) (\<lambda>address_text.
     and_then (conf_address N address_text) (\<lambda>address.
     and_then (conf_allowed_ips N (peer ''allowedips'')) (\<lambda>allowed_ips.
     and_then (ok_or (Required ''Endpoint'') (peer ''endpoint'')) (\<lambda>raw_endpoint.
     and_then (conf_endpoint raw_endpoint
       (case peer ''insecuretls'' of None \<Rightarrow> False | Some v \<Rightarrow> truthy v)) (\<lambda>endpoint.
     and_then (conf_number BadMtu (iface ''mtu'')) (\<lambda>mtu.
     and_then (conf_number BadKeepalive (peer ''persistentkeepalive'')) (\<lambda>keepalive.
       Inr \<lparr>cc_private_key = private_key, cc_peer_public_key = public, cc_preshared_key = peer ''presharedkey'',
            cc_address = address, cc_dns = conf_dns (iface ''dns''), cc_endpoint = endpoint,
            cc_allowed_ips = allowed_ips,
            cc_mtu = unwrap_or (if is_ws endpoint then 1380 else 1420) mtu,
            cc_keepalive = opt_filter (\<lambda>k. 0 < k) keepalive\<rparr>))))))))))))"

definition parse_conf :: "key_lib \<Rightarrow> 'net net_text \<Rightarrow> string \<Rightarrow> conf_error + 'net client_config" where
  "parse_conf K N text =
     and_then (scan_lines (lines text) ([], Map.empty, Map.empty)) (\<lambda>(_, iface, peer). conf_fields K N iface peer)"

section \<open>The endpoint\<close>

datatype resolve_error = NotAUrl | BadUrlScheme string | UnterminatedHost | BadPort | NoHost | NotResolved

text \<open>\<open>lookup_str\<close> and \<open>lookup_pair\<close> are the system's resolver, on \<open>host:port\<close> and on a pair.\<close>

definition url_target :: "string \<Rightarrow> resolve_error + (string \<times> nat)" where
  "url_target url =
     and_then (ok_or NotAUrl (split_once_str ''://'' url)) (\<lambda>(scheme, rest).
     and_then (if to_ascii_lowercase scheme = ''wss'' then Inr 443
       else if to_ascii_lowercase scheme = ''ws'' then Inr (80 :: nat)
       else Inl (BadUrlScheme (to_ascii_lowercase scheme))) (\<lambda>default.
     let authority = hd (split_on (\<lambda>c. c = CHR ''/'' \<or> c = CHR ''?'' \<or> c = CHR ''#'') rest);
         authority = (case rsplit_once (CHR ''@'') authority of None \<Rightarrow> authority | Some (_, h) \<Rightarrow> h)
     in and_then
       (case strip_prefix ''['' authority of
          Some r \<Rightarrow>
            and_then (ok_or UnterminatedHost (split_once (CHR '']'') r)) (\<lambda>(h, tail).
              (case strip_prefix '':'' tail of
                 None \<Rightarrow> Inr (h, default)
               | Some p \<Rightarrow> and_then (ok_or BadPort (parse_u16 p)) (\<lambda>n. Inr (h, n))))
        | None \<Rightarrow>
            (case rsplit_once (CHR '':'') authority of
               Some (h, p) \<Rightarrow> and_then (ok_or BadPort (parse_u16 p)) (\<lambda>n. Inr (h, n))
             | None \<Rightarrow> Inr (authority, default))) (\<lambda>(host, port).
       if host = [] then Inl NoHost else Inr (host, port))))"

definition first_found :: "socket_addr list option \<Rightarrow> resolve_error + socket_addr" where
  "first_found found = (case found of Some (a # _) \<Rightarrow> Inr a | _ \<Rightarrow> Inl NotResolved)"

definition resolve_endpoint ::
  "(string \<Rightarrow> socket_addr list option) \<Rightarrow> (string \<Rightarrow> nat \<Rightarrow> socket_addr list option)
    \<Rightarrow> client_endpoint \<Rightarrow> resolve_error + socket_addr" where
  "resolve_endpoint lookup_str lookup_pair ep =
     (case ep of
        EpUdp a \<Rightarrow> Inr a
      | EpUdpHost h \<Rightarrow> first_found (lookup_str h)
      | EpWs url _ \<Rightarrow> and_then (url_target url) (\<lambda>(host, port). first_found (lookup_pair host port)))"

section \<open>The routing table of Windows\<close>

record route_row =
  rr_dest :: u32
  rr_mask :: u32
  rr_gateway :: string
  rr_iface :: u32
  rr_metric :: nat

definition route_row_of :: "string list \<Rightarrow> route_row option" where
  "route_row_of f =
     (case f of
        [d, m, g, i, t] \<Rightarrow>
          (case (parse_ipv4 d, parse_ipv4 m, parse_ipv4 i, parse_u32 t) of
             (Some dest, Some netmask, Some iface, Some metric) \<Rightarrow>
               Some \<lparr>rr_dest = dest, rr_mask = netmask, rr_gateway = g, rr_iface = iface, rr_metric = metric\<rparr>
           | _ \<Rightarrow> None)
      | _ \<Rightarrow> None)"

fun active_rows :: "bool \<Rightarrow> string list \<Rightarrow> route_row list" where
  "active_rows active [] = []"
| "active_rows active (raw # ls) =
     (let line = trim raw in
      if prefix ''Active Routes:'' line then active_rows True ls
      else if prefix ''Persistent Routes:'' line then []
      else if \<not> active then active_rows active ls
      else (case route_row_of (split_whitespace line) of
          Some r \<Rightarrow> r # active_rows active ls
        | None \<Rightarrow> active_rows active ls))"

fun best_default :: "(nat \<times> u32 \<times> u32) option \<Rightarrow> route_row list \<Rightarrow> (nat \<times> u32 \<times> u32) option" where
  "best_default best [] = best"
| "best_default best (r # rs) =
     (if rr_dest r \<noteq> 0 \<or> rr_mask r \<noteq> 0 then best_default best rs
      else (case parse_ipv4 (rr_gateway r) of
          None \<Rightarrow> best_default best rs
        | Some gw \<Rightarrow>
            if (case best of None \<Rightarrow> True | Some (m, _, _) \<Rightarrow> rr_metric r < m)
            then best_default (Some (rr_metric r, gw, rr_iface r)) rs else best_default best rs))"

definition lan_row :: "u32 \<Rightarrow> route_row \<Rightarrow> bool" where
  "lan_row ifaceip r \<longleftrightarrow>
     rr_iface r = ifaceip \<and> to_ascii_lowercase (rr_gateway r) = to_ascii_lowercase ''on-link'' \<and>
     rr_mask r \<noteq> 0xFFFFFFFF \<and> octet (rr_dest r) 0 \<noteq> 127 \<and> octet (rr_dest r) 0 AND 0xF0 \<noteq> 224 \<and>
     rr_dest r \<noteq> 0xFFFFFFFF"

definition parse_routes :: "string \<Rightarrow> (u32 \<times> u32) option \<times> (u32 \<times> u32) list" where
  "parse_routes text =
     (let rows = active_rows False (lines text) in
      case best_default None rows of
        None \<Rightarrow> (None, [])
      | Some (_, gateway, ifaceip) \<Rightarrow>
          (Some (gateway, ifaceip), map (\<lambda>r. (rr_dest r, rr_mask r)) (filter (lan_row ifaceip) rows)))"

section \<open>Reading back a written file\<close>

definition render_line :: "string \<times> string \<Rightarrow> string" where
  "render_line kv = fst kv @ '' = '' @ snd kv"

definition render_section :: "string \<Rightarrow> (string \<times> string) list \<Rightarrow> string" where
  "render_section name kvs = concat (map (\<lambda>l. l @ [CHR 0x0A]) ((''['' @ name @ '']'') # map render_line kvs))"

definition plain :: "string \<Rightarrow> bool" where
  "plain s \<longleftrightarrow> s \<noteq> [] \<and> (\<forall>c \<in> set s. ascii_graphic c \<and> c \<noteq> CHR ''#'')"

definition setting_ok :: "string \<times> string \<Rightarrow> bool" where
  "setting_ok kv \<longleftrightarrow> plain (fst kv) \<and> CHR ''='' \<notin> set (fst kv) \<and> hd (fst kv) \<noteq> CHR ''['' \<and> plain (snd kv)"

definition lower_keys :: "(string \<times> string) list \<Rightarrow> (string \<times> string) list" where
  "lower_keys kvs = map (\<lambda>(k, v). (to_ascii_lowercase k, v)) kvs"

lemma split_on_append: "\<forall>c \<in> set l. \<not> p c \<Longrightarrow> p x \<Longrightarrow> split_on p (l @ x # r) = l # split_on p r"
  by (induction l) auto

lemma split_on_none: "\<forall>c \<in> set l. \<not> p c \<Longrightarrow> split_on p l = [l]"
  by (induction l) auto

lemma split_char_append: "c \<notin> set l \<Longrightarrow> split_on (\<lambda>x. x = c) (l @ c # r) = l # split_on (\<lambda>x. x = c) r"
  by (rule split_on_append) auto

lemma split_char_none: "c \<notin> set l \<Longrightarrow> split_on (\<lambda>x. x = c) l = [l]"
  by (rule split_on_none) auto

lemma lines_Cons: "CHR 0x0A \<notin> set l \<Longrightarrow> lines (l @ CHR 0x0A # r) = strip_cr l # lines r"
  by (simp add: lines_def split_char_append Let_def)

lemma lines_Nil [simp]: "lines [] = []"
  by (simp add: lines_def)

lemma graphic_not_control: "ascii_graphic c \<Longrightarrow> c \<noteq> CHR 0x0A \<and> c \<noteq> CHR 0x0D \<and> c \<noteq> CHR '' ''"
  by (auto simp: ascii_graphic_def)

lemma plainD: "plain s \<Longrightarrow> s \<noteq> [] \<and> CHR 0x0A \<notin> set s \<and> CHR ''#'' \<notin> set s"
  using graphic_not_control by (auto simp: plain_def)

lemma plain_hd: "plain s \<Longrightarrow> ascii_graphic (hd s)"
  by (simp add: plain_def)

lemma plain_last: "plain s \<Longrightarrow> ascii_graphic (last s)"
  by (simp add: plain_def)

lemma render_line_shape:
  assumes "setting_ok kv"
  shows "render_line kv \<noteq> []" "ascii_graphic (hd (render_line kv))" "ascii_graphic (last (render_line kv))"
    "CHR 0x0A \<notin> set (render_line kv)" "CHR ''#'' \<notin> set (render_line kv)"
    "hd (render_line kv) \<noteq> CHR ''[''"
proof -
  have k: "plain (fst kv)" and v: "plain (snd kv)" and h: "hd (fst kv) \<noteq> CHR ''[''"
    using assms by (simp_all add: setting_ok_def)
  show "render_line kv \<noteq> []" by (simp add: render_line_def)
  show "ascii_graphic (hd (render_line kv))" "hd (render_line kv) \<noteq> CHR ''[''"
    using plainD [OF k] plain_hd [OF k] h by (simp_all add: render_line_def)
  show "ascii_graphic (last (render_line kv))"
    using plainD [OF v] plain_last [OF v] by (simp add: render_line_def)
  show "CHR 0x0A \<notin> set (render_line kv)" "CHR ''#'' \<notin> set (render_line kv)"
    using plainD [OF k] plainD [OF v] by (simp_all add: render_line_def)
qed

lemma scan_setting:
  assumes "setting_ok kv"
  shows "scan_line (render_line kv) (''interface'', i, p) = Inr (''interface'', i(to_ascii_lowercase (fst kv) \<mapsto> snd kv), p)"
    and "scan_line (render_line kv) (''peer'', i, p) = Inr (''peer'', i, p(to_ascii_lowercase (fst kv) \<mapsto> snd kv))"
proof -
  note shape = render_line_shape [OF assms]
  have line: "trim (hd (split_char (CHR ''#'') (render_line kv))) = render_line kv"
    using shape trim_graphic [of "render_line kv"] by (simp add: split_char_def split_char_none)
  have nobr: "strip_prefix ''['' (render_line kv) = None"
    using shape(1,6) by (cases "render_line kv") auto
  have eq: "split_once (CHR ''='') (render_line kv) = Some (fst kv @ '' '', '' '' @ snd kv)"
    using assms split_once_append [of "CHR ''=''" "fst kv @ '' ''" "'' '' @ snd kv"]
    by (auto simp: setting_ok_def render_line_def)
  have trims: "trim (fst kv @ '' '') = fst kv" "trim ('' '' @ snd kv) = snd kv"
    using assms trim_blanks [of "[]" "'' ''" "fst kv"] trim_blanks [of "'' ''" "[]" "snd kv"]
    by (auto simp: setting_ok_def plain_def ascii_blank_def)
  show "scan_line (render_line kv) (''interface'', i, p) = Inr (''interface'', i(to_ascii_lowercase (fst kv) \<mapsto> snd kv), p)"
    "scan_line (render_line kv) (''peer'', i, p) = Inr (''peer'', i, p(to_ascii_lowercase (fst kv) \<mapsto> snd kv))"
    using line nobr eq trims shape(1) by (simp_all add: scan_line_def Let_def)
qed

lemma strip_cr_graphic: "s \<noteq> [] \<Longrightarrow> ascii_graphic (last s) \<Longrightarrow> strip_cr s = s"
  using graphic_not_control by (auto simp: strip_cr_def)

lemma lines_section:
  assumes "\<forall>kv \<in> set kvs. setting_ok kv" "CHR 0x0A \<notin> set name"
  shows "lines (render_section name kvs @ rest) = (''['' @ name @ '']'') # map render_line kvs @ lines rest"
proof -
  have body: "lines (concat (map (\<lambda>l. l @ [CHR 0x0A]) (map render_line kvs)) @ rest) = map render_line kvs @ lines rest"
    using assms(1)
  proof (induction kvs)
    case (Cons kv kvs)
    note shape = render_line_shape [of kv]
    show ?case
      using Cons shape lines_Cons [of "render_line kv" "concat (map (\<lambda>l. l @ [CHR 0x0A]) (map render_line kvs)) @ rest"]
      by (simp add: strip_cr_graphic comp_def)
  qed simp
  have "strip_cr (''['' @ name @ '']'') = ''['' @ name @ '']''"
    by (rule strip_cr_graphic) (simp_all add: ascii_graphic_def)
  with body assms(2) lines_Cons [of "''['' @ name @ '']''" "concat (map (\<lambda>l. l @ [CHR 0x0A]) (map render_line kvs)) @ rest"]
  show ?thesis by (simp add: render_section_def)
qed

lemma scan_lines_append: "scan_lines (xs @ ys) st = and_then (scan_lines xs st) (scan_lines ys)"
proof (induction xs arbitrary: st)
  case (Cons x xs)
  then show ?case by (cases "scan_line x st") auto
qed simp

lemma scan_settings:
  assumes "\<forall>kv \<in> set kvs. setting_ok kv"
  shows "scan_lines (map render_line kvs) (''interface'', i, p) = Inr (''interface'', i ++ map_of (rev (lower_keys kvs)), p)"
    and "scan_lines (map render_line kvs) (''peer'', i, p) = Inr (''peer'', i, p ++ map_of (rev (lower_keys kvs)))"
  using assms
  by (induction kvs arbitrary: i p)
    (auto simp: scan_setting lower_keys_def map_add_def fun_eq_iff split: option.split)

section \<open>Properties of the texts\<close>

lemma lowercase_names:
  "to_ascii_lowercase ''Interface'' = ''interface''" "to_ascii_lowercase ''Peer'' = ''peer''"
  "to_ascii_lowercase ''MTU'' = ''mtu''" "to_ascii_lowercase ''mtu'' = ''mtu''"
  "to_ascii_lowercase ''PublicKey'' = ''publickey''"
  by code_simp+

lemma scan_section_names:
  "scan_line ''[Interface]'' (s, i, p) = Inr (''interface'', i, p)"
  "scan_line ''[Peer]'' (s, i, p) = Inr (''peer'', i, p)"
  using trim_graphic [of "''[Interface]''"] trim_graphic [of "''[Peer]''"]
    trim_graphic [of "''Interface''"] trim_graphic [of "''Peer''"]
  by (simp_all add: scan_line_def split_char_def trim_end_matches_def ascii_graphic_def lowercase_names)

lemma scan_section:
  assumes "\<forall>kv \<in> set iface. setting_ok kv" "\<forall>kv \<in> set peer. setting_ok kv"
  shows "scan_lines (lines (render_section ''Interface'' iface @ render_section ''Peer'' peer)) ([], Map.empty, Map.empty) =
    Inr (''peer'', map_of (rev (lower_keys iface)), map_of (rev (lower_keys peer)))"
  using lines_section [OF assms(1), of "''Interface''" "render_section ''Peer'' peer"]
    lines_section [OF assms(2), of "''Peer''" "[]"]
    scan_settings [OF assms(1), of Map.empty Map.empty]
    scan_settings(2) [OF assms(2), of "map_of (rev (lower_keys iface))" Map.empty]
  by (simp add: scan_lines_append scan_section_names)

text \<open>
  C38: reading back a written configuration. A file with an \<open>[Interface]\<close> and a \<open>[Peer]\<close> section of
  \<open>Key = value\<close> lines parses to the fields taken from exactly those settings: keys in any case, the last of
  several lines with the same key winning, nothing of one section leaking into the other.
\<close>

theorem conf_file_roundtrip:
  assumes "\<forall>kv \<in> set iface. setting_ok kv" "\<forall>kv \<in> set peer. setting_ok kv"
  shows "parse_conf K N (render_section ''Interface'' iface @ render_section ''Peer'' peer) =
    conf_fields K N (map_of (rev (lower_keys iface))) (map_of (rev (lower_keys peer)))"
  using scan_section [OF assms] by (simp add: parse_conf_def)

lemma setting_example: "setting_ok (''MTU'', ''1400'')" "setting_ok (''mtu'', ''9000'')" "setting_ok (''PublicKey'', ''x='')"
  by (simp_all add: setting_ok_def plain_def ascii_graphic_def)

fun endpoint_shape :: "client_endpoint \<Rightarrow> bool" where
  "endpoint_shape (EpUdp a) = True"
| "endpoint_shape (EpUdpHost raw) \<longleftrightarrow>
     (\<exists>host port n. raw = host @ CHR '':'' # port \<and> host \<noteq> [] \<and> CHR '':'' \<notin> set port \<and> parse_u16 port = Some n) \<and>
     parse_socket_addr raw = None"
| "endpoint_shape (EpWs url ins) \<longleftrightarrow>
     prefix ''wss://'' (to_ascii_lowercase url) \<or> prefix ''ws://'' (to_ascii_lowercase url)"

lemma conf_endpoint_shape: "conf_endpoint raw ins = Inr ep \<Longrightarrow> endpoint_shape ep"
  unfolding conf_endpoint_def Let_def
  by (fastforce simp: and_then_Inr_iff split: if_splits option.splits dest!: rsplit_once_SomeD)

lemma conf_number_less: "conf_number e v = Inr (Some n) \<Longrightarrow> n < 65536"
  by (auto simp: conf_number_def and_then_Inr_iff parse_u16_le split: option.splits)

lemma opt_filter_Some [simp]: "opt_filter p x = Some y \<longleftrightarrow> x = Some y \<and> p y"
  by (cases x) auto

text \<open>
  C39: what a parsed configuration promises the engine. Whatever the text: both keys, and the pre-shared key
  when there is one, decode (so \<open>Tunnel::connect\<close> cannot fail on them later), the endpoint is a WebSocket URL, a
  literal address or a \<open>host:port\<close> with a valid port, the MTU fits in 16 bits, and a keepalive is never zero.
\<close>

theorem parse_conf_promises:
  assumes "parse_conf K N text = Inr cfg"
  shows "(\<exists>k. decode_key K (cc_private_key cfg) = Inr k) \<and> (\<exists>k. decode_key K (cc_peer_public_key cfg) = Inr k) \<and>
    (\<forall>psk. cc_preshared_key cfg = Some psk \<longrightarrow> (\<exists>k. decode_key K psk = Inr k)) \<and>
    endpoint_shape (cc_endpoint cfg) \<and> cc_mtu cfg < 65536 \<and>
    (\<forall>k. cc_keepalive cfg = Some k \<longrightarrow> 0 < k \<and> k < 65536)"
proof -
  obtain iface peer where "conf_fields K N iface peer = Inr cfg"
    using assms by (auto simp: parse_conf_def and_then_Inr_iff)
  then obtain priv_text pub_text ep mtu keepalive address allowed where
    priv: "is_ok (decode_key K priv_text)" and pub: "is_ok (decode_key K pub_text)" and
    psk: "case peer ''presharedkey'' of None \<Rightarrow> True | Some psk \<Rightarrow> is_ok (decode_key K psk)" and
    ep: "endpoint_shape ep" and
    mtu: "conf_number BadMtu (iface ''mtu'') = Inr mtu" and
    keep: "conf_number BadKeepalive (peer ''persistentkeepalive'') = Inr keepalive" and
    cfg: "cfg = \<lparr>cc_private_key = priv_text, cc_peer_public_key = pub_text, cc_preshared_key = peer ''presharedkey'',
            cc_address = address, cc_dns = conf_dns (iface ''dns''), cc_endpoint = ep,
            cc_allowed_ips = allowed, cc_mtu = unwrap_or (if is_ws ep then 1380 else 1420) mtu,
            cc_keepalive = opt_filter (\<lambda>k. 0 < k) keepalive\<rparr>"
    unfolding conf_fields_def and_then_Inr_iff
    by (elim exE conjE) (auto dest!: conf_endpoint_shape split: option.splits)
  have "unwrap_or (if is_ws ep then 1380 else 1420) mtu < 65536"
    using mtu by (cases mtu) (auto dest: conf_number_less)
  moreover have "\<forall>k. keepalive = Some k \<longrightarrow> k < 65536"
    using keep by (auto dest: conf_number_less)
  ultimately show ?thesis
    using priv pub psk ep by (auto simp: cfg is_ok_iff split: option.splits)
qed

definition host_net :: "(ip_addr \<times> nat) net_text" where
  "host_net = \<lparr>nt_parse = (\<lambda>s. case split_once (CHR ''/'') s of None \<Rightarrow> None
       | Some (a, p) \<Rightarrow> (case (parse_ip a, parse_u16 p) of (Some ip, Some n) \<Rightarrow> Some (ip, n) | _ \<Rightarrow> None)),
     nt_new = (\<lambda>ip n. Some (ip, n))\<rparr>"

definition sample_key :: string where
  "sample_key = encode_key nibble_lib (replicate 32 0)"

lemma sample_key_decodes: "decode_key nibble_lib sample_key = Inr (replicate 32 0)"
  using decode_key_encode [of nibble_lib "replicate 32 0" "[]" "[]"]
  by (simp add: nibble_lib_documented ascii_blank_def sample_key_def)

lemma sample_key_plain: "plain sample_key"
  by code_simp

definition sample_iface :: "(string \<times> string) list" where
  "sample_iface = [(''PrivateKey'', sample_key), (''Address'', ''10.7.0.2'')]"

definition sample_peer :: "(string \<times> string) list" where
  "sample_peer = [(''PublicKey'', sample_key), (''AllowedIPs'', ''0.0.0.0/0''), (''Endpoint'', ''wss://vpn/t'')]"

lemma sample_digits: "show_nat 0 = ''0''" "show_nat 2 = ''2''" "show_nat 7 = ''7''" "show_nat 10 = ''10''"
  by code_simp+

lemma sample_shows: "show_ipv4 0x0A070002 = ''10.7.0.2''" "show_ipv4 0 = ''0.0.0.0''"
  by (simp_all add: show_ipv4_def octet_def sample_digits)

lemma sample_parses: "parse_ip ''10.7.0.2'' = Some (V4 0x0A070002)" "parse_ip ''0.0.0.0'' = Some (V4 0)"
  using parse_ip_show [of "0x0A070002"] parse_ip_show [of 0] by (simp_all add: sample_shows)

lemma sample_trims: "trim ''10.7.0.2'' = ''10.7.0.2''" "trim ''0.0.0.0/0'' = ''0.0.0.0/0''"
  by (simp_all add: trim_graphic ascii_graphic_def)

lemma sample_address: "conf_address host_net ''10.7.0.2'' = Inr (V4 0x0A070002, 32)"
  by (simp add: conf_address_def split_char_def sample_trims sample_parses host_net_def)

lemma sample_allowed: "conf_allowed_ips host_net (Some ''0.0.0.0/0'') = Inr [(V4 0, 0)]"
  by (simp add: conf_allowed_ips_def split_char_def sample_trims sample_parses host_net_def
      parse_u16_def from_str_radix_def)

lemma sample_endpoint: "conf_endpoint ''wss://vpn/t'' False = Inr (EpWs ''wss://vpn/t'' False)"
  by code_simp

lemma sample_names:
  "map_of (rev (lower_keys sample_iface)) = [''privatekey'' \<mapsto> sample_key, ''address'' \<mapsto> ''10.7.0.2'']"
  "map_of (rev (lower_keys sample_peer)) =
     [''publickey'' \<mapsto> sample_key, ''allowedips'' \<mapsto> ''0.0.0.0/0'', ''endpoint'' \<mapsto> ''wss://vpn/t'']"
proof -
  have "to_ascii_lowercase ''PrivateKey'' = ''privatekey''" "to_ascii_lowercase ''Address'' = ''address''"
    "to_ascii_lowercase ''AllowedIPs'' = ''allowedips''" "to_ascii_lowercase ''Endpoint'' = ''endpoint''"
    by code_simp+
  then show "map_of (rev (lower_keys sample_iface)) = [''privatekey'' \<mapsto> sample_key, ''address'' \<mapsto> ''10.7.0.2'']"
    "map_of (rev (lower_keys sample_peer)) =
     [''publickey'' \<mapsto> sample_key, ''allowedips'' \<mapsto> ''0.0.0.0/0'', ''endpoint'' \<mapsto> ''wss://vpn/t'']"
    by (simp_all add: sample_iface_def sample_peer_def lower_keys_def lowercase_names)
qed

lemma sample_fields:
  "conf_fields nibble_lib host_net (map_of (rev (lower_keys sample_iface))) (map_of (rev (lower_keys sample_peer))) =
   Inr \<lparr>cc_private_key = sample_key, cc_peer_public_key = sample_key, cc_preshared_key = None,
        cc_address = (V4 0x0A070002, 32), cc_dns = [], cc_endpoint = EpWs ''wss://vpn/t'' False,
        cc_allowed_ips = [(V4 0, 0)], cc_mtu = 1380, cc_keepalive = None\<rparr>"
  by (simp add: sample_names conf_fields_def sample_key_decodes sample_address sample_allowed sample_endpoint
      conf_number_def conf_dns_def)

lemma sample_settings: "\<forall>kv \<in> set sample_iface. setting_ok kv" "\<forall>kv \<in> set sample_peer. setting_ok kv"
  by (simp_all add: sample_iface_def sample_peer_def setting_ok_def sample_key_plain)
    (simp_all add: plain_def ascii_graphic_def)

lemma sample_parse:
  "parse_conf nibble_lib host_net (render_section ''Interface'' sample_iface @ render_section ''Peer'' sample_peer) =
      Inr \<lparr>cc_private_key = sample_key, cc_peer_public_key = sample_key, cc_preshared_key = None,
        cc_address = (V4 0x0A070002, 32), cc_dns = [], cc_endpoint = EpWs ''wss://vpn/t'' False,
        cc_allowed_ips = [(V4 0, 0)], cc_mtu = 1380, cc_keepalive = None\<rparr>"
  using scan_section [OF sample_settings] sample_fields by (simp add: parse_conf_def)

theorem conf_file_roundtrip_witness:
  "parse_conf nibble_lib host_net (render_section ''Interface'' [(''MTU'', ''1400''), (''mtu'', ''9000'')] @
     render_section ''Peer'' [(''PublicKey'', ''x='')]) =
   conf_fields nibble_lib host_net [''mtu'' \<mapsto> ''9000''] [''publickey'' \<mapsto> ''x='']"
  using conf_file_roundtrip [of "[(''MTU'', ''1400''), (''mtu'', ''9000'')]" "[(''PublicKey'', ''x='')]" nibble_lib host_net]
  by (simp add: setting_example lower_keys_def lowercase_names)

theorem parse_conf_promises_witness:
  "endpoint_shape (EpWs ''wss://vpn/t'' False) \<and> (\<exists>k. decode_key nibble_lib sample_key = Inr k)"
  using parse_conf_promises [OF sample_parse] by simp

lemma digits_val_value:
  "\<forall>c \<in> set s. decimal c \<Longrightarrow> digits_value 10 acc s \<le> m \<Longrightarrow> digits_val 10 m acc s = Some (digits_value 10 acc s)"
proof (induction s arbitrary: acc)
  case (Cons c s)
  then obtain d where d: "digit_val 10 c = Some d" by (auto simp: decimal_def)
  have grow: "a \<le> digits_value 10 a s" for a
  proof (induction s arbitrary: a)
    case (Cons x xs)
    have "a \<le> a * 10 + (case digit_val 10 x of Some d \<Rightarrow> d | None \<Rightarrow> 0)" by simp
    also have "\<dots> \<le> digits_value 10 (a * 10 + (case digit_val 10 x of Some d \<Rightarrow> d | None \<Rightarrow> 0)) xs" by (rule Cons)
    finally show ?case by (simp only: digits_value.simps)
  qed simp
  from Cons.prems d have v: "digits_value 10 (acc * 10 + d) s \<le> m" by (simp del: digit_val.simps)
  with grow [of "acc * 10 + d"] have "acc * 10 + d \<le> m" by (rule order_trans)
  with Cons.IH [OF _ v] Cons.prems(1) d show ?case by (simp del: digit_val.simps)
qed simp

lemma parse_u16_show: "n < 65536 \<Longrightarrow> parse_u16 (show_nat n) = Some n"
proof -
  assume n: "n < 65536"
  obtain c cs where s: "show_nat n = c # cs" using show_nat_nonempty by (cases "show_nat n") auto
  have "decimal c" using show_nat_digits [of n] s by simp
  then have "c \<noteq> CHR ''+''" by (auto simp: decimal_def)
  moreover have "digits_val 10 65535 0 (show_nat n) = Some n"
    using digits_val_value [OF show_nat_digits, of 0 n 65535] n by (simp add: show_nat_value)
  ultimately show ?thesis by (simp add: parse_u16_def from_str_radix_def s)
qed

definition url_stop :: "char \<Rightarrow> bool" where
  "url_stop c \<longleftrightarrow> c = CHR ''/'' \<or> c = CHR ''?'' \<or> c = CHR ''#''"

definition default_port :: "string \<Rightarrow> nat" where
  "default_port scheme = (if scheme = ''wss'' then 443 else 80)"

definition host_port :: "nat \<Rightarrow> string \<Rightarrow> resolve_error + (string \<times> nat)" where
  "host_port dport authority =
     and_then
       (case strip_prefix ''['' authority of
          Some r \<Rightarrow>
            and_then (ok_or UnterminatedHost (split_once (CHR '']'') r)) (\<lambda>(h, tail).
              (case strip_prefix '':'' tail of
                 None \<Rightarrow> Inr (h, dport)
               | Some p \<Rightarrow> and_then (ok_or BadPort (parse_u16 p)) (\<lambda>n. Inr (h, n))))
        | None \<Rightarrow>
            (case rsplit_once (CHR '':'') authority of
               Some (h, p) \<Rightarrow> and_then (ok_or BadPort (parse_u16 p)) (\<lambda>n. Inr (h, n))
             | None \<Rightarrow> Inr (authority, dport))) (\<lambda>(host, port).
       if host = [] then Inl NoHost else Inr (host, port))"

lemma split_scheme:
  "scheme \<in> {''ws'', ''wss''} \<Longrightarrow> split_once_str ''://'' (scheme @ ''://'' @ rest) = Some (scheme, rest)"
  by auto

lemma scheme_port:
  "scheme \<in> {''ws'', ''wss''} \<Longrightarrow>
   (if to_ascii_lowercase scheme = ''wss'' then Inr 443
    else if to_ascii_lowercase scheme = ''ws'' then Inr (80 :: nat)
    else Inl (BadUrlScheme (to_ascii_lowercase scheme))) = Inr (default_port scheme)"
proof -
  have "to_ascii_lowercase ''ws'' = ''ws''" "to_ascii_lowercase ''wss'' = ''wss''" by code_simp+
  then show "scheme \<in> {''ws'', ''wss''} \<Longrightarrow> ?thesis" by (auto simp: default_port_def)
qed

lemma user_part:
  assumes "user = [] \<or> (\<exists>u. user = u @ ''@'' \<and> (\<forall>c \<in> set u. \<not> url_stop c))" "CHR ''@'' \<notin> set auth"
  shows "\<forall>c \<in> set user. \<not> url_stop c"
    and "(case rsplit_once (CHR ''@'') (user @ auth) of None \<Rightarrow> user @ auth | Some (_, h) \<Rightarrow> h) = auth"
proof -
  show "\<forall>c \<in> set user. \<not> url_stop c"
    using assms(1) by (elim disjE exE conjE) (simp_all add: url_stop_def)
  show "(case rsplit_once (CHR ''@'') (user @ auth) of None \<Rightarrow> user @ auth | Some (_, h) \<Rightarrow> h) = auth"
    using assms(1)
  proof (elim disjE exE conjE)
    fix u assume u: "user = u @ ''@''"
    show ?thesis using rsplit_once_append [OF assms(2), of u] by (simp add: u)
  qed (simp add: rsplit_once_None_iff [THEN iffD2] assms(2))
qed

lemma url_target_authority:
  assumes scheme: "scheme \<in> {''ws'', ''wss''}"
    and user: "user = [] \<or> (\<exists>u. user = u @ ''@'' \<and> (\<forall>c \<in> set u. \<not> url_stop c))"
    and auth: "\<forall>c \<in> set auth. \<not> url_stop c" "CHR ''@'' \<notin> set auth"
    and path: "path = [] \<or> url_stop (hd path)"
  shows "url_target (scheme @ ''://'' @ user @ auth @ path) = host_port (default_port scheme) auth"
proof -
  have stop: "(\<lambda>c. c = CHR ''/'' \<or> c = CHR ''?'' \<or> c = CHR ''#'') = url_stop"
    by (simp add: fun_eq_iff url_stop_def)
  have "\<forall>c \<in> set (user @ auth). \<not> url_stop c"
    using user_part(1) [OF user auth(2)] auth(1) by (simp add: ball_Un)
  moreover have "takeWhile (\<lambda>c. \<not> url_stop c) path = []"
    using path by (cases path) simp_all
  ultimately have "takeWhile (\<lambda>c. \<not> url_stop c) ((user @ auth) @ path) = user @ auth"
    by (subst takeWhile_append2) simp_all
  then have hd: "hd (split_on url_stop (user @ auth @ path)) = user @ auth"
    by (simp add: hd_split_on)
  show ?thesis
    by (simp only: url_target_def split_scheme [OF scheme] ok_or.simps and_then.simps prod.case scheme_port [OF scheme]
        Let_def stop hd host_port_def user_part(2) [OF user auth(2)])
qed

lemma decimal_not_stop: "decimal c \<Longrightarrow> \<not> url_stop c \<and> c \<noteq> CHR ''@''"
  by (auto simp: url_stop_def decimal_def)

lemma show_nat_no_colon: "CHR '':'' \<notin> set (show_nat n)"
  using bspec [OF show_nat_digits, of "CHR '':''" n] decimal_literals(2) by blast

lemma host_port_name:
  assumes "h \<noteq> []" "CHR '':'' \<notin> set h" "CHR ''['' \<notin> set h" "n < 65536"
  shows "host_port d h = Inr (h, d)" "host_port d (h @ '':'' @ show_nat n) = Inr (h, n)"
proof -
  have nobr: "strip_prefix ''['' (h @ r) = None" for r using assms(1,3) by (cases h) simp_all
  show "host_port d h = Inr (h, d)"
    using nobr [of "[]"] assms(1,2) by (simp add: host_port_def rsplit_once_None_iff [THEN iffD2])
  have "rsplit_once (CHR '':'') (h @ '':'' @ show_nat n) = Some (h, show_nat n)"
    using rsplit_once_append [OF show_nat_no_colon, of h n] by simp
  then show "host_port d (h @ '':'' @ show_nat n) = Inr (h, n)"
    using assms(1) by (simp only: host_port_def nobr option.case prod.case parse_u16_show [OF assms(4)]
        ok_or.simps and_then.simps if_False)
qed

lemma host_port_literal:
  assumes "h \<noteq> []" "CHR '']'' \<notin> set h" "n < 65536"
  shows "host_port d (''['' @ h @ '']'') = Inr (h, d)" "host_port d (''['' @ h @ '']:'' @ show_nat n) = Inr (h, n)"
  using assms split_once_append [OF assms(2), of "[]"] split_once_append [OF assms(2), of "'':'' @ show_nat n"]
  by (simp_all add: host_port_def parse_u16_show)

text \<open>
  C39: where a WebSocket endpoint is dialled. The URL's user-info, path, query and fragment never reach the
  lookup; a host name or a bracketed IPv6 literal is looked up as it stands, with the port that follows it or
  the scheme's default, 443 for \<open>wss\<close> and 80 for \<open>ws\<close>.
\<close>

theorem url_target_forms:
  assumes "scheme \<in> {''ws'', ''wss''}"
    and "user = [] \<or> (\<exists>u. user = u @ ''@'' \<and> (\<forall>c \<in> set u. \<not> url_stop c))"
    and "path = [] \<or> url_stop (hd path)"
    and "host \<noteq> []" "CHR '':'' \<notin> set host" "CHR ''['' \<notin> set host" "CHR '']'' \<notin> set lit" "lit \<noteq> []"
    and "\<forall>c \<in> set host \<union> set lit. \<not> url_stop c \<and> c \<noteq> CHR ''@''" "n < 65536"
  shows "url_target (scheme @ ''://'' @ user @ host @ path) = Inr (host, default_port scheme) \<and>
    url_target (scheme @ ''://'' @ user @ (host @ '':'' @ show_nat n) @ path) = Inr (host, n) \<and>
    url_target (scheme @ ''://'' @ user @ (''['' @ lit @ '']'') @ path) = Inr (lit, default_port scheme) \<and>
    url_target (scheme @ ''://'' @ user @ (''['' @ lit @ '']:'' @ show_nat n) @ path) = Inr (lit, n)"
proof -
  have host: "\<forall>c \<in> set host. \<not> url_stop c" "CHR ''@'' \<notin> set host"
    and lit: "\<forall>c \<in> set lit. \<not> url_stop c" "CHR ''@'' \<notin> set lit"
    using assms(9) by (fastforce simp: ball_Un)+
  have port: "\<forall>c \<in> set (show_nat n). \<not> url_stop c" "CHR ''@'' \<notin> set (show_nat n)"
    using show_nat_digits [of n] decimal_not_stop by blast+
  have marks: "\<not> url_stop (CHR '':'')" "\<not> url_stop (CHR ''['')" "\<not> url_stop (CHR '']'')"
    by (simp_all add: url_stop_def)
  note urls = url_target_authority [OF assms(1,2) _ _ assms(3)]
  note names = host_port_name [OF assms(4-6,10)] and lits = host_port_literal [OF assms(8,7,10)]
  show ?thesis
    by (intro conjI; subst urls)
      (use host lit port marks in \<open>simp_all only: names lits set_append ball_Un Un_iff list.set insert_iff empty_iff
        ball_simps char.inject simp_thms\<close>)
qed

theorem url_target_forms_witness:
  "url_target ''wss://me@vpn.example:90/t'' = Inr (''vpn.example'', 90)"
proof -
  have port: "show_nat 90 = ''90''" by code_simp
  show ?thesis
    using url_target_forms [of "''wss''" "''me@''" "''/t''" "''vpn.example''" "''::1''" 90]
    by (simp add: url_stop_def port)
qed

section \<open>Properties of the routing table\<close>

definition default_row :: "route_row \<Rightarrow> bool" where
  "default_row r \<longleftrightarrow> rr_dest r = 0 \<and> rr_mask r = 0 \<and> parse_ipv4 (rr_gateway r) \<noteq> None"

definition marker :: "string \<Rightarrow> bool" where
  "marker l \<longleftrightarrow> prefix ''Active Routes:'' (trim l) \<or> prefix ''Persistent Routes:'' (trim l)"

definition table_rows :: "string list \<Rightarrow> route_row list" where
  "table_rows ls = List.map_filter (\<lambda>l. route_row_of (split_whitespace (trim l))) ls"

lemma active_rows_before: "\<forall>l \<in> set ls. \<not> marker l \<Longrightarrow> active_rows False (ls @ rs) = active_rows False rs"
  by (induction ls) (simp_all add: marker_def Let_def)

lemma active_rows_body: "\<forall>l \<in> set ls. \<not> marker l \<Longrightarrow> active_rows True (ls @ rs) = table_rows ls @ active_rows True rs"
  by (induction ls) (simp_all add: marker_def Let_def table_rows_def List.map_filter_def split: option.split)

lemma active_rows_table:
  assumes "\<forall>l \<in> set (pre @ body). \<not> marker l" "prefix ''Active Routes:'' (trim a)"
    "prefix ''Persistent Routes:'' (trim b)"
  shows "active_rows False (pre @ a # body @ b # post) = table_rows body"
proof -
  have "\<not> prefix ''Active Routes:'' (trim b)"
    using assms(3) by (auto simp: prefix_def)
  with assms show ?thesis
    by (simp add: active_rows_before active_rows_body ball_Un Let_def)
qed

lemma best_default_None: "best_default best rs = None \<longleftrightarrow> best = None \<and> (\<forall>r \<in> set rs. \<not> default_row r)"
  by (induction best rs rule: best_default.induct) (auto simp: default_row_def split: option.split)

lemma best_default_Some:
  "best_default best rs = Some (m, g, i) \<Longrightarrow>
   (best = Some (m, g, i) \<or>
    (\<exists>r \<in> set rs. default_row r \<and> rr_metric r = m \<and> parse_ipv4 (rr_gateway r) = Some g \<and> rr_iface r = i)) \<and>
   (\<forall>r \<in> set rs. default_row r \<longrightarrow> m \<le> rr_metric r) \<and> (\<forall>b \<in> set_option best. m \<le> fst b)"
proof (induction best rs rule: best_default.induct)
  case (2 best r rs)
  show ?case
  proof (cases "default_row r")
    case False
    then have "best_default best (r # rs) = best_default best rs"
      by (auto simp: default_row_def)
    with "2.prems" "2.IH" False show ?thesis
      by (auto simp: default_row_def split: option.splits if_splits)
  next
    case True
    then obtain gw where row: "rr_dest r = 0" "rr_mask r = 0" "parse_ipv4 (rr_gateway r) = Some gw"
      by (auto simp: default_row_def)
    show ?thesis
    proof (cases "case best of None \<Rightarrow> True | Some (m, _, _) \<Rightarrow> rr_metric r < m")
      case True
      with row "2.prems" have "best_default (Some (rr_metric r, gw, rr_iface r)) rs = Some (m, g, i)" by simp
      with row True "2.IH"(3) have
        "(rr_metric r = m \<and> gw = g \<and> rr_iface r = i \<or>
          (\<exists>r \<in> set rs. default_row r \<and> rr_metric r = m \<and> parse_ipv4 (rr_gateway r) = Some g \<and> rr_iface r = i)) \<and>
         (\<forall>r \<in> set rs. default_row r \<longrightarrow> m \<le> rr_metric r) \<and> m \<le> rr_metric r"
        by simp
      with row True \<open>default_row r\<close> show ?thesis by (auto split: option.splits)
    next
      case False
      with row "2.prems" have "best_default best rs = Some (m, g, i)" by simp
      with row False "2.IH"(4) have
        "(best = Some (m, g, i) \<or>
          (\<exists>r \<in> set rs. default_row r \<and> rr_metric r = m \<and> parse_ipv4 (rr_gateway r) = Some g \<and> rr_iface r = i)) \<and>
         (\<forall>r \<in> set rs. default_row r \<longrightarrow> m \<le> rr_metric r) \<and> (\<forall>b \<in> set_option best. m \<le> fst b)"
        by simp
      with False show ?thesis by (auto split: option.splits)
    qed
  qed
qed simp

text \<open>
  C40: what \<open>open\<close> learns from \<open>route print\<close>. Only the rows between the two headings count, whatever else the
  command prints. No gateway is reported exactly when no active default row names one; otherwise it is that of
  a default row of least metric, with that row's interface, and the subnets reported are exactly the on-link
  rows of that interface that are neither hosts, loopback, multicast nor broadcast.
\<close>

theorem parse_routes_table:
  assumes "lines text = pre @ a # body @ b # post" "\<forall>l \<in> set (pre @ body). \<not> marker l"
    and "prefix ''Active Routes:'' (trim a)" "prefix ''Persistent Routes:'' (trim b)"
  shows "case fst (parse_routes text) of
      None \<Rightarrow> (\<forall>r \<in> set (table_rows body). \<not> default_row r) \<and> snd (parse_routes text) = []
    | Some (gw, ifaceip) \<Rightarrow>
        (\<exists>r \<in> set (table_rows body). default_row r \<and> parse_ipv4 (rr_gateway r) = Some gw \<and> rr_iface r = ifaceip \<and>
           (\<forall>r' \<in> set (table_rows body). default_row r' \<longrightarrow> rr_metric r \<le> rr_metric r')) \<and>
        snd (parse_routes text) = map (\<lambda>r. (rr_dest r, rr_mask r)) (filter (lan_row ifaceip) (table_rows body))"
proof -
  have rows: "active_rows False (lines text) = table_rows body"
    using active_rows_table [OF assms(2-4)] by (simp add: assms(1))
  show ?thesis
  proof (cases "best_default None (table_rows body)")
    case None
    then have "parse_routes text = (None, [])" by (simp add: parse_routes_def rows)
    with None show ?thesis by (simp add: best_default_None)
  next
    case (Some best)
    obtain m g i where best: "best = (m, g, i)" by (cases best) auto
    then have "parse_routes text =
        (Some (g, i), map (\<lambda>r. (rr_dest r, rr_mask r)) (filter (lan_row i) (table_rows body)))"
      using Some by (simp add: parse_routes_def rows)
    moreover obtain r where "r \<in> set (table_rows body)" "default_row r" "rr_metric r = m"
      "parse_ipv4 (rr_gateway r) = Some g" "rr_iface r = i"
      using best_default_Some [OF Some [unfolded best]] by blast
    moreover have "\<forall>r' \<in> set (table_rows body). default_row r' \<longrightarrow> m \<le> rr_metric r'"
      using best_default_Some [OF Some [unfolded best]] by blast
    ultimately show ?thesis by auto
  qed
qed

definition sample_table :: string where
  "sample_table = ''Interface List'' @ [CHR 0x0A] @ ''Active Routes:'' @ [CHR 0x0A] @
     ''0.0.0.0 0.0.0.0 10.0.0.1 10.0.0.2 25'' @ [CHR 0x0A] @ ''Persistent Routes:'' @ [CHR 0x0A]"

text \<open>Words of printable characters, apart by one blank.\<close>

definition word_text :: "string \<Rightarrow> bool" where
  "word_text w \<longleftrightarrow> w \<noteq> [] \<and> (\<forall>c \<in> set w. ascii_graphic c)"

lemma strip_any_word: "ascii_graphic c \<Longrightarrow> strip_any ws_seqs (c # r) = None"
  by (intro strip_any_graphic ws_ends) simp_all

lemma strip_any_blank: "strip_any ws_seqs (CHR '' '' # r) = Some r"
  by (rule strip_any_ws_char) simp

lemma take_word_graphic:
  "\<forall>c \<in> set w. ascii_graphic c \<Longrightarrow> take_word (w @ CHR '' '' # r) = (w, CHR '' '' # r)"
  "\<forall>c \<in> set w. ascii_graphic c \<Longrightarrow> take_word w = (w, [])"
  by (induction w) (simp_all add: strip_any_word strip_any_blank)

lemma split_whitespace_blank: "split_whitespace (CHR '' '' # r) = split_whitespace r"
  by (simp add: split_whitespace.simps [of "CHR '' '' # r"] split_whitespace.simps [of r] trim_start_def strip_any_blank)

lemma split_whitespace_word:
  assumes "word_text w"
  shows "split_whitespace (w @ CHR '' '' # r) = w # split_whitespace r" "split_whitespace w = [w]"
proof -
  have start: "trim_start (w @ s) = w @ s" for s
    using assms by (intro trim_start_id disjI2) (simp add: word_text_def)
  have none: "split_whitespace [] = []" by (simp add: split_whitespace.simps trim_start_def)
  show "split_whitespace (w @ CHR '' '' # r) = w # split_whitespace r" "split_whitespace w = [w]"
    using assms start [of "CHR '' '' # r"] start [of "[]"]
    by (simp_all add: split_whitespace.simps [of "w @ CHR '' '' # r"] split_whitespace.simps [of w]
        word_text_def take_word_graphic split_whitespace_blank none)
qed

definition sample_row :: route_row where
  "sample_row = \<lparr>rr_dest = 0, rr_mask = 0, rr_gateway = ''10.0.0.1'', rr_iface = 0x0A000002, rr_metric = 25\<rparr>"

lemma sample_row_parses:
  "table_rows [''0.0.0.0 0.0.0.0 10.0.0.1 10.0.0.2 25''] = [sample_row]" "parse_ipv4 ''10.0.0.1'' = Some 0x0A000001"
proof -
  have digits: "show_nat 0 = ''0''" "show_nat 1 = ''1''" "show_nat 2 = ''2''" "show_nat 10 = ''10''" by code_simp+
  have texts: "show_ipv4 0 = ''0.0.0.0''" "show_ipv4 0x0A000001 = ''10.0.0.1''" "show_ipv4 0x0A000002 = ''10.0.0.2''"
    by (simp_all add: show_ipv4_def octet_def digits [unfolded One_nat_def] digits)
  have parses: "parse_ipv4 ''0.0.0.0'' = Some 0" "parse_ipv4 ''10.0.0.1'' = Some 0x0A000001"
    "parse_ipv4 ''10.0.0.2'' = Some 0x0A000002"
    using read_ipv4_show [of "[]" 0] read_ipv4_show [of "[]" "0x0A000001"] read_ipv4_show [of "[]" "0x0A000002"]
    by (simp_all add: texts parse_ipv4_def parse_with_def)
  have words: "word_text ''0.0.0.0''" "word_text ''10.0.0.1''" "word_text ''10.0.0.2''" "word_text ''25''"
    by (simp_all add: word_text_def ascii_graphic_def)
  have "trim ''0.0.0.0 0.0.0.0 10.0.0.1 10.0.0.2 25'' = ''0.0.0.0 0.0.0.0 10.0.0.1 10.0.0.2 25''"
    by (simp add: trim_graphic ascii_graphic_def)
  moreover have "split_whitespace ''0.0.0.0 0.0.0.0 10.0.0.1 10.0.0.2 25'' =
      [''0.0.0.0'', ''0.0.0.0'', ''10.0.0.1'', ''10.0.0.2'', ''25'']"
    using split_whitespace_word(1) [OF words(1), of "''0.0.0.0 10.0.0.1 10.0.0.2 25''"]
      split_whitespace_word(1) [OF words(1), of "''10.0.0.1 10.0.0.2 25''"]
      split_whitespace_word(1) [OF words(2), of "''10.0.0.2 25''"]
      split_whitespace_word(1) [OF words(3), of "''25''"] split_whitespace_word(2) [OF words(4)]
    by simp
  ultimately show "table_rows [''0.0.0.0 0.0.0.0 10.0.0.1 10.0.0.2 25''] = [sample_row]"
    by (simp add: table_rows_def map_filter_simps route_row_of_def parses sample_row_def parse_u32_def from_str_radix_def)
  show "parse_ipv4 ''10.0.0.1'' = Some 0x0A000001" by (rule parses)
qed

lemma sample_lines:
  "lines sample_table =
      [''Interface List''] @ ''Active Routes:'' # [''0.0.0.0 0.0.0.0 10.0.0.1 10.0.0.2 25''] @ ''Persistent Routes:'' # []"
  by code_simp

lemma sample_markers:
  "\<forall>l \<in> set ([''Interface List''] @ [''0.0.0.0 0.0.0.0 10.0.0.1 10.0.0.2 25'']). \<not> marker l"
  "prefix ''Active Routes:'' (trim ''Active Routes:'')" "prefix ''Persistent Routes:'' (trim ''Persistent Routes:'')"
  by (simp_all add: marker_def trim_graphic ascii_graphic_def)

lemma sample_routes: "parse_routes sample_table = (Some (0x0A000001, 0x0A000002), [])"
proof -
  have "active_rows False (lines sample_table) = [sample_row]"
    unfolding sample_lines using active_rows_table [OF sample_markers] by (simp add: sample_row_parses)
  moreover have "to_ascii_lowercase ''10.0.0.1'' \<noteq> to_ascii_lowercase ''on-link''" by code_simp
  ultimately have "\<not> lan_row ifaceip sample_row" for ifaceip by (simp add: lan_row_def sample_row_def)
  moreover note \<open>active_rows False (lines sample_table) = [sample_row]\<close>
  moreover have "best_default None [sample_row] = Some (25, 0x0A000001, 0x0A000002)"
    by (simp add: sample_row_def sample_row_parses(2))
  ultimately show ?thesis by (simp add: parse_routes_def)
qed

theorem parse_routes_table_witness:
  "fst (parse_routes sample_table) = Some (0x0A000001, 0x0A000002) \<and> (\<exists>r \<in> set [sample_row]. default_row r)"
  using parse_routes_table [OF sample_lines sample_markers] unfolding sample_row_parses(1) sample_routes by auto

end
