(* ===== verification/Client_Engine.thy ===== *)
theory Client_Engine
  imports Client_Conf Wgcore
begin

text \<open>
  \<open>crates/wgclient/src/lib.rs\<close>, the engine: \<open>Tunnel::connect_to\<close>, its two device threads and three tasks, the
  wait for the first handshake, \<open>stats\<close> and \<open>close\<close>. An event is one turn of one thread or task, with what
  the device, the socket or the clock answered; a run is a sequence of events, so the threads interleave freely.
\<close>

section \<open>State\<close>

type_synonym u64 = "64 word"

definition HANDSHAKE_TIMEOUT :: nat where
  "HANDSHAKE_TIMEOUT = 10000"

text \<open>
  \<open>en_handle\<close> is the sender kept in the \<open>Tunnel\<close>; a channel closes for its reader when no sender is left and
  for its senders when the task that reads it has ended.
\<close>

record ('t, 'l) engine =
  en_wg :: "('t, 'l) wg"
  en_peer :: socket_addr
  en_rx :: u64
  en_tx :: u64
  en_v6_dropped :: u64
  en_from_tun :: "bytes list"
  en_to_tun :: "bytes list"
  en_reader :: bool
  en_writer :: bool
  en_net :: bool
  en_uplink :: bool
  en_timer :: bool
  en_bridge :: bool
  en_handle :: bool
  en_shutdown :: bool

datatype engine_event =
    TunRecv "bytes option"
  | TunSent bool
  | SockRecv "bytes option"
  | Uplink
  | Tick nat

text \<open>What a turn puts on the socket and on the device.\<close>

record effects =
  fx_sent :: "bytes list"
  fx_written :: "bytes list"

definition no_effects :: effects where
  "no_effects = \<lparr>fx_sent = [], fx_written = []\<rparr>"

definition add_effects :: "effects \<Rightarrow> effects \<Rightarrow> effects" where
  "add_effects a b = \<lparr>fx_sent = fx_sent a @ fx_sent b, fx_written = fx_written a @ fx_written b\<rparr>"

section \<open>The threads and tasks\<close>

definition count_sent :: "bytes list \<Rightarrow> u64 \<Rightarrow> u64" where
  "count_sent ds tx = fold (\<lambda>d n. n + of_nat (length d)) ds tx"

definition is_v6 :: "bytes \<Rightarrow> bool" where
  "is_v6 p \<longleftrightarrow> p \<noteq> [] \<and> drop_bit 4 (hd p) = 6"

text \<open>The read thread: one \<open>Tun::recv\<close> and the test at the head of its loop.\<close>

definition tun_reader :: "bytes option \<Rightarrow> ('t, 'l) engine \<Rightarrow> ('t, 'l) engine" where
  "tun_reader r e =
     (if \<not> en_reader e then e
      else (case r of
          None \<Rightarrow> e\<lparr>en_reader := False\<rparr>
        | Some p \<Rightarrow>
            if p = [] then e\<lparr>en_reader := \<not> en_shutdown e\<rparr>
            else if \<not> en_uplink e then e\<lparr>en_reader := False\<rparr>
            else e\<lparr>en_from_tun := en_from_tun e @ [p], en_reader := \<not> en_shutdown e\<rparr>))"

text \<open>The write thread: the next packet, and whether \<open>Tun::send\<close> took it.\<close>

definition tun_writer :: "bool \<Rightarrow> ('t, 'l) engine \<Rightarrow> ('t, 'l) engine \<times> effects" where
  "tun_writer accepted e =
     (if \<not> en_writer e then (e, no_effects)
      else (case en_to_tun e of
          [] \<Rightarrow> (e\<lparr>en_writer := en_net e \<or> en_handle e\<rparr>, no_effects)
        | p # ps \<Rightarrow>
            if accepted then (e\<lparr>en_to_tun := ps\<rparr>, no_effects\<lparr>fx_written := [p]\<rparr>)
            else (e\<lparr>en_to_tun := [], en_writer := False\<rparr>, no_effects)))"

text \<open>The socket task. \<open>None\<close> as the result is a decapsulation that never ends.\<close>

definition net_task ::
  "('t, 'l, 'i) boringtun_lib \<Rightarrow> bytes option \<Rightarrow> ('t, 'l) engine \<Rightarrow> (('t, 'l) engine \<times> effects) option" where
  "net_task B r e =
     (if \<not> en_net e then Some (e, no_effects)
      else (case r of
          None \<Rightarrow> Some (e, no_effects)
        | Some datagram \<Rightarrow>
            (let rx = en_rx e + of_nat (length datagram) in
             case recv_from_network B (en_wg e) (en_peer e) datagram [] [] of
               None \<Rightarrow> None
             | Some (wg', net_out, ip_out, _) \<Rightarrow>
                 (let e' = e\<lparr>en_wg := wg', en_rx := rx, en_tx := count_sent net_out (en_tx e)\<rparr> in
                  Some (if ip_out = [] then e'
                        else if en_writer e then e'\<lparr>en_to_tun := en_to_tun e @ ip_out\<rparr>
                        else e'\<lparr>en_net := False\<rparr>,
                    no_effects\<lparr>fx_sent := net_out\<rparr>)))))"

text \<open>The uplink task: IPv6 is counted and dropped, the rest goes to the only peer.\<close>

definition uplink_task ::
  "('t, 'l, 'i) boringtun_lib \<Rightarrow> ('t, 'l) engine \<Rightarrow> ('t, 'l) engine \<times> effects" where
  "uplink_task B e =
     (if \<not> en_uplink e then (e, no_effects)
      else (case en_from_tun e of
          [] \<Rightarrow> (e\<lparr>en_uplink := en_reader e\<rparr>, no_effects)
        | p # ps \<Rightarrow>
            (let e1 = e\<lparr>en_from_tun := ps\<rparr> in
             if is_v6 p then (e1\<lparr>en_v6_dropped := en_v6_dropped e + 1\<rparr>, no_effects)
             else
               (let (wg', net_out) = encapsulate B (en_wg e) 0 p []
                in (e1\<lparr>en_wg := wg', en_tx := count_sent net_out (en_tx e)\<rparr>, no_effects\<lparr>fx_sent := net_out\<rparr>)))))"

definition timer_task ::
  "('t, 'l, 'i) boringtun_lib \<Rightarrow> nat \<Rightarrow> ('t, 'l) engine \<Rightarrow> ('t, 'l) engine \<times> effects" where
  "timer_task B now e =
     (if \<not> en_timer e then (e, no_effects)
      else
        (let (wg', out) = update_timers B now (en_wg e) []
         in (e\<lparr>en_wg := wg', en_tx := count_sent (map snd out) (en_tx e)\<rparr>, no_effects\<lparr>fx_sent := map snd out\<rparr>)))"

fun engine_turn ::
  "('t, 'l, 'i) boringtun_lib \<Rightarrow> engine_event \<Rightarrow> ('t, 'l) engine \<Rightarrow> (('t, 'l) engine \<times> effects) option" where
  "engine_turn B (TunRecv r) e = Some (tun_reader r e, no_effects)"
| "engine_turn B (TunSent accepted) e = Some (tun_writer accepted e)"
| "engine_turn B (SockRecv r) e = net_task B r e"
| "engine_turn B Uplink e = Some (uplink_task B e)"
| "engine_turn B (Tick now) e = Some (timer_task B now e)"

fun engine_run ::
  "('t, 'l, 'i) boringtun_lib \<Rightarrow> engine_event list \<Rightarrow> ('t, 'l) engine \<Rightarrow> (('t, 'l) engine \<times> effects) option" where
  "engine_run B [] e = Some (e, no_effects)"
| "engine_run B (ev # evs) e =
     (case engine_turn B ev e of
        None \<Rightarrow> None
      | Some (e', fx) \<Rightarrow> map_option (\<lambda>(e'', fx'). (e'', add_effects fx fx')) (engine_run B evs e'))"

section \<open>Connecting, statistics, closing\<close>

datatype connect_error =
    ConnPrivateKey key_error
  | ConnPresharedKey key_error
  | ConnPeerKey key_error
  | ConnDuplicate
  | ConnIo
  | ConnNoHandshake

text \<open>
  Up to the spawned tasks: the keys, the endpoint with its one peer, the loopback address of the WebSocket
  bridge (\<open>None\<close> when it could not be bound) and whether the socket could be bound and connected. An error comes with
  whether the bridge's task, spawned before the socket is bound, is left running.
\<close>

definition engine_start ::
  "key_lib \<Rightarrow> ('t, 'l, 'i) boringtun_lib \<Rightarrow> nat \<Rightarrow> 'net client_config \<Rightarrow> socket_addr \<Rightarrow> socket_addr option \<Rightarrow> bool
    \<Rightarrow> (connect_error \<times> bool) + ('t, 'l) engine" where
  "engine_start K B now cfg remote bridge sock_ok =
     and_then (map_sum (\<lambda>e. (ConnPrivateKey e, False)) id (decode_key K (cc_private_key cfg))) (\<lambda>priv.
     and_then (case cc_preshared_key cfg of None \<Rightarrow> Inr None
       | Some s \<Rightarrow> map_sum (\<lambda>e. (ConnPresharedKey e, False)) Some (decode_key K s)) (\<lambda>psk.
     and_then (map_sum (\<lambda>e. (ConnPeerKey e, False)) id (decode_key K (cc_peer_public_key cfg))) (\<lambda>pub.
     and_then (map_sum (\<lambda>_. (ConnDuplicate, False)) fst
       (add_peer B (wg_new B now priv) pub psk (map_option of_nat (cc_keepalive cfg)))) (\<lambda>wg.
     and_then (if is_ws (cc_endpoint cfg) then ok_or (ConnIo, False) bridge else Inr remote) (\<lambda>peer.
     and_then (ensure sock_ok (ConnIo, is_ws (cc_endpoint cfg))) (\<lambda>_.
       Inr \<lparr>en_wg = wg, en_peer = peer, en_rx = 0, en_tx = 0, en_v6_dropped = 0,
            en_from_tun = [], en_to_tun = [], en_reader = True, en_writer = True, en_net = True,
            en_uplink = True, en_timer = True, en_bridge = is_ws (cc_endpoint cfg), en_handle = True,
            en_shutdown = False\<rparr>))))))"

text \<open>Every task aborted: the uplink's queue goes with it.\<close>

definition abort_tasks :: "('t, 'l) engine \<Rightarrow> ('t, 'l) engine" where
  "abort_tasks e =
     e\<lparr>en_net := False, en_uplink := False, en_timer := False, en_bridge := False, en_from_tun := []\<rparr>"

text \<open>How a connection attempt ends, with the engine (or the lone bridge) it leaves behind.\<close>

datatype ('t, 'l) connect_outcome =
    Rejected connect_error bool
  | Connected "('t, 'l) engine"
  | Failed connect_error "('t, 'l) engine"
  | Waiting "('t, 'l) engine"

fun send_init :: "(bytes \<Rightarrow> bool) \<Rightarrow> bytes list \<Rightarrow> ('t, 'l) engine \<Rightarrow> bool \<times> ('t, 'l) engine" where
  "send_init sent_ok [] e = (True, e)"
| "send_init sent_ok (d # ds) e =
     (let e1 = e\<lparr>en_tx := en_tx e + of_nat (length d)\<rparr>
      in if sent_ok d then send_init sent_ok ds e1 else (False, e1))"

text \<open>The polls of the handshake wait: the clock at each, and what the tasks did in the sleep after it.\<close>

fun await_handshake ::
  "('t, 'l, 'i) boringtun_lib \<Rightarrow> nat \<Rightarrow> (nat \<times> engine_event list) list \<Rightarrow> ('t, 'l) engine
    \<Rightarrow> ('t, 'l) connect_outcome option" where
  "await_handshake B deadline [] e = Some (Waiting e)"
| "await_handshake B deadline ((now, evs) # polls) e =
     (if time_since_last_handshake B (en_wg e) 0 \<noteq> None then Some (Connected e)
      else if deadline \<le> now
      then Some (Failed ConnNoHandshake ((abort_tasks e)\<lparr>en_shutdown := True, en_handle := False\<rparr>))
      else (case engine_run B evs e of
          None \<Rightarrow> None
        | Some (e', _) \<Rightarrow> await_handshake B deadline polls e'))"

text \<open>\<open>early\<close> is what the tasks do before the initiation is sent, \<open>t0\<close> the clock after it.\<close>

definition connect_to ::
  "key_lib \<Rightarrow> ('t, 'l, 'i) boringtun_lib \<Rightarrow> nat \<Rightarrow> 'net client_config \<Rightarrow> socket_addr \<Rightarrow> socket_addr option \<Rightarrow> bool
    \<Rightarrow> engine_event list \<Rightarrow> (bytes \<Rightarrow> bool) \<Rightarrow> nat \<Rightarrow> (nat \<times> engine_event list) list
    \<Rightarrow> ('t, 'l) connect_outcome option" where
  "connect_to K B now cfg remote bridge sock_ok early sent_ok t0 polls =
     (case engine_start K B now cfg remote bridge sock_ok of
        Inl (err, bridging) \<Rightarrow> Some (Rejected err bridging)
      | Inr e0 \<Rightarrow>
          (case engine_run B early e0 of
             None \<Rightarrow> None
           | Some (e1, _) \<Rightarrow>
               (let (wg', init) = encapsulate B (en_wg e1) 0 [] [];
                    (ok, e2) = send_init sent_ok init (e1\<lparr>en_wg := wg'\<rparr>)
                in if \<not> ok then Some (Failed ConnIo (e2\<lparr>en_handle := False\<rparr>))
                   else await_handshake B (t0 + HANDSHAKE_TIMEOUT) polls e2)))"

record engine_stats =
  st_rx_bytes :: u64
  st_tx_bytes :: u64
  st_v6_dropped :: u64
  st_last_handshake :: "nat option"
  st_connected_since :: nat

definition stats ::
  "('t, 'l, 'i) boringtun_lib \<Rightarrow> nat \<Rightarrow> nat \<Rightarrow> ('t, 'l) engine \<Rightarrow> engine_stats" where
  "stats B now connected_since e =
     \<lparr>st_rx_bytes = en_rx e, st_tx_bytes = en_tx e, st_v6_dropped = en_v6_dropped e,
      st_last_handshake = (case time_since_last_handshake B (en_wg e) 0 of
          None \<Rightarrow> None
        | Some d \<Rightarrow> if d \<le> now then Some (now - d) else None),
      st_connected_since = connected_since\<rparr>"

definition close :: "('t, 'l) engine \<Rightarrow> ('t, 'l) engine" where
  "close e = (abort_tasks (e\<lparr>en_shutdown := True\<rparr>))\<lparr>en_handle := False\<rparr>"

section \<open>Runs\<close>

lemma map_sum_Inr_iff: "map_sum f g r = Inr y \<longleftrightarrow> (\<exists>x. r = Inr x \<and> y = g x)"
  by (cases r) auto

lemma no_effects_sel [simp]: "fx_sent no_effects = []" "fx_written no_effects = []"
  by (simp_all add: no_effects_def)

lemma add_effects_sel [simp]:
  "fx_sent (add_effects a b) = fx_sent a @ fx_sent b" "fx_written (add_effects a b) = fx_written a @ fx_written b"
  by (simp_all add: add_effects_def)

lemma engine_run_Cons:
  "engine_run B (ev # evs) e = Some (e'', fx) \<longleftrightarrow>
     (\<exists>e' fx1 fx2. engine_turn B ev e = Some (e', fx1) \<and> engine_run B evs e' = Some (e'', fx2) \<and> fx = add_effects fx1 fx2)"
  by (auto split: option.splits)

lemmas task_defs = tun_reader_def tun_writer_def net_task_def uplink_task_def timer_task_def

lemmas turn_splits = if_splits option.splits list.splits prod.splits

text \<open>What a turn takes in: a function of the state it starts in and its event, gathered along a run.\<close>

fun trace ::
  "('t, 'l, 'i) boringtun_lib \<Rightarrow> (('t, 'l) engine \<Rightarrow> engine_event \<Rightarrow> 'a list) \<Rightarrow> engine_event list
    \<Rightarrow> ('t, 'l) engine \<Rightarrow> 'a list" where
  "trace B f [] e = []"
| "trace B f (ev # evs) e = f e ev @ (case engine_turn B ev e of None \<Rightarrow> [] | Some (e', _) \<Rightarrow> trace B f evs e')"

fun received :: "('t, 'l) engine \<Rightarrow> engine_event \<Rightarrow> bytes list" where
  "received e (SockRecv (Some d)) = (if en_net e then [d] else [])"
| "received e _ = []"

fun accepted_reads :: "('t, 'l) engine \<Rightarrow> engine_event \<Rightarrow> bytes list" where
  "accepted_reads e (TunRecv (Some p)) = (if en_reader e \<and> en_uplink e \<and> p \<noteq> [] then [p] else [])"
| "accepted_reads e _ = []"

fun taken :: "('t, 'l) engine \<Rightarrow> engine_event \<Rightarrow> bytes list" where
  "taken e Uplink = (if en_uplink e then take 1 (en_from_tun e) else [])"
| "taken e _ = []"

fun decrypted :: "('t, 'l, 'i) boringtun_lib \<Rightarrow> ('t, 'l) engine \<Rightarrow> engine_event \<Rightarrow> bytes list" where
  "decrypted B e (SockRecv (Some d)) =
     (if en_net e then
        (case recv_from_network B (en_wg e) (en_peer e) d [] [] of None \<Rightarrow> [] | Some (_, _, ip_out, _) \<Rightarrow> ip_out)
      else [])"
| "decrypted B e _ = []"

lemma idle_takes_nothing [simp]:
  "\<not> en_net e \<Longrightarrow> received e (SockRecv r) = []"
  "\<not> en_net e \<Longrightarrow> decrypted B e (SockRecv r) = []"
  "\<not> en_reader e \<Longrightarrow> accepted_reads e (TunRecv r) = []"
  by (cases r; simp)+

lemma count_sent_sum: "count_sent ds tx = tx + of_nat (sum_list (map length ds))"
  unfolding count_sent_def by (induction ds arbitrary: tx) (simp_all add: algebra_simps)

lemma turn_rx:
  "engine_turn B ev e = Some (e', fx) \<Longrightarrow> en_rx e' = en_rx e + of_nat (sum_list (map length (received e ev)))"
  by (cases ev) (auto simp: task_defs Let_def split: turn_splits)

lemma turn_tx:
  "engine_turn B ev e = Some (e', fx) \<Longrightarrow> en_tx e' = en_tx e + of_nat (sum_list (map length (fx_sent fx)))"
  by (cases ev) (auto simp: task_defs count_sent_sum Let_def split: turn_splits)

lemma turn_v6:
  "engine_turn B ev e = Some (e', fx) \<Longrightarrow>
   en_v6_dropped e' = en_v6_dropped e + of_nat (length (filter is_v6 (taken e ev)))"
  by (cases ev) (auto simp: task_defs Let_def split: turn_splits)

lemma turn_writer:
  assumes "engine_turn B ev e = Some (e', fx)" "en_writer e'"
  shows "en_writer e \<and> en_to_tun e @ decrypted B e ev = fx_written fx @ en_to_tun e'"
  using assms by (cases ev) (auto simp: task_defs Let_def split: turn_splits)

lemma turn_uplink:
  assumes "engine_turn B ev e = Some (e', fx)" "en_uplink e'"
  shows "en_uplink e \<and> en_from_tun e @ accepted_reads e ev = taken e ev @ en_from_tun e'"
  using assms by (cases ev) (auto simp: task_defs Let_def split: turn_splits)

lemma run_accounts:
  "engine_run B evs e = Some (e', fx) \<Longrightarrow>
     en_rx e' = en_rx e + of_nat (sum_list (map length (trace B received evs e))) \<and>
     en_tx e' = en_tx e + of_nat (sum_list (map length (fx_sent fx))) \<and>
     en_v6_dropped e' = en_v6_dropped e + of_nat (length (filter is_v6 (trace B taken evs e)))"
proof (induction evs arbitrary: e fx)
  case (Cons ev evs)
  then obtain e1 fx1 fx2 where turn: "engine_turn B ev e = Some (e1, fx1)"
    and run: "engine_run B evs e1 = Some (e', fx2)" and fx: "fx = add_effects fx1 fx2"
    unfolding engine_run_Cons by blast
  from Cons.IH [OF run] turn_rx [OF turn] turn_tx [OF turn] turn_v6 [OF turn] show ?case
    by (simp add: turn fx add.assoc)
qed simp

lemma run_downlink:
  "engine_run B evs e = Some (e', fx) \<Longrightarrow> en_writer e' \<Longrightarrow>
     en_writer e \<and> en_to_tun e @ trace B (decrypted B) evs e = fx_written fx @ en_to_tun e'"
proof (induction evs arbitrary: e fx)
  case (Cons ev evs)
  then obtain e1 fx1 fx2 where turn: "engine_turn B ev e = Some (e1, fx1)"
    and run: "engine_run B evs e1 = Some (e', fx2)" and fx: "fx = add_effects fx1 fx2"
    unfolding engine_run_Cons by blast
  from Cons.IH [OF run Cons.prems(2)] turn_writer [OF turn] show ?case
    by (simp add: turn fx) (metis append.assoc)
qed simp

lemma run_uplink:
  "engine_run B evs e = Some (e', fx) \<Longrightarrow> en_uplink e' \<Longrightarrow>
     en_uplink e \<and> en_from_tun e @ trace B accepted_reads evs e = trace B taken evs e @ en_from_tun e'"
proof (induction evs arbitrary: e fx)
  case (Cons ev evs)
  then obtain e1 fx1 fx2 where turn: "engine_turn B ev e = Some (e1, fx1)"
    and run: "engine_run B evs e1 = Some (e', fx2)" and fx: "fx = add_effects fx1 fx2"
    unfolding engine_run_Cons by blast
  from Cons.IH [OF run Cons.prems(2)] turn_uplink [OF turn] show ?case
    by (simp add: turn) (metis append.assoc)
qed simp

text \<open>An engine whose tasks have been told to stop: nothing is sent, the writer only drains its queue.\<close>

definition wound_down :: "('t, 'l) engine \<Rightarrow> bool" where
  "wound_down e \<longleftrightarrow> \<not> en_net e \<and> \<not> en_uplink e \<and> \<not> en_timer e \<and> \<not> en_bridge e \<and> \<not> en_handle e \<and> en_shutdown e"

definition drain_left :: "('t, 'l) engine \<Rightarrow> nat" where
  "drain_left e = (if en_writer e then Suc (length (en_to_tun e)) else 0)"

fun is_write :: "engine_event \<Rightarrow> bool" where
  "is_write (TunSent _) = True"
| "is_write _ = False"

fun is_read :: "engine_event \<Rightarrow> bool" where
  "is_read (TunRecv _) = True"
| "is_read _ = False"

lemma wound_down_turn:
  assumes "wound_down e" "engine_turn B ev e = Some (e', fx)"
  shows "wound_down e' \<and> fx_sent fx = [] \<and> en_wg e' = en_wg e \<and> (en_reader e' \<longrightarrow> en_reader e \<and> \<not> is_read ev) \<and>
    drain_left e' \<le> drain_left e - (if is_write ev then 1 else 0) \<and>
    (\<exists>rest. en_to_tun e = fx_written fx @ rest \<and> (en_writer e' \<longrightarrow> en_to_tun e' = rest) \<and>
       (\<not> en_writer e \<longrightarrow> fx_written fx = []))"
  using assms
  by (cases ev) (auto simp: wound_down_def drain_left_def task_defs Let_def split: turn_splits)

lemma writer_stays_down: "engine_turn B ev e = Some (e', fx) \<Longrightarrow> en_writer e' \<Longrightarrow> en_writer e"
  using turn_writer by blast

lemma wound_down_run:
  "wound_down e \<Longrightarrow> engine_run B evs e = Some (e', fx) \<Longrightarrow>
     wound_down e' \<and> fx_sent fx = [] \<and> en_wg e' = en_wg e \<and> (en_reader e' \<longrightarrow> en_reader e \<and> \<not> list_ex is_read evs) \<and>
     drain_left e' \<le> drain_left e - length (filter is_write evs) \<and>
     (\<exists>rest. en_to_tun e = fx_written fx @ rest) \<and> (\<not> en_writer e \<longrightarrow> fx_written fx = [])"
proof (induction evs arbitrary: e fx)
  case (Cons ev evs)
  from Cons.prems(2) obtain e1 fx1 fx2 where turn: "engine_turn B ev e = Some (e1, fx1)"
    and run: "engine_run B evs e1 = Some (e', fx2)" and fx: "fx = add_effects fx1 fx2"
    unfolding engine_run_Cons by blast
  note first = wound_down_turn [OF Cons.prems(1) turn]
  from first obtain rest where rest: "en_to_tun e = fx_written fx1 @ rest" "en_writer e1 \<longrightarrow> en_to_tun e1 = rest"
    by blast
  note later = Cons.IH [OF conjunct1 [OF first] run]
  have "\<exists>r. en_to_tun e = fx_written fx @ r"
    using rest later by (cases "en_writer e1") (auto simp: fx)
  moreover have "\<not> en_writer e \<longrightarrow> fx_written fx = []"
    using first later writer_stays_down [OF turn] by (auto simp: fx)
  ultimately show ?case using first later by (auto simp: fx)
qed auto

lemma close_drains:
  "drain_left (close e) \<le> Suc (length (en_to_tun e))" "en_to_tun (close e) = en_to_tun e" "en_wg (close e) = en_wg e"
  by (simp_all add: drain_left_def close_def abort_tasks_def)

text \<open>The endpoint is only moved by \<open>Wg\<close>'s own operations.\<close>

lemma recv_returns: "flushes B q \<Longrightarrow> recv_from_network B wg from d net_out ip_out \<noteq> None"
  unfolding recv_from_network_def
  using decap_loop_returns [of B q]
  by (auto simp: Let_def split: prod.split sum.split tunn_result.split option.split) (metis option.distinct(1))

lemma engine_run_returns:
  assumes "flushes B q"
  shows "\<exists>e' fx. engine_run B evs e = Some (e', fx)"
proof (induction evs arbitrary: e)
  case (Cons ev evs)
  have "engine_turn B ev e \<noteq> None"
    by (cases ev) (auto simp: net_task_def Let_def recv_returns [OF assms] split: option.splits)
  then obtain e1 fx1 where "engine_turn B ev e = Some (e1, fx1)" by auto
  moreover obtain e' fx2 where "engine_run B evs e1 = Some (e', fx2)" using Cons by blast
  ultimately show ?case by simp
qed simp

text \<open>Whatever the sessions' own operations keep, runs keep, as long as only IPv6 packets are exempt.\<close>

definition sessions_keep :: "('t, 'l, 'i) boringtun_lib \<Rightarrow> ('t \<Rightarrow> bool) \<Rightarrow> bool" where
  "sessions_keep B P \<longleftrightarrow>
     (\<forall>ip d t l. P t \<longrightarrow> P (fst (bt_decapsulate B ip d t l))) \<and>
     (\<forall>t. P t \<longrightarrow> P (fst (bt_update_timers B t))) \<and>
     (\<forall>p t. P t \<and> \<not> is_v6 p \<longrightarrow> P (fst (bt_encapsulate B p t)))"

definition sessions :: "('t, 'l) wg \<Rightarrow> 't set" where
  "sessions wg = peer_tunn ` set (wg_peers wg)"

lemma decap_loop_keeps:
  assumes "decap_loop B ip input t l net ip_out = Some y" "sessions_keep B P" "P t"
  shows "P (fst y)"
proof -
  have "P t \<longrightarrow> sessions_keep B P \<longrightarrow> P (fst y)"
    using _ assms(1)
  proof (rule decap_loop.raw_induct [where P = "\<lambda>B ip input t l net ip_out y. P t \<longrightarrow> sessions_keep B P \<longrightarrow> P (fst y)"])
    fix f B ip input t l net ip_out y
    assume IH: "\<And>B ip input t l net ip_out y.
        f B ip input t l net ip_out = Some y \<Longrightarrow> P t \<longrightarrow> sessions_keep B P \<longrightarrow> P (fst y)"
      and eq: "(case bt_decapsulate B ip input t l of (t', l', r) \<Rightarrow>
       (case r of
          TDone \<Rightarrow> Some (t', l', net, ip_out, Some False)
        | TErr \<Rightarrow> Some (t', l', net, ip_out, None)
        | TWriteToNetwork b \<Rightarrow> f B ip [] t' l' (net @ [b]) ip_out
        | TWriteToTunnelV4 b _ \<Rightarrow> Some (t', l', net, ip_out @ [b], Some True)
        | TWriteToTunnelV6 b _ \<Rightarrow> Some (t', l', net, ip_out @ [b], Some True))) = Some y"
    show "P t \<longrightarrow> sessions_keep B P \<longrightarrow> P (fst y)"
    proof (intro impI)
      assume "P t" and keep: "sessions_keep B P"
      obtain t' l' r where d: "bt_decapsulate B ip input t l = (t', l', r)" by (cases "bt_decapsulate B ip input t l")
      have "P (fst (bt_decapsulate B ip input t l))" using \<open>P t\<close> keep by (simp add: sessions_keep_def)
      then have "P t'" by (simp add: d)
      with eq d keep IH show "P (fst y)" by (cases r) auto
    qed
  qed
  with assms show ?thesis by blast
qed

lemma sessions_update: "x \<in> sessions (wg\<lparr>wg_peers := (wg_peers wg)[i := p], wg_limiter := l\<rparr>) \<Longrightarrow>
  x = peer_tunn p \<or> x \<in> sessions wg"
  unfolding sessions_def using set_update_subset_insert [of "wg_peers wg" i p] by auto

lemma recv_keeps:
  assumes "recv_from_network B wg from d net_out ip_out = Some (wg', net', ip', res)"
    and keep: "sessions_keep B P" and all: "\<forall>t \<in> sessions wg. P t"
  shows "\<forall>t \<in> sessions wg'. P t"
  using assms(1)
proof (cases rule: recv_from_network_cases)
  case (refused l)
  with all show ?thesis by (simp add: sessions_def)
next
  case (failed l p idx kind t' l')
  have "peer_tunn (wg_peers wg ! idx) \<in> sessions wg" using failed(3) by (simp add: sessions_def)
  with decap_loop_keeps [OF failed(4) keep] all have "P t'" by simp
  with all show ?thesis unfolding failed(5) by (auto dest!: sessions_update)
next
  case (handled l p idx kind t' l' decrypted peer)
  have "peer_tunn (wg_peers wg ! idx) \<in> sessions wg" using handled(3) by (simp add: sessions_def)
  with decap_loop_keeps [OF handled(4) keep] all have "P t'" by simp
  moreover have "peer_tunn peer = t'" using handled(5) by simp
  ultimately show ?thesis using all handled(6) by (auto dest!: sessions_update)
qed

lemma encapsulate_keeps:
  assumes "encapsulate B wg idx p net = (wg', net')" "sessions_keep B P" "\<not> is_v6 p" "\<forall>t \<in> sessions wg. P t"
  shows "\<forall>t \<in> sessions wg'. P t"
proof (cases "idx < length (wg_peers wg)")
  case True
  then have "peer_tunn (wg_peers wg ! idx) \<in> sessions wg" by (simp add: sessions_def)
  with assms(2-4) have "P (fst (bt_encapsulate B p (peer_tunn (wg_peers wg ! idx))))"
    by (simp add: sessions_keep_def)
  moreover have "wg_peers wg' = (wg_peers wg)[idx := (wg_peers wg ! idx)
      \<lparr>peer_tunn := fst (bt_encapsulate B p (peer_tunn (wg_peers wg ! idx)))\<rparr>]"
    using assms(1) True by (auto simp: encapsulate_def Let_def split: prod.splits tunn_result.splits)
  ultimately show ?thesis
    using assms(4) by (auto simp: sessions_def dest!: set_update_subset_insert [THEN subsetD])
qed (use assms in \<open>auto simp: encapsulate_def\<close>)

lemma timer_loop_keeps:
  "timer_loop B i ps out = (ps', out') \<Longrightarrow> sessions_keep B P \<Longrightarrow> \<forall>p \<in> set ps. P (peer_tunn p) \<Longrightarrow>
   \<forall>p \<in> set ps'. P (peer_tunn p)"
proof (induction B i ps out arbitrary: ps' out' rule: timer_loop.induct)
  case (2 B i p ps out)
  obtain t r where t: "bt_update_timers B (peer_tunn p) = (t, r)" by fastforce
  have "P (fst (bt_update_timers B (peer_tunn p)))" using "2.prems"(2,3) by (simp add: sessions_keep_def)
  moreover obtain ps1 out1 where
    "timer_loop B (Suc i) ps (case r of TWriteToNetwork b \<Rightarrow> out @ [(i, b)] | _ \<Rightarrow> out) = (ps1, out1)" by fastforce
  ultimately show ?case using "2.IH" [OF t [symmetric] refl] "2.prems" t by auto
qed simp

lemma update_timers_keeps:
  assumes "update_timers B now wg out = (wg', out')" "sessions_keep B P" "\<forall>t \<in> sessions wg. P t"
  shows "\<forall>t \<in> sessions wg'. P t"
proof -
  obtain ps o1 where l: "timer_loop B 0 (wg_peers wg) out = (ps, o1)" by fastforce
  with assms(1) have "wg_peers wg' = ps" by (auto simp: update_timers_def Let_def split: if_splits)
  moreover have "\<forall>p \<in> set ps. P (peer_tunn p)"
    using timer_loop_keeps [OF l assms(2)] assms(3) by (simp add: sessions_def)
  ultimately show ?thesis by (simp add: sessions_def)
qed

lemma turn_keeps:
  assumes "engine_turn B ev e = Some (e', fx)" "sessions_keep B P" "\<forall>t \<in> sessions (en_wg e). P t"
  shows "\<forall>t \<in> sessions (en_wg e'). P t"
proof (cases ev)
  case (SockRecv r)
  with assms show ?thesis
    by (auto simp: net_task_def Let_def split: if_splits option.splits dest: recv_keeps)
next
  case Uplink
  with assms show ?thesis
    by (auto simp: uplink_task_def Let_def split: if_splits list.splits prod.splits dest: encapsulate_keeps)
next
  case (Tick now)
  with assms show ?thesis
    by (auto simp: timer_task_def split: if_splits prod.splits dest: update_timers_keeps)
qed (use assms in \<open>auto simp: tun_reader_def tun_writer_def split: if_splits option.splits list.splits\<close>)

lemma run_keeps:
  "engine_run B evs e = Some (e', fx) \<Longrightarrow> sessions_keep B P \<Longrightarrow> \<forall>t \<in> sessions (en_wg e). P t \<Longrightarrow>
   \<forall>t \<in> sessions (en_wg e'). P t"
proof (induction evs arbitrary: e fx)
  case (Cons ev evs)
  from Cons.prems(1) obtain e1 fx1 fx2 where turn: "engine_turn B ev e = Some (e1, fx1)"
    and run: "engine_run B evs e1 = Some (e', fx2)"
    unfolding engine_run_Cons by blast
  from Cons.IH [OF run Cons.prems(2) turn_keeps [OF turn Cons.prems(2,3)]] show ?case .
qed simp

lemma engine_start_Inr:
  assumes "engine_start K B now cfg remote bridge sock_ok = Inr e"
  obtains priv psk pub wg where "add_peer B (wg_new B now priv) pub psk (map_option of_nat (cc_keepalive cfg)) = Inr (wg, 0)"
    "en_wg e = wg" "en_rx e = 0" "en_tx e = 0" "en_v6_dropped e = 0" "en_from_tun e = []" "en_to_tun e = []"
    "en_reader e" "en_writer e" "en_net e" "en_uplink e" "en_timer e" "en_handle e" "\<not> en_shutdown e"
    "decode_key K (cc_private_key cfg) = Inr priv" "decode_key K (cc_peer_public_key cfg) = Inr pub"
proof -
  from assms obtain priv psk pub wgi wg idx where
    *: "decode_key K (cc_private_key cfg) = Inr priv" "decode_key K (cc_peer_public_key cfg) = Inr pub"
      "add_peer B (wg_new B now priv) pub psk (map_option of_nat (cc_keepalive cfg)) = Inr (wg, idx)"
      "en_wg e = wg" "en_rx e = 0" "en_tx e = 0" "en_v6_dropped e = 0" "en_from_tun e = []" "en_to_tun e = []"
      "en_reader e" "en_writer e" "en_net e" "en_uplink e" "en_timer e" "en_handle e" "\<not> en_shutdown e"
    unfolding engine_start_def and_then_Inr_iff by (elim exE conjE) (auto simp: map_sum_Inr_iff)
  moreover have "idx = 0" using *(3) by (auto simp: add_peer_def wg_new_def Let_def split: if_splits)
  ultimately show thesis by (intro that) simp_all
qed

section \<open>Properties of the engine\<close>

text \<open>
  The engine loses and reorders nothing. Under every interleaving of its threads, the packets decrypted
  are those written to the device followed by those still queued for it, in the order they were decrypted, and
  the packets read off the device are those the uplink has taken followed by those queued for it.
\<close>

theorem engine_lossless:
  assumes "engine_run B evs e = Some (e', fx)" "en_writer e'" "en_uplink e'"
  shows "en_to_tun e @ trace B (decrypted B) evs e = fx_written fx @ en_to_tun e' \<and>
    en_from_tun e @ trace B accepted_reads evs e = trace B taken evs e @ en_from_tun e'"
  using run_downlink [OF assms(1,2)] run_uplink [OF assms(1,3)] by blast

text \<open>
  The counters of \<open>stats\<close> are exact, modulo \<open>2^64\<close>: the bytes received are the sizes of the datagrams
  taken off the socket, the bytes sent those of every datagram handed to it, from whichever task, and the
  IPv6 counter the number of IPv6 packets taken off the device.
\<close>

theorem stats_exact:
  assumes "engine_start K B now cfg remote bridge sock_ok = Inr e" "engine_run B evs e = Some (e', fx)"
  shows "st_rx_bytes (stats B t since e') = of_nat (sum_list (map length (trace B received evs e))) \<and>
    st_tx_bytes (stats B t since e') = of_nat (sum_list (map length (fx_sent fx))) \<and>
    st_v6_dropped (stats B t since e') = of_nat (length (filter is_v6 (trace B taken evs e)))"
  by (rule engine_start_Inr [OF assms(1)]) (simp add: stats_def run_accounts [OF assms(2)])

text \<open>
  C33: no IPv6 packet from the device is ever encapsulated. Any predicate of sessions that boringtun's
  operations keep, encapsulation being exempt from keeping it for IPv6 packets, holds of every session after
  every run: an IPv6 packet read off the device reaches no session.
\<close>

theorem v6_never_encapsulated:
  assumes "engine_start K B now cfg remote bridge sock_ok = Inr e" "engine_run B evs e = Some (e', fx)"
    and "sessions_keep B P" "\<forall>priv pub psk ka i. P (bt_new_tunn B priv pub psk ka i)"
  shows "\<forall>t \<in> sessions (en_wg e'). P t"
proof (rule run_keeps [OF assms(2,3)])
  show "\<forall>t \<in> sessions (en_wg e). P t"
    using assms(4) by (rule_tac engine_start_Inr [OF assms(1)])
      (auto simp: sessions_def add_peer_def wg_new_def Let_def split: if_splits)
qed

text \<open>
  C37: closing winds the engine down. Whatever happens after \<open>close\<close>, no datagram leaves and the sessions are
  not touched again; the device gets at most what was already queued for it, in order; the read thread ends
  with its next return from \<open>Tun::recv\<close>, and the write thread once it has drained its queue.
\<close>

theorem close_winds_down:
  assumes "engine_run B evs (close e) = Some (e', fx)"
  shows "fx_sent fx = [] \<and> en_wg e' = en_wg e \<and> prefix (fx_written fx) (en_to_tun e) \<and>
    (list_ex is_read evs \<longrightarrow> \<not> en_reader e') \<and>
    (length (en_to_tun e) < length (filter is_write evs) \<longrightarrow> \<not> en_writer e')"
proof -
  have "wound_down (close e)" by (simp add: wound_down_def close_def abort_tasks_def)
  note down = wound_down_run [OF this assms]
  show ?thesis
    using down close_drains [of e] by (auto simp: prefix_def) (auto simp: drain_left_def split: if_splits)
qed

fun decided ::
  "('t, 'l, 'i) boringtun_lib \<Rightarrow> nat \<Rightarrow> (nat \<times> engine_event list) list \<Rightarrow> ('t, 'l) connect_outcome \<Rightarrow> bool" where
  "decided B deadline polls (Connected c) \<longleftrightarrow> time_since_last_handshake B (en_wg c) 0 \<noteq> None"
| "decided B deadline polls (Failed err c) \<longleftrightarrow> wound_down c \<and> err = ConnNoHandshake"
| "decided B deadline polls (Waiting c) \<longleftrightarrow> (\<forall>p \<in> set polls. fst p < deadline)"
| "decided B deadline polls (Rejected _ _) \<longleftrightarrow> False"

lemma await_decides:
  assumes "flushes B q"
  shows "\<exists>out. await_handshake B deadline polls e = Some out \<and> decided B deadline polls out"
proof (induction polls arbitrary: e)
  case (Cons poll polls)
  obtain now evs where poll: "poll = (now, evs)" by (cases poll)
  obtain e' fx where run: "engine_run B evs e = Some (e', fx)" using engine_run_returns [OF assms] by blast
  show ?case
  proof (cases "time_since_last_handshake B (en_wg e) 0 \<noteq> None \<or> deadline \<le> now")
    case True
    then show ?thesis by (auto simp: poll wound_down_def abort_tasks_def)
  next
    case False
    obtain out where "await_handshake B deadline polls e' = Some out" "decided B deadline polls out"
      using Cons.IH by blast
    with False run show ?thesis by (cases out) (simp_all add: poll)
  qed
qed simp

text \<open>
  C37: connecting decides. With a boringtun that flushes as documented and a clock that moves on by the 25 ms
  of each sleep, \<open>connect_to\<close> has an outcome after at most 401 polls of the ten-second wait: it is refused, or
  the initiation could not be sent, or the handshake is complete and the engine is handed out, or it has timed
  out with every task stopped.
\<close>

theorem connect_decides:
  assumes "flushes B q" "400 < length polls" "\<forall>i < length polls. t0 + 25 * i \<le> fst (polls ! i)"
  shows "\<exists>out. connect_to K B now cfg remote bridge sock_ok early sent_ok t0 polls = Some out \<and>
    (case out of
       Connected c \<Rightarrow> time_since_last_handshake B (en_wg c) 0 \<noteq> None
     | Failed err c \<Rightarrow> err = ConnIo \<or> (wound_down c \<and> err = ConnNoHandshake)
     | Waiting _ \<Rightarrow> False
     | Rejected _ _ \<Rightarrow> True)"
proof (cases "engine_start K B now cfg remote bridge sock_ok")
  case (Inr e0)
  obtain e1 fx where run: "engine_run B early e0 = Some (e1, fx)" using engine_run_returns [OF assms(1)] by blast
  obtain wg' init where init: "encapsulate B (en_wg e1) 0 [] [] = (wg', init)" by fastforce
  obtain ok e2 where sent: "send_init sent_ok init (e1\<lparr>en_wg := wg'\<rparr>) = (ok, e2)" by fastforce
  obtain p where "p \<in> set polls" "t0 + HANDSHAKE_TIMEOUT \<le> fst p"
    using assms(2) spec [OF assms(3), of 400] that [of "polls ! 400"] by (simp add: HANDSHAKE_TIMEOUT_def)
  then have late: "\<not> (\<forall>p \<in> set polls. fst p < t0 + HANDSHAKE_TIMEOUT)" using not_less by blast
  have unfolded: "connect_to K B now cfg remote bridge sock_ok early sent_ok t0 polls =
      (if \<not> ok then Some (Failed ConnIo (e2\<lparr>en_handle := False\<rparr>))
       else await_handshake B (t0 + HANDSHAKE_TIMEOUT) polls e2)"
    by (simp only: connect_to_def Inr run init sent sum.case option.case prod.case Let_def)
  show ?thesis
  proof (cases ok)
    case True
    obtain out where out: "await_handshake B (t0 + HANDSHAKE_TIMEOUT) polls e2 = Some out"
        "decided B (t0 + HANDSHAKE_TIMEOUT) polls out"
      using await_decides [OF assms(1)] by blast
    show ?thesis
      unfolding unfolded using out late True by (cases out) (simp_all only: decided.simps simp_thms if_False
        connect_outcome.case option.inject ex_simps)
  qed (simp add: unfolded)
next
  case (Inl refused)
  then show ?thesis by (cases refused) (simp add: connect_to_def)
qed

section \<open>What a refused initiation leaves behind\<close>

text \<open>
  When the socket refuses the initiation, \<open>connect_to\<close> returns an error without stopping the tasks it has
  spawned: dropping a \<open>JoinHandle\<close> detaches its task, and the shutdown flag is never set.
\<close>

lemma refused_initiation_keeps_running:
  assumes "engine_start K B now cfg remote bridge sock_ok = Inr e"
    and "bt_encapsulate B [] (peer_tunn (wg_peers (en_wg e) ! 0)) = (t, TWriteToNetwork d)" "\<not> sent_ok d"
  shows "\<exists>c. connect_to K B now cfg remote bridge sock_ok [] sent_ok t0 polls = Some (Failed ConnIo c) \<and>
    en_net c \<and> en_uplink c \<and> en_timer c \<and> en_reader c \<and> \<not> en_shutdown c"
proof (rule engine_start_Inr [OF assms(1)])
  fix priv psk pub wg
  assume e: "add_peer B (wg_new B now priv) pub psk (map_option of_nat (cc_keepalive cfg)) = Inr (wg, 0)"
    "en_wg e = wg" "en_net e" "en_uplink e" "en_timer e" "en_reader e" "\<not> en_shutdown e"
  then obtain w where "wg_peers wg = [w]" by (auto simp: add_peer_def wg_new_def Let_def split: if_splits)
  with e assms show ?thesis by (simp add: connect_to_def encapsulate_def Let_def)
qed

text \<open>
  When the socket towards the WebSocket bridge cannot be bound or connected, the bridge's task, spawned before, is
  left running as well.
\<close>

lemma refused_socket_leaves_bridge:
  assumes "engine_start K B now cfg remote (Some local) True = Inr e" "is_ws (cc_endpoint cfg)"
  shows "connect_to K B now cfg remote (Some local) False early sent_ok t0 polls = Some (Rejected ConnIo True)"
proof -
  have "engine_start K B now cfg remote (Some local) False = Inl (ConnIo, True)"
    using assms by (auto simp: engine_start_def and_then_Inr_iff ensure_def)
  then show ?thesis by (simp add: connect_to_def)
qed

section \<open>A concrete engine\<close>

definition tracing_boringtun :: "(nat, nat, bytes) boringtun_lib" where
  "tracing_boringtun = ex_boringtun\<lparr>bt_encapsulate := (\<lambda>p t. (if is_v6 p then 99 else t, TWriteToNetwork (4 # p)))\<rparr>"

definition sample_conf :: "(ip_addr \<times> nat) client_config" where
  "sample_conf = \<lparr>cc_private_key = sample_key, cc_peer_public_key = sample_key, cc_preshared_key = None,
     cc_address = (V4 0x0A070002, 32), cc_dns = [], cc_endpoint = EpUdp (sock (V4 1) 1),
     cc_allowed_ips = [], cc_mtu = 1420, cc_keepalive = None\<rparr>"

definition sample_engine :: "(nat, nat) engine" where
  "sample_engine =
     \<lparr>en_wg = \<lparr>wg_private = replicate 32 0, wg_public = replicate 32 0,
        wg_peers = [\<lparr>peer_public_key = replicate 32 0, peer_endpoint = None, peer_tunn = 0\<rparr>],
        wg_by_key = [replicate 32 0 \<mapsto> 0], wg_limiter = 100, wg_last_reset = 0\<rparr>,
      en_peer = sock (V4 1) 1, en_rx = 0, en_tx = 0, en_v6_dropped = 0, en_from_tun = [], en_to_tun = [],
      en_reader = True, en_writer = True, en_net = True, en_uplink = True, en_timer = True, en_bridge = False,
      en_handle = True, en_shutdown = False\<rparr>"

lemma sample_start:
  "engine_start nibble_lib tracing_boringtun 0 sample_conf (sock (V4 1) 1) None True = Inr sample_engine"
  by (simp add: engine_start_def sample_conf_def sample_key_decodes sample_engine_def tracing_boringtun_def
      add_peer_def wg_new_def ex_boringtun_def HANDSHAKE_RATE_LIMIT_def ensure_def)

abbreviation sample_events :: "engine_event list" where
  "sample_events \<equiv> [TunRecv (Some [0x60, 1]), TunRecv (Some [0x45]), Uplink, Uplink]"

lemma sample_run:
  "engine_run tracing_boringtun sample_events sample_engine =
   Some (sample_engine\<lparr>en_v6_dropped := 1, en_tx := 2\<rparr>, \<lparr>fx_sent = [[4, 0x45]], fx_written = []\<rparr>)"
  by (simp add: sample_engine_def tun_reader_def uplink_task_def is_v6_def encapsulate_def tracing_boringtun_def
      count_sent_def no_effects_def add_effects_def)

lemma tracing_keeps: "sessions_keep tracing_boringtun (\<lambda>t. t < 99)"
proof -
  have "fst (ex_decapsulate ip d t l) < 99" if "t < 99" for ip d t l
    using that by (cases d) auto
  then show ?thesis by (simp add: sessions_keep_def tracing_boringtun_def ex_boringtun_def)
qed

theorem engine_lossless_witness:
  "trace tracing_boringtun accepted_reads sample_events sample_engine =
   trace tracing_boringtun taken sample_events sample_engine"
  using engine_lossless [OF sample_run] by (simp add: sample_engine_def)

theorem stats_exact_witness:
  "of_nat (length (filter is_v6 (trace tracing_boringtun taken sample_events sample_engine))) = (1 :: u64)"
  using stats_exact [OF sample_start sample_run] by (simp add: stats_def)

theorem v6_never_encapsulated_witness:
  "sessions (en_wg (sample_engine\<lparr>en_v6_dropped := 1, en_tx := 2\<rparr>)) \<subseteq> {t. t < 99}"
proof -
  have new: "\<forall>priv pub psk ka i. bt_new_tunn tracing_boringtun priv pub psk ka i < 99"
    by (simp add: tracing_boringtun_def ex_boringtun_def)
  show ?thesis
    using v6_never_encapsulated [OF sample_start sample_run tracing_keeps new] by blast
qed

theorem close_winds_down_witness:
  "\<exists>e' fx. engine_run tracing_boringtun [TunRecv (Some [0x45]), TunSent True, TunSent True]
      (close (sample_engine\<lparr>en_to_tun := [[7]]\<rparr>)) = Some (e', fx) \<and>
     fx_sent fx = [] \<and> \<not> en_reader e' \<and> \<not> en_writer e'"
proof -
  obtain e' fx where run: "engine_run tracing_boringtun [TunRecv (Some [0x45]), TunSent True, TunSent True]
      (close (sample_engine\<lparr>en_to_tun := [[7]]\<rparr>)) = Some (e', fx)"
    by (simp add: close_def abort_tasks_def tun_reader_def tun_writer_def sample_engine_def)
  have "fx_sent fx = [] \<and> \<not> en_reader e' \<and> \<not> en_writer e'"
    using close_winds_down [OF run] by simp
  with run show ?thesis by blast
qed

theorem connect_decides_witness:
  "\<exists>out. connect_to nibble_lib ex_boringtun 0 sample_conf (sock (V4 1) 1) None True [] (\<lambda>_. True) 0
      (map (\<lambda>i. (25 * i, [])) [0..<401]) = Some out \<and>
    (case out of
       Connected c \<Rightarrow> time_since_last_handshake ex_boringtun (en_wg c) 0 \<noteq> None
     | Failed err c \<Rightarrow> err = ConnIo \<or> (wound_down c \<and> err = ConnNoHandshake)
     | Waiting _ \<Rightarrow> False
     | Rejected _ _ \<Rightarrow> True)"
  by (rule connect_decides [OF ex_boringtun_flushes]) simp_all

end
