(* ===== verification/Client_Adapter.thy ===== *)
theory Client_Adapter
  imports Client_Conf
begin

text \<open>
  \<open>crates/wgclient/src/lib.rs\<close>, \<open>win\<close>: what \<open>open\<close> does to the system, command by command, the undo list it
  keeps, and \<open>Drop\<close>. The commands are the argument vectors the source builds; what running one does to the
  system, and what it prints, is the argument \<open>R\<close>.
\<close>

section \<open>Printing addresses\<close>

fun show_hex :: "nat \<Rightarrow> string" where
  "show_hex n =
     (if n < 10 then [char_of (48 + n)]
      else if n < 16 then [char_of (87 + n)]
      else show_hex (n div 16) @ (if n mod 16 < 10 then [char_of (48 + n mod 16)] else [char_of (87 + n mod 16)]))"

declare show_hex.simps [simp del]

fun join_str :: "string \<Rightarrow> string list \<Rightarrow> string" where
  "join_str sep [] = []"
| "join_str sep [s] = s"
| "join_str sep (s # t # ts) = s @ sep @ join_str sep (t # ts)"

text \<open>The first longest run of zero segments, as its start and length.\<close>

fun zero_span :: "nat \<Rightarrow> nat \<times> nat \<Rightarrow> nat \<times> nat \<Rightarrow> u16 list \<Rightarrow> nat \<times> nat" where
  "zero_span i cur longest [] = longest"
| "zero_span i cur longest (g # gs) =
     (if g = 0 then
        (let cur' = (if snd cur = 0 then i else fst cur, snd cur + 1)
         in zero_span (i + 1) cur' (if snd longest < snd cur' then cur' else longest) gs)
      else zero_span (i + 1) (0, 0) longest gs)"

definition show_segments :: "u16 list \<Rightarrow> string" where
  "show_segments gs = join_str '':'' (map (\<lambda>g. show_hex (unat g)) gs)"

definition show_ipv6 :: "u128 \<Rightarrow> string" where
  "show_ipv6 a =
     (if drop_bit 32 a = 0xFFFF then ''::ffff:'' @ show_ipv4 (ucast a)
      else
        (let gs = map (segment a) [0..<8]; (start, len) = zero_span 0 (0, 0) (0, 0) gs
         in if 1 < len then show_segments (take start gs) @ ''::'' @ show_segments (drop (start + len) gs)
            else show_segments gs))"

fun show_ip :: "ip_addr \<Rightarrow> string" where
  "show_ip (V4 a) = show_ipv4 a"
| "show_ip (V6 a) = show_ipv6 a"

section \<open>Networks\<close>

text \<open>The operations of \<open>ipnet\<close> the adapter uses.\<close>

record 'net net_ops = "'net net_text" +
  no_addr :: "'net \<Rightarrow> ip_addr"
  no_netmask :: "'net \<Rightarrow> ip_addr"
  no_network :: "'net \<Rightarrow> ip_addr"
  no_prefix_len :: "'net \<Rightarrow> nat"
  no_show :: "'net \<Rightarrow> string"

definition is_default_v4 :: "('net, 'a) net_ops_scheme \<Rightarrow> 'net \<Rightarrow> bool" where
  "is_default_v4 N n \<longleftrightarrow> is_ipv4 (no_addr N n) \<and> no_prefix_len N n = 0"

section \<open>Commands\<close>

type_synonym argv = "string list"

definition quoted :: "string \<Rightarrow> string" where
  "quoted s = CHR 0x27 # s @ [CHR 0x27]"

definition NAME :: string where
  "NAME = ''wg-wrapper''"

definition NRPT_CLEAR :: string where
  "NRPT_CLEAR = ''Get-DnsClientNrptRule | Where-Object Comment -eq '' @ quoted NAME @ '' | Remove-DnsClientNrptRule -Force''"

definition powershell :: "string \<Rightarrow> argv" where
  "powershell script = [''powershell'', ''-NoProfile'', ''-NonInteractive'', ''-Command'', script]"

definition set_metric :: "string \<Rightarrow> string \<Rightarrow> argv" where
  "set_metric family name = [''netsh'', ''interface'', family, ''set'', ''interface'', name, ''metric=1'']"

definition automatic_metric :: "string \<Rightarrow> string \<Rightarrow> argv" where
  "automatic_metric af name = powershell (''Set-NetIPInterface -InterfaceAlias '' @ quoted name @
     '' -AddressFamily '' @ af @ '' -AutomaticMetric Enabled'')"

definition add_nrpt :: "ip_addr list \<Rightarrow> argv" where
  "add_nrpt servers = powershell (''Add-DnsClientNrptRule -Namespace '' @ quoted ''.'' @ '' -NameServers '' @
     join_str '','' (map show_ip servers) @ '' -Comment '' @ quoted NAME)"

definition flushdns :: argv where
  "flushdns = [''ipconfig'', ''/flushdns'']"

definition set_dns :: "string \<Rightarrow> ip_addr \<Rightarrow> argv" where
  "set_dns name d = [''netsh'', ''interface'', ''ipv4'', ''set'', ''dnsservers'', ''name='' @ name, ''static'',
     show_ip d, ''primary'', ''no'']"

definition add_dns :: "string \<Rightarrow> nat \<Rightarrow> ip_addr \<Rightarrow> argv" where
  "add_dns name i d = [''netsh'', ''interface'', ''ipv4'', ''add'', ''dnsservers'', ''name='' @ name, show_ip d,
     ''index='' @ show_nat (i + 2), ''validate=no'']"

definition reset_dns :: "string \<Rightarrow> argv" where
  "reset_dns name = [''netsh'', ''interface'', ''ipv4'', ''set'', ''dnsservers'', ''name='' @ name, ''dhcp'']"

text \<open>
  The body of \<open>open\<close> as instructions: a command whose failure ends \<open>open\<close>, one whose failure is ignored, a
  push on the undo list, the flag for the DNS reset, and an error of the source's own.
\<close>

datatype instr = Run argv | Try argv | Undo argv | DnsOn | Halt

record adapter =
  ad_name :: string
  ad_dns :: bool
  ad_undo :: "argv list"

type_synonym 's system = "argv \<Rightarrow> 's \<Rightarrow> 's \<times> string option"

fun run_instrs :: "'s system \<Rightarrow> instr list \<Rightarrow> adapter \<times> 's \<Rightarrow> (adapter \<times> 's) \<times> bool" where
  "run_instrs R [] w = (w, True)"
| "run_instrs R (Run c # is) (dev, s) =
     (case R c s of (s', None) \<Rightarrow> ((dev, s'), False) | (s', Some _) \<Rightarrow> run_instrs R is (dev, s'))"
| "run_instrs R (Try c # is) (dev, s) = run_instrs R is (dev, fst (R c s))"
| "run_instrs R (Undo u # is) (dev, s) = run_instrs R is (dev\<lparr>ad_undo := ad_undo dev @ [u]\<rparr>, s)"
| "run_instrs R (DnsOn # is) (dev, s) = run_instrs R is (dev\<lparr>ad_dns := True\<rparr>, s)"
| "run_instrs R (Halt # is) w = (w, False)"

section \<open>\<open>open\<close>\<close>

text \<open>Address, MTU, metrics and name resolution.\<close>

definition dns_instrs :: "string \<Rightarrow> ip_addr list \<Rightarrow> instr list" where
  "dns_instrs name dns =
     (case dns of
        [] \<Rightarrow> []
      | first # rest \<Rightarrow>
          [Run (set_dns name first)] @ map (\<lambda>(i, d). Run (add_dns name i d)) (enumerate 0 rest) @
          (let servers = filter is_ipv4 dns in
           if servers = [] then []
           else [Try (powershell NRPT_CLEAR), Run (add_nrpt servers), Undo (powershell NRPT_CLEAR)]) @
          [Run flushdns, DnsOn])"

definition setup_instrs :: "('net, 'a) net_ops_scheme \<Rightarrow> 'net client_config \<Rightarrow> string \<Rightarrow> instr list" where
  "setup_instrs N cfg name =
     [Run [''netsh'', ''interface'', ''ipv4'', ''set'', ''address'', ''name='' @ name, ''static'',
        show_ip (no_addr N (cc_address cfg)), show_ip (no_netmask N (cc_address cfg))],
      Run [''netsh'', ''interface'', ''ipv4'', ''set'', ''subinterface'', ''interface='' @ name,
        ''mtu='' @ show_nat (cc_mtu cfg), ''store=persistent'']] @
     concat (map (\<lambda>(family, af). [Run (set_metric family name), Undo (automatic_metric af name)])
       [(''ipv4'', ''IPv4''), (''ipv6'', ''IPv6'')]) @
     dns_instrs name (cc_dns cfg)"

text \<open>A route and its undo.\<close>

definition v4_route :: "argv \<Rightarrow> argv \<Rightarrow> instr list" where
  "v4_route route options = [Run ([''route'', ''add''] @ route @ options), Undo ([''route'', ''delete''] @ route)]"

definition v6_route :: "argv \<Rightarrow> argv \<Rightarrow> instr list" where
  "v6_route route options =
     [Run ([''netsh'', ''interface'', ''ipv6'', ''add'', ''route''] @ route @ options),
      Undo ([''netsh'', ''interface'', ''ipv6'', ''delete'', ''route''] @ route)]"

definition via_tunnel :: "nat \<Rightarrow> argv" where
  "via_tunnel index = [''metric'', ''1'', ''if'', show_nat index]"

definition net_route :: "('net, 'a) net_ops_scheme \<Rightarrow> ip_addr \<Rightarrow> nat \<Rightarrow> 'net \<Rightarrow> instr list" where
  "net_route N ip index part =
     (if is_ipv4 (no_addr N part)
      then v4_route [show_ip (no_addr N part), ''mask'', show_ip (no_netmask N part), show_ip ip] (via_tunnel index)
      else v6_route [no_show N part, ''interface='' @ show_nat index] [])"

definition allowed_instrs :: "('net, 'a) net_ops_scheme \<Rightarrow> ip_addr \<Rightarrow> nat \<Rightarrow> 'net \<Rightarrow> instr list" where
  "allowed_instrs N ip index net =
     (if is_default_v4 N net then
        (case (nt_parse N ''0.0.0.0/1'', nt_parse N ''128.0.0.0/1'') of
           (Some low, Some high) \<Rightarrow> concat (map (net_route N ip index) [low, high, net])
         | _ \<Rightarrow> [Halt])
      else net_route N ip index net)"

definition lan_instrs ::
  "('net, 'a) net_ops_scheme \<Rightarrow> 'net client_config \<Rightarrow> nat \<Rightarrow> (u32 \<times> u32) list \<Rightarrow> instr list" where
  "lan_instrs N cfg index lan =
     (if list_ex (is_default_v4 N) (cc_allowed_ips cfg) then
        concat (map (\<lambda>(dest, netmask).
          if V4 dest = no_network N (cc_address cfg) \<and> V4 netmask = no_netmask N (cc_address cfg) then []
          else v4_route [show_ipv4 dest, ''mask'', show_ipv4 netmask, show_ip (no_addr N (cc_address cfg))]
            (via_tunnel index)) lan)
      else [])"

definition half_instrs :: "('net, 'a) net_ops_scheme \<Rightarrow> 'net client_config \<Rightarrow> nat \<Rightarrow> string \<Rightarrow> instr list" where
  "half_instrs N cfg index half =
     (case nt_parse N half of
        None \<Rightarrow> [Halt]
      | Some net \<Rightarrow>
          if net \<in> set (cc_allowed_ips cfg) then []
          else v6_route [half, ''interface='' @ show_nat index] [''metric=1''])"

fun dns_routes :: "ip_addr \<Rightarrow> nat \<Rightarrow> ip_addr list \<Rightarrow> ip_addr list \<Rightarrow> instr list" where
  "dns_routes ip index seen [] = []"
| "dns_routes ip index seen (d # ds) =
     (if d \<in> set seen then dns_routes ip index seen ds
      else (case d of
          V4 a \<Rightarrow> v4_route [show_ipv4 a, ''mask'', ''255.255.255.255'', show_ip ip] (via_tunnel index)
        | V6 a \<Rightarrow> v6_route [show_ipv6 a @ ''/128'', ''interface='' @ show_nat index] []) @
        dns_routes ip index (d # seen) ds)"

definition route_instrs ::
  "('net, 'a) net_ops_scheme \<Rightarrow> 'net client_config \<Rightarrow> ip_addr \<Rightarrow> nat \<Rightarrow> u32 \<Rightarrow> u32 \<Rightarrow> (u32 \<times> u32) list \<Rightarrow> instr list" where
  "route_instrs N cfg server index gateway ifaceip lan =
     (let ip = no_addr N (cc_address cfg) in
      v4_route [show_ipv4 gateway, ''mask'', ''255.255.255.255'', show_ipv4 ifaceip] [''metric'', ''1''] @
      v4_route [show_ip server, ''mask'', ''255.255.255.255'', show_ipv4 gateway] [''metric'', ''1''] @
      concat (map (allowed_instrs N ip index) (cc_allowed_ips cfg)) @
      lan_instrs N cfg index lan @
      concat (map (half_instrs N cfg index) [''::/1'', ''8000::/1'']) @
      dns_routes ip index [] (cc_dns cfg))"

definition open_body ::
  "'s system \<Rightarrow> ('net, 'a) net_ops_scheme \<Rightarrow> 'net client_config \<Rightarrow> ip_addr \<Rightarrow> string \<Rightarrow> nat \<Rightarrow> 's
    \<Rightarrow> (adapter \<times> 's) \<times> bool" where
  "open_body R N cfg server name index s =
     (case run_instrs R (setup_instrs N cfg name) (\<lparr>ad_name = name, ad_dns = False, ad_undo = []\<rparr>, s) of
        (w, False) \<Rightarrow> (w, False)
      | ((dev, s1), True) \<Rightarrow>
          (case R [''route'', ''print'', ''-4''] s1 of
             (s2, None) \<Rightarrow> ((dev, s2), False)
           | (s2, Some table) \<Rightarrow>
               (case parse_routes table of
                  (None, _) \<Rightarrow> ((dev, s2), False)
                | (Some (gateway, ifaceip), lan) \<Rightarrow>
                    run_instrs R (route_instrs N cfg server index gateway ifaceip lan) (dev, s2))))"

text \<open>\<open>Drop\<close>; every failure is ignored.\<close>

definition drop_adapter :: "'s system \<Rightarrow> adapter \<Rightarrow> 's \<Rightarrow> 's" where
  "drop_adapter R dev s =
     (let s1 = fold (\<lambda>c s. fst (R c s)) (rev (ad_undo dev)) s
      in if ad_dns dev then fst (R flushdns (fst (R (reset_dns (ad_name dev)) s1))) else s1)"

text \<open>
  \<open>open\<close> with what loading, creating and starting the adapter answered (its name and index). A failing \<open>open\<close>
  drops the adapter on its way out.
\<close>

definition win_open ::
  "'s system \<Rightarrow> ('net, 'a) net_ops_scheme \<Rightarrow> (string \<times> nat) option \<Rightarrow> 'net client_config \<Rightarrow> ip_addr \<Rightarrow> 's
    \<Rightarrow> 's \<times> adapter option" where
  "win_open R N win cfg server s =
     (case win of
        None \<Rightarrow> (s, None)
      | Some (name, index) \<Rightarrow>
          (case open_body R N cfg server name index s of
             ((dev, s'), True) \<Rightarrow> (s', Some dev)
           | ((dev, s'), False) \<Rightarrow> (drop_adapter R dev s', None)))"

section \<open>Which command undoes which\<close>

definition undo_of :: "argv \<Rightarrow> argv option" where
  "undo_of c =
     (if take 2 c = [''route'', ''add''] then Some ([''route'', ''delete''] @ take 4 (drop 2 c))
      else if take 5 c = [''netsh'', ''interface'', ''ipv6'', ''add'', ''route'']
      then Some ([''netsh'', ''interface'', ''ipv6'', ''delete'', ''route''] @ take 2 (drop 5 c))
      else if c = set_metric ''ipv4'' (c ! 5) then Some (automatic_metric ''IPv4'' (c ! 5))
      else if c = set_metric ''ipv6'' (c ! 5) then Some (automatic_metric ''IPv6'' (c ! 5))
      else if c = powershell (c ! 4) \<and> prefix ''Add-DnsClientNrptRule'' (c ! 4) then Some (powershell NRPT_CLEAR)
      else None)"

text \<open>
  The other commands \<open>open\<close> may run: settings of the adapter itself, and clearing the stale rules of an earlier run,
  flushing the cache of names and printing the routes.
\<close>

definition local_command :: "string \<Rightarrow> argv \<Rightarrow> bool" where
  "local_command name c \<longleftrightarrow>
     take 6 c \<in> {[''netsh'', ''interface'', ''ipv4'', ''set'', ''address'', ''name='' @ name],
       [''netsh'', ''interface'', ''ipv4'', ''set'', ''subinterface'', ''interface='' @ name],
       [''netsh'', ''interface'', ''ipv4'', ''set'', ''dnsservers'', ''name='' @ name],
       [''netsh'', ''interface'', ''ipv4'', ''add'', ''dnsservers'', ''name='' @ name]} \<or>
     c \<in> {powershell NRPT_CLEAR, flushdns, [''route'', ''print'', ''-4'']}"

lemma undo_of_route [simp]: "undo_of ([''route'', ''add''] @ r @ options) = Some ([''route'', ''delete''] @ take 4 (r @ options))"
  by (simp add: undo_of_def)

lemma undo_of_v6_route [simp]:
  "undo_of ([''netsh'', ''interface'', ''ipv6'', ''add'', ''route''] @ r @ options) =
   Some ([''netsh'', ''interface'', ''ipv6'', ''delete'', ''route''] @ take 2 (r @ options))"
  by (simp add: undo_of_def)

lemma undo_of_metric [simp]:
  "undo_of (set_metric ''ipv4'' name) = Some (automatic_metric ''IPv4'' name)"
  "undo_of (set_metric ''ipv6'' name) = Some (automatic_metric ''IPv6'' name)"
  by (simp_all add: undo_of_def set_metric_def)

lemma undo_of_print [simp]: "undo_of [''route'', ''print'', ''-4''] = None"
  by (simp add: undo_of_def set_metric_def powershell_def)

lemma undo_of_nrpt [simp]: "undo_of (add_nrpt servers) = Some (powershell NRPT_CLEAR)"
  by (simp add: undo_of_def add_nrpt_def powershell_def set_metric_def)

lemma local_commands [simp]:
  "local_command name (set_dns name d)" "local_command name (add_dns name i d)" "local_command name flushdns"
  "local_command name [''route'', ''print'', ''-4'']" "local_command name (powershell NRPT_CLEAR)"
  "local_command name [''netsh'', ''interface'', ''ipv4'', ''set'', ''address'', ''name='' @ name, ''static'', a, m]"
  "local_command name [''netsh'', ''interface'', ''ipv4'', ''set'', ''subinterface'', ''interface='' @ name, k, ''store=persistent'']"
  by (simp_all add: local_command_def set_dns_def add_dns_def)

lemma netsh_no_undo:
  "undo_of (''netsh'' # ''interface'' # ''ipv4'' # ''set'' # what # r) = None" if "what \<noteq> ''interface''" for what r
  using that by (simp add: undo_of_def set_metric_def powershell_def)

lemma local_no_undo:
  assumes "local_command name c"
  shows "undo_of c = None"
proof -
  have "c = take 6 c @ drop 6 c" by simp
  with assms consider
      r where "c = ''netsh'' # ''interface'' # ''ipv4'' # ''set'' # ''address'' # r"
    | r where "c = ''netsh'' # ''interface'' # ''ipv4'' # ''set'' # ''subinterface'' # r"
    | r where "c = ''netsh'' # ''interface'' # ''ipv4'' # ''set'' # ''dnsservers'' # r"
    | r where "c = ''netsh'' # ''interface'' # ''ipv4'' # ''add'' # ''dnsservers'' # r"
    | "c = powershell NRPT_CLEAR" | "c = flushdns" | "c = [''route'', ''print'', ''-4'']"
    unfolding local_command_def by (metis append_Cons empty_iff insert_iff)
  then show ?thesis
    by cases (simp_all add: netsh_no_undo undo_of_def set_metric_def powershell_def flushdns_def NRPT_CLEAR_def)
qed

text \<open>
  Instructions in which a change is followed by its undo and flushing the cache by arming the reset of the DNS servers,
  nothing else is pushed or armed, and every other command is a local one.
\<close>

inductive paired :: "string \<Rightarrow> instr list \<Rightarrow> bool" for name where
  paired_Nil: "paired name []"
| paired_Run: "local_command name c \<Longrightarrow> c \<noteq> flushdns \<Longrightarrow> paired name is \<Longrightarrow> paired name (Run c # is)"
| paired_Change: "undo_of c = Some u \<Longrightarrow> paired name is \<Longrightarrow> paired name (Run c # Undo u # is)"
| paired_Try: "paired name is \<Longrightarrow> paired name (Try (powershell NRPT_CLEAR) # is)"
| paired_Dns: "paired name is \<Longrightarrow> paired name (Run flushdns # DnsOn # is)"
| paired_Halt: "paired name is \<Longrightarrow> paired name (Halt # is)"

lemma paired_append: "paired name xs \<Longrightarrow> paired name ys \<Longrightarrow> paired name (xs @ ys)"
  by (induction rule: paired.induct) (auto intro: paired.intros)

lemma paired_concat: "\<forall>x \<in> set xs. paired name (f x) \<Longrightarrow> paired name (concat (map f xs))"
  by (induction xs) (auto intro: paired_append paired_Nil)

lemma paired_local_runs:
  "\<forall>x \<in> set xs. local_command name (f x) \<and> f x \<noteq> flushdns \<Longrightarrow> paired name (map (\<lambda>x. Run (f x)) xs)"
  by (induction xs) (auto intro: paired.intros)

lemma paired_v4_route: "length route = 4 \<Longrightarrow> paired name (v4_route route options)"
  unfolding v4_route_def by (rule paired_Change) (simp_all only: undo_of_route, simp_all add: paired_Nil)

lemma paired_v6_route: "length route = 2 \<Longrightarrow> paired name (v6_route route options)"
  unfolding v6_route_def by (rule paired_Change) (simp_all only: undo_of_v6_route, simp_all add: paired_Nil)

lemma not_flushdns [simp]: "set_dns name d \<noteq> flushdns" "add_dns name i d \<noteq> flushdns"
  by (simp_all add: set_dns_def add_dns_def flushdns_def)

lemma paired_setup: "paired name (setup_instrs N cfg name)"
proof -
  have dns: "paired name (dns_instrs name dns)" for dns
  proof (cases dns)
    case (Cons first rest)
    have rest: "paired name (map (\<lambda>(i, d). Run (add_dns name i d)) (enumerate 0 rest))"
      using paired_local_runs [of "enumerate 0 rest" name "\<lambda>(i, d). add_dns name i d"] by (simp add: split_def not_flushdns)
    have "paired name (if filter is_ipv4 dns = [] then []
        else [Try (powershell NRPT_CLEAR), Run (add_nrpt (filter is_ipv4 dns)), Undo (powershell NRPT_CLEAR)])"
      by (auto intro!: paired.intros)
    then show ?thesis
      unfolding dns_instrs_def Cons list.case Let_def
      by (intro paired_append rest paired.intros) (simp_all add: Cons)
  qed (simp add: dns_instrs_def paired_Nil)
  have metrics: "paired name (concat (map (\<lambda>(family, af). [Run (set_metric family name), Undo (automatic_metric af name)])
      [(''ipv4'', ''IPv4''), (''ipv6'', ''IPv6'')]))"
    by (rule paired_concat) (auto intro!: paired.intros)
  show ?thesis
    unfolding setup_instrs_def by (intro paired_append metrics dns) (intro paired.intros; simp add: local_command_def flushdns_def)
qed

lemma paired_routes: "paired name (route_instrs N cfg server index gateway ifaceip lan)"
proof -
  have net: "paired name (net_route N ip index part)" for ip part
    by (simp add: net_route_def paired_v4_route paired_v6_route)
  have allowed: "paired name (allowed_instrs N ip index n)" for ip n
    by (auto simp: allowed_instrs_def intro!: paired_concat net paired.intros paired_append split: option.split)
  have lan: "paired name (lan_instrs N cfg index lan)"
    by (auto simp: lan_instrs_def intro!: paired_concat paired_v4_route paired_Nil)
  have half: "paired name (half_instrs N cfg index h)" for h
    by (auto simp: half_instrs_def intro!: paired_v6_route paired.intros split: option.split)
  have dns: "paired name (dns_routes ip index seen ds)" for ip seen ds
    by (induction ip index seen ds rule: dns_routes.induct)
      (auto intro!: paired_append paired_v4_route paired_v6_route paired_Nil split: ip_addr.split)
  show ?thesis
    unfolding route_instrs_def Let_def
    by (intro paired_append paired_v4_route paired_concat ballI allowed lan half dns) simp_all
qed

section \<open>The commands that ran\<close>

text \<open>The same system, keeping the commands that succeeded.\<close>

definition logged :: "'s system \<Rightarrow> ('s \<times> argv list) system" where
  "logged R c w = (case R c (fst w) of (s', r) \<Rightarrow> ((s', if r = None then snd w else snd w @ [c]), r))"

lemma logged_step:
  "R c s = (s1, r) \<Longrightarrow> logged R c (s, log) = ((s1, if r = None then log else log @ [c]), r)"
  by (simp add: logged_def)

text \<open>A successful run has run every command it must.\<close>

lemma run_instrs_all:
  "run_instrs (logged R) is (dev, (s, log)) = ((dev', (s', log')), True) \<Longrightarrow>
   set log \<subseteq> set log' \<and> (\<forall>c. Run c \<in> set is \<longrightarrow> c \<in> set log')"
proof (induction "is" arbitrary: dev s log)
  case (Cons i "is")
  show ?case
  proof (cases i)
    case (Run c)
    obtain s1 r where r: "R c s = (s1, r)" by fastforce
    show ?thesis
    proof (cases r)
      case (Some out)
      with Cons.prems Run r have "run_instrs (logged R) is (dev, (s1, log @ [c])) = ((dev', (s', log')), True)"
        by (simp add: logged_step)
      from Cons.IH [OF this] Run show ?thesis by auto
    qed (use Cons.prems Run r in \<open>simp add: logged_step\<close>)
  next
    case (Try c)
    obtain s1 r where r: "R c s = (s1, r)" by fastforce
    with Cons.prems Try have
      "run_instrs (logged R) is (dev, (s1, if r = None then log else log @ [c])) = ((dev', (s', log')), True)"
      by (simp add: logged_step)
    from Cons.IH [OF this] Try show ?thesis by (auto split: if_splits)
  next
    case (Undo u)
    with Cons.IH [of "dev\<lparr>ad_undo := ad_undo dev @ [u]\<rparr>" s log] Cons.prems show ?thesis by simp
  next
    case DnsOn
    with Cons.IH [of "dev\<lparr>ad_dns := True\<rparr>" s log] Cons.prems show ?thesis by simp
  qed (use Cons.prems in simp)
qed simp

lemma run_instrs_state:
  "run_instrs R is (dev, s) = ((dev', s'), ok) \<Longrightarrow>
   ad_name dev' = ad_name dev \<and> (ok \<and> DnsOn \<in> set is \<or> ad_dns dev \<longrightarrow> ad_dns dev')"
proof (induction "is" arbitrary: dev s)
  case (Cons i "is")
  then show ?case
    by (cases i) (fastforce split: prod.splits option.splits)+
qed simp

section \<open>Every change is undone\<close>

text \<open>The same system, keeping every command with whether it succeeded.\<close>

type_synonym trace = "(argv \<times> bool) list"

definition traced :: "'s system \<Rightarrow> ('s \<times> trace) system" where
  "traced R c w = (case R c (fst w) of (s', r) \<Rightarrow> ((s', snd w @ [(c, r \<noteq> None)]), r))"

lemma traced_step: "R c s = (s1, r) \<Longrightarrow> traced R c (s, log) = ((s1, log @ [(c, r \<noteq> None)]), r)"
  by (simp add: traced_def)

text \<open>The undos of the changes that succeeded, in the order the changes were made.\<close>

fun undos :: "trace \<Rightarrow> argv list" where
  "undos [] = []"
| "undos ((c, ok) # cs) = (case undo_of c of Some u \<Rightarrow> if ok then u # undos cs else undos cs | None \<Rightarrow> undos cs)"

lemma undos_append [simp]: "undos (xs @ ys) = undos xs @ undos ys"
  by (induction xs rule: undos.induct) (simp_all split: option.split)

text \<open>
  What must be run to take an opening back: the undos of its changes, the latest first; and the reset of the
  adapter's DNS servers when the opening got as far as flushing the cache of names.
\<close>

definition closing :: "string \<Rightarrow> trace \<Rightarrow> argv list" where
  "closing name cs = rev (undos cs) @ (if (flushdns, True) \<in> set cs then [reset_dns name, flushdns] else [])"

text \<open>
  An orderly opening: changes that have an undo and local commands only; it ends at the first command that fails, unless
  that is the clearing of stale rules.
\<close>

definition orderly :: "string \<Rightarrow> bool \<Rightarrow> trace \<Rightarrow> bool" where
  "orderly name ok cs \<longleftrightarrow>
     list_all (\<lambda>(c, _). undo_of c \<noteq> None \<or> local_command name c) cs \<and>
     list_all (\<lambda>(c, done_ok). done_ok \<or> c = powershell NRPT_CLEAR) (if ok then cs else butlast cs)"

lemma orderly_Nil [simp]: "orderly name ok []"
  by (simp add: orderly_def)

lemma orderly_Cons:
  "orderly name ok ((c, b) # cs) \<longleftrightarrow> (undo_of c \<noteq> None \<or> local_command name c) \<and>
     (b \<or> c = powershell NRPT_CLEAR \<or> \<not> ok \<and> cs = []) \<and> orderly name ok cs"
  by (auto simp: orderly_def)

lemma orderly_append: "orderly name True cs \<Longrightarrow> orderly name ok ds \<Longrightarrow> orderly name ok (cs @ ds)"
  by (induction cs) (auto simp: orderly_Cons)

lemma flushdns_local: "undo_of flushdns = None" "undo_of (powershell NRPT_CLEAR) = None" "powershell NRPT_CLEAR \<noteq> flushdns"
  using local_no_undo [OF local_commands(3)] local_no_undo [OF local_commands(5)] by (simp_all add: powershell_def flushdns_def)

lemma run_instrs_traced:
  assumes "paired name is" "run_instrs (traced R) is (dev, (s, log)) = ((dev', (s', log')), ok)"
  shows "\<exists>cs. log' = log @ cs \<and> orderly name ok cs \<and> ad_undo dev' = ad_undo dev @ undos cs \<and>
    (ad_dns dev' \<longleftrightarrow> ad_dns dev \<or> (flushdns, True) \<in> set cs) \<and> ad_name dev' = ad_name dev"
  using assms
proof (induction arbitrary: dev s log rule: paired.induct)
  case (paired_Run c "is")
  obtain s1 r where r: "R c s = (s1, r)" by fastforce
  note u = local_no_undo [OF paired_Run.hyps(1)]
  show ?case
  proof (cases r)
    case None
    with paired_Run.prems r paired_Run.hyps(1,2) u show ?thesis
      by (auto simp: traced_step orderly_Cons intro!: exI [of _ "[(c, False)]"])
  next
    case (Some out)
    with paired_Run.prems r have "run_instrs (traced R) is (dev, (s1, log @ [(c, True)])) = ((dev', (s', log')), ok)"
      by (simp add: traced_step)
    from paired_Run.IH [OF this] obtain cs where "log' = log @ (c, True) # cs" "orderly name ok cs"
      "ad_undo dev' = ad_undo dev @ undos cs" "ad_dns dev' \<longleftrightarrow> ad_dns dev \<or> (flushdns, True) \<in> set cs" "ad_name dev' = ad_name dev"
      by auto
    with paired_Run.hyps(1,2) u show ?thesis by (intro exI [of _ "(c, True) # cs"]) (auto simp: orderly_Cons)
  qed
next
  case (paired_Change c u "is")
  obtain s1 r where r: "R c s = (s1, r)" by fastforce
  have other: "c \<noteq> flushdns" using paired_Change.hyps(1) flushdns_local(1) by auto
  show ?case
  proof (cases r)
    case None
    with paired_Change.prems r paired_Change.hyps(1) show ?thesis
      by (auto simp: traced_step orderly_Cons intro!: exI [of _ "[(c, False)]"])
  next
    case (Some out)
    with paired_Change.prems r have
      "run_instrs (traced R) is (dev\<lparr>ad_undo := ad_undo dev @ [u]\<rparr>, (s1, log @ [(c, True)])) = ((dev', (s', log')), ok)"
      by (simp add: traced_step)
    from paired_Change.IH [OF this] obtain cs where "log' = log @ (c, True) # cs" "orderly name ok cs"
      "ad_undo dev' = ad_undo dev @ u # undos cs" "ad_dns dev' \<longleftrightarrow> ad_dns dev \<or> (flushdns, True) \<in> set cs" "ad_name dev' = ad_name dev"
      by auto
    with paired_Change.hyps(1) other show ?thesis by (intro exI [of _ "(c, True) # cs"]) (auto simp: orderly_Cons)
  qed
next
  case (paired_Try "is")
  let ?c = "powershell NRPT_CLEAR"
  obtain s1 r where r: "R ?c s = (s1, r)" by fastforce
  with paired_Try.prems have "run_instrs (traced R) is (dev, (s1, log @ [(?c, r \<noteq> None)])) = ((dev', (s', log')), ok)"
    by (simp add: traced_step)
  from paired_Try.IH [OF this] obtain cs where "log' = log @ (?c, r \<noteq> None) # cs" "orderly name ok cs"
    "ad_undo dev' = ad_undo dev @ undos cs" "ad_dns dev' \<longleftrightarrow> ad_dns dev \<or> (flushdns, True) \<in> set cs" "ad_name dev' = ad_name dev"
    by auto
  then show ?case by (intro exI [of _ "(?c, r \<noteq> None) # cs"]) (auto simp: orderly_Cons flushdns_local flushdns_local(3) [symmetric])
next
  case (paired_Dns "is")
  obtain s1 r where r: "R flushdns s = (s1, r)" by fastforce
  show ?case
  proof (cases r)
    case None
    with paired_Dns.prems r show ?thesis
      by (auto simp: traced_step orderly_Cons flushdns_local intro!: exI [of _ "[(flushdns, False)]"])
  next
    case (Some out)
    with paired_Dns.prems r have
      "run_instrs (traced R) is (dev\<lparr>ad_dns := True\<rparr>, (s1, log @ [(flushdns, True)])) = ((dev', (s', log')), ok)"
      by (simp add: traced_step)
    from paired_Dns.IH [OF this] obtain cs where "log' = log @ (flushdns, True) # cs" "orderly name ok cs"
      "ad_undo dev' = ad_undo dev @ undos cs" "ad_dns dev'" "ad_name dev' = ad_name dev"
      by auto
    then show ?thesis by (intro exI [of _ "(flushdns, True) # cs"]) (auto simp: orderly_Cons flushdns_local)
  qed
qed auto

text \<open>What \<open>Drop\<close> runs.\<close>

lemma undo_traced:
  "\<exists>answers. snd (fold (\<lambda>c s. fst (traced R c s)) cs w) = snd w @ answers \<and> map fst answers = cs"
proof (induction cs arbitrary: w)
  case (Cons c cs)
  obtain s1 r where r: "R c (fst w) = (s1, r)" by fastforce
  then have one: "fst (traced R c w) = (s1, snd w @ [(c, r \<noteq> None)])" by (simp add: traced_def)
  from Cons.IH [of "(s1, snd w @ [(c, r \<noteq> None)])"] show ?case by (force simp: one)
qed simp

lemma drop_traced:
  "\<exists>answers. snd (drop_adapter (traced R) dev w) = snd w @ answers \<and>
     map fst answers = rev (ad_undo dev) @ (if ad_dns dev then [reset_dns (ad_name dev), flushdns] else [])"
proof -
  have "drop_adapter (traced R) dev w = fold (\<lambda>c s. fst (traced R c s))
      (rev (ad_undo dev) @ (if ad_dns dev then [reset_dns (ad_name dev), flushdns] else [])) w"
    by (simp add: drop_adapter_def Let_def)
  then show ?thesis using undo_traced by metis
qed

section \<open>Properties of the adapter\<close>

lemma run_instrs_halt: "run_instrs R is w = (w', True) \<Longrightarrow> Halt \<notin> set is"
proof (induction "is" arbitrary: w)
  case (Cons i "is")
  then show ?case
    by (cases w; cases i) (fastforce split: prod.splits option.splits)+
qed simp

text \<open>The three ways the body of \<open>open\<close> ends.\<close>

lemma open_body_cases:
  assumes "open_body R N cfg server name index s = ((dev, s'), ok)"
  obtains
    (early) "run_instrs R (setup_instrs N cfg name) (\<lparr>ad_name = name, ad_dns = False, ad_undo = []\<rparr>, s) = ((dev, s'), False)"
      "\<not> ok"
  | (table) s1 r where
      "run_instrs R (setup_instrs N cfg name) (\<lparr>ad_name = name, ad_dns = False, ad_undo = []\<rparr>, s) = ((dev, s1), True)"
      "R [''route'', ''print'', ''-4''] s1 = (s', r)" "\<not> ok"
  | (routes) dev1 s1 s2 table gateway ifaceip lan where
      "run_instrs R (setup_instrs N cfg name) (\<lparr>ad_name = name, ad_dns = False, ad_undo = []\<rparr>, s) = ((dev1, s1), True)"
      "R [''route'', ''print'', ''-4''] s1 = (s2, Some table)" "parse_routes table = (Some (gateway, ifaceip), lan)"
      "run_instrs R (route_instrs N cfg server index gateway ifaceip lan) (dev1, s2) = ((dev, s'), ok)"
proof -
  obtain dev1 s1 ok1 where first:
    "run_instrs R (setup_instrs N cfg name) (\<lparr>ad_name = name, ad_dns = False, ad_undo = []\<rparr>, s) = ((dev1, s1), ok1)"
    by (cases "run_instrs R (setup_instrs N cfg name) (\<lparr>ad_name = name, ad_dns = False, ad_undo = []\<rparr>, s)") auto
  obtain s2 r where print: "R [''route'', ''print'', ''-4''] s1 = (s2, r)" by fastforce
  show thesis
  proof (cases ok1)
    case False
    with first assms show thesis by (intro early) (simp_all add: open_body_def)
  next
    case True
    show thesis
    proof (cases r)
      case None
      with True first print assms show thesis by (intro table [of s1 r]) (simp_all add: open_body_def)
    next
      case (Some out)
      obtain d lan where parsed: "parse_routes out = (d, lan)" by fastforce
      show thesis
      proof (cases d)
        case None
        with True Some first print parsed assms show thesis
          by (intro table [of s1 r]) (simp_all add: open_body_def)
      next
        case (Some gi)
        with True \<open>r = Some out\<close> first print parsed assms show thesis
          by (cases gi) (intro routes; simp add: open_body_def)
      qed
    qed
  qed
qed

lemma open_body_traced:
  assumes "open_body (traced R) N cfg server name index (s, []) = ((dev, (s', log)), ok)"
  shows "orderly name ok log \<and> ad_undo dev = undos log \<and> (ad_dns dev \<longleftrightarrow> (flushdns, True) \<in> set log) \<and> ad_name dev = name"
  using assms
proof (cases rule: open_body_cases)
  case early
  from run_instrs_traced [OF paired_setup this(1)] early(2) show ?thesis by auto
next
  case (table w r)
  obtain s1 l1 where w: "w = (s1, l1)" by fastforce
  obtain q where log: "log = l1 @ [([''route'', ''print'', ''-4''], q)]"
    using table(2) w by (auto simp: traced_def split: prod.splits)
  have q: "orderly name ok [([''route'', ''print'', ''-4''], q)]" using table(3) by (simp add: orderly_Cons)
  from run_instrs_traced [OF paired_setup table(1) [unfolded w]] q show ?thesis
    by (auto simp: log orderly_append flushdns_def)
next
  case (routes dev1 w1 w2 tbl gateway ifaceip lan)
  obtain s1 l1 where w1: "w1 = (s1, l1)" by fastforce
  obtain s2 where w2: "w2 = (s2, l1 @ [([''route'', ''print'', ''-4''], True)])"
    using routes(2) w1 by (auto simp: traced_def split: prod.splits)
  have p: "orderly name True [([''route'', ''print'', ''-4''], True)]" by (simp add: orderly_Cons)
  from run_instrs_traced [OF paired_setup routes(1) [unfolded w1]]
  have one: "orderly name True l1" "ad_undo dev1 = undos l1" "ad_dns dev1 \<longleftrightarrow> (flushdns, True) \<in> set l1" "ad_name dev1 = name"
    by auto
  from run_instrs_traced [OF paired_routes [of name] routes(4) [unfolded w2]] obtain cs where
    two: "log = l1 @ [([''route'', ''print'', ''-4''], True)] @ cs" "orderly name ok cs" "ad_undo dev = ad_undo dev1 @ undos cs"
    "ad_dns dev \<longleftrightarrow> ad_dns dev1 \<or> (flushdns, True) \<in> set cs" "ad_name dev = ad_name dev1"
    by auto
  have "orderly name ok log" unfolding two(1) by (intro orderly_append one(1) p two(2))
  with one two show ?thesis by (auto simp: flushdns_def)
qed

lemma win_open_traced_at:
  assumes "win_open (traced R) N (Some (name, index)) cfg server (s, []) = ((s', log), r)"
  shows "case r of
      None \<Rightarrow> \<exists>cs answers. orderly name False cs \<and> log = cs @ answers \<and> map fst answers = closing name cs
    | Some dev \<Rightarrow> orderly name True log \<and>
        (\<forall>t cs. \<exists>answers. snd (drop_adapter (traced R) dev (t, cs)) = cs @ answers \<and> map fst answers = closing name log)"
proof -
  obtain dev s1 cs ok where body: "open_body (traced R) N cfg server name index (s, []) = ((dev, (s1, cs)), ok)"
    by (metis surj_pair)
  note spec = open_body_traced [OF body]
  have drop: "\<exists>answers. snd (drop_adapter (traced R) dev w) = snd w @ answers \<and> map fst answers = closing name cs" for w
  proof -
    have "closing name cs = rev (ad_undo dev) @ (if ad_dns dev then [reset_dns (ad_name dev), flushdns] else [])"
      using spec by (simp add: closing_def)
    then show ?thesis by (simp only: drop_traced)
  qed
  show ?thesis
  proof (cases ok)
    case True
    with assms body have "r = Some dev" "log = cs" by (simp_all add: win_open_def)
    moreover have "\<exists>answers. snd (drop_adapter (traced R) dev (t, ds)) = ds @ answers \<and> map fst answers = closing name cs" for t ds
      using drop [of "(t, ds)"] by simp
    ultimately show ?thesis using spec True by simp
  next
    case False
    with assms body have "r = None" "log = snd (drop_adapter (traced R) dev (s1, cs))" by (simp_all add: win_open_def)
    with drop [of "(s1, cs)"] spec False show ?thesis by auto
  qed
qed

lemma win_open_traced:
  assumes "win_open (traced R) N win cfg server (s, []) = ((s', log), r)"
  shows "case win of
      None \<Rightarrow> r = None \<and> log = []
    | Some (name, index) \<Rightarrow>
        (case r of
           None \<Rightarrow> \<exists>cs answers. orderly name False cs \<and> log = cs @ answers \<and> map fst answers = closing name cs
         | Some dev \<Rightarrow> orderly name True log \<and>
             (\<forall>t cs. \<exists>answers. snd (drop_adapter (traced R) dev (t, cs)) = cs @ answers \<and> map fst answers = closing name log))"
proof (cases win)
  case (Some ni)
  with assms win_open_traced_at show ?thesis by (cases ni) simp
qed (use assms in \<open>simp add: win_open_def\<close>)

text \<open>
  C32: every change is undone. Whatever the commands answer: an \<open>open\<close> runs only changes that have an undo and
  commands local to the adapter, and stops at the first failure (clearing stale rules apart). One that fails then
  runs the undo of each change that had succeeded and of no other, the latest first, and resets the DNS servers if it
  had come to flushing the cache; after one that succeeds, dropping the adapter does exactly that.
\<close>

theorem opening_is_undone:
  assumes "win_open (traced R) N (Some (name, index)) cfg server (s, []) = ((s', log), r)"
  shows "case r of
      None \<Rightarrow> \<exists>cs answers. orderly name False cs \<and> log = cs @ answers \<and> map fst answers = closing name cs
    | Some dev \<Rightarrow> orderly name True log \<and>
        (\<forall>t cs. \<exists>answers. snd (drop_adapter (traced R) dev (t, cs)) = cs @ answers \<and> map fst answers = closing name log)"
  using assms by (rule win_open_traced_at)

text \<open>The command that routes a network into the tunnel.\<close>

definition tunnel_route :: "('net, 'a) net_ops_scheme \<Rightarrow> ip_addr \<Rightarrow> nat \<Rightarrow> 'net \<Rightarrow> argv" where
  "tunnel_route N ip index n =
     (if is_ipv4 (no_addr N n)
      then [''route'', ''add'', show_ip (no_addr N n), ''mask'', show_ip (no_netmask N n), show_ip ip] @ via_tunnel index
      else [''netsh'', ''interface'', ''ipv6'', ''add'', ''route'', no_show N n, ''interface='' @ show_nat index])"

definition host_route :: "ip_addr \<Rightarrow> nat \<Rightarrow> ip_addr \<Rightarrow> argv" where
  "host_route ip index d =
     (case d of
        V4 a \<Rightarrow> [''route'', ''add'', show_ipv4 a, ''mask'', ''255.255.255.255'', show_ip ip] @ via_tunnel index
      | V6 a \<Rightarrow> [''netsh'', ''interface'', ''ipv6'', ''add'', ''route'', show_ipv6 a @ ''/128'', ''interface='' @ show_nat index])"

definition pin_route :: "string \<Rightarrow> u32 \<Rightarrow> argv" where
  "pin_route dest via = [''route'', ''add'', dest, ''mask'', ''255.255.255.255'', show_ipv4 via, ''metric'', ''1'']"

lemma Run_net_route: "Run (tunnel_route N ip index n) \<in> set (net_route N ip index n)"
  by (simp add: net_route_def tunnel_route_def v4_route_def v6_route_def)

lemma Run_dns_routes:
  "d \<in> set ds \<Longrightarrow> d \<notin> set seen \<Longrightarrow> Run (host_route ip index d) \<in> set (dns_routes ip index seen ds)"
proof (induction ip index seen ds rule: dns_routes.induct)
  case (2 ip index seen d' ds)
  then show ?case
    by (cases "d = d'") (auto simp: host_route_def v4_route_def v6_route_def split: ip_addr.split)
qed simp

text \<open>
  Everything a full tunnel needs is among the commands that ran: both pins, every allowed network (a default
  one in both halves too), every DNS server, the IPv6 halves, and under a default network the local subnets.
\<close>

definition fully_routed ::
  "('net, 'a) net_ops_scheme \<Rightarrow> 'net client_config \<Rightarrow> ip_addr \<Rightarrow> nat \<Rightarrow> u32 \<Rightarrow> u32 \<Rightarrow> (u32 \<times> u32) list \<Rightarrow> argv set \<Rightarrow> bool" where
  "fully_routed N cfg server index gateway ifaceip lan issued \<longleftrightarrow>
     (let ip = no_addr N (cc_address cfg) in
      pin_route (show_ipv4 gateway) ifaceip \<in> issued \<and> pin_route (show_ip server) gateway \<in> issued \<and>
      (\<forall>n \<in> set (cc_allowed_ips cfg). tunnel_route N ip index n \<in> issued) \<and>
      (\<forall>n \<in> set (cc_allowed_ips cfg). is_default_v4 N n \<longrightarrow>
         (\<forall>half \<in> {''0.0.0.0/1'', ''128.0.0.0/1''}. \<exists>h. nt_parse N half = Some h \<and> tunnel_route N ip index h \<in> issued)) \<and>
      (\<forall>d \<in> set (cc_dns cfg). host_route ip index d \<in> issued) \<and>
      (\<forall>half \<in> {''::/1'', ''8000::/1''}. \<exists>h. nt_parse N half = Some h \<and> (h \<in> set (cc_allowed_ips cfg) \<or>
         [''netsh'', ''interface'', ''ipv6'', ''add'', ''route'', half, ''interface='' @ show_nat index, ''metric=1''] \<in> issued)) \<and>
      (list_ex (is_default_v4 N) (cc_allowed_ips cfg) \<longrightarrow>
         (\<forall>s \<in> set lan. V4 (fst s) = no_network N (cc_address cfg) \<and> V4 (snd s) = no_netmask N (cc_address cfg) \<or>
            [''route'', ''add'', show_ipv4 (fst s), ''mask'', show_ipv4 (snd s), show_ip ip] @ via_tunnel index \<in> issued)))"

lemma routes_complete:
  assumes "\<forall>c. Run c \<in> set (route_instrs N cfg server index gateway ifaceip lan) \<longrightarrow> c \<in> issued"
    and "Halt \<notin> set (route_instrs N cfg server index gateway ifaceip lan)"
  shows "fully_routed N cfg server index gateway ifaceip lan issued"
proof -
  let ?ip = "no_addr N (cc_address cfg)" and ?is = "route_instrs N cfg server index gateway ifaceip lan"
  have ran: "Run c \<in> set ?is \<Longrightarrow> c \<in> issued" for c using assms(1) by blast
  have parts: "set (allowed_instrs N ?ip index n) \<subseteq> set ?is" if "n \<in> set (cc_allowed_ips cfg)" for n
    using that by (auto simp: route_instrs_def Let_def)
  have halves: "set (half_instrs N cfg index half) \<subseteq> set ?is" if "half \<in> {''::/1'', ''8000::/1''}" for half
    using that by (auto simp: route_instrs_def Let_def)
  have default: "\<exists>low high. nt_parse N ''0.0.0.0/1'' = Some low \<and> nt_parse N ''128.0.0.0/1'' = Some high \<and>
      tunnel_route N ?ip index low \<in> issued \<and> tunnel_route N ?ip index high \<in> issued \<and> tunnel_route N ?ip index n \<in> issued"
    if n: "n \<in> set (cc_allowed_ips cfg)" "is_default_v4 N n" for n
  proof -
    obtain low high where lh: "nt_parse N ''0.0.0.0/1'' = Some low" "nt_parse N ''128.0.0.0/1'' = Some high"
      using parts [OF n(1)] assms(2) n(2) by (auto simp: allowed_instrs_def split: option.splits)
    then have "set (net_route N ?ip index p) \<subseteq> set ?is" if "p \<in> {low, high, n}" for p
      using parts [OF n(1)] n(2) that by (auto simp: allowed_instrs_def)
    with lh show ?thesis by (blast intro: ran Run_net_route)
  qed
  have single: "tunnel_route N ?ip index n \<in> issued" if n: "n \<in> set (cc_allowed_ips cfg)" for n
  proof (cases "is_default_v4 N n")
    case False
    then have "set (net_route N ?ip index n) \<subseteq> set ?is" using parts [OF n] by (simp add: allowed_instrs_def)
    then show ?thesis by (blast intro: ran Run_net_route)
  qed (use default [OF n] in blast)
  have half: "\<exists>h. nt_parse N half = Some h \<and> (h \<in> set (cc_allowed_ips cfg) \<or>
       [''netsh'', ''interface'', ''ipv6'', ''add'', ''route'', half, ''interface='' @ show_nat index, ''metric=1''] \<in> issued)"
    if hf: "half \<in> {''::/1'', ''8000::/1''}" for half
  proof -
    obtain h where h: "nt_parse N half = Some h"
      using halves [OF hf] assms(2) by (auto simp: half_instrs_def split: option.splits)
    show ?thesis
    proof (cases "h \<in> set (cc_allowed_ips cfg)")
      case False
      with h halves [OF hf] show ?thesis by (auto simp: half_instrs_def v6_route_def intro!: ran)
    qed (use h in blast)
  qed
  have lan: "V4 (fst s) = no_network N (cc_address cfg) \<and> V4 (snd s) = no_netmask N (cc_address cfg) \<or>
      [''route'', ''add'', show_ipv4 (fst s), ''mask'', show_ipv4 (snd s), show_ip ?ip] @ via_tunnel index \<in> issued"
    if "list_ex (is_default_v4 N) (cc_allowed_ips cfg)" "s \<in> set lan" for s
  proof (cases "V4 (fst s) = no_network N (cc_address cfg) \<and> V4 (snd s) = no_netmask N (cc_address cfg)")
    case False
    have "set (lan_instrs N cfg index lan) \<subseteq> set ?is" by (auto simp: route_instrs_def Let_def)
    moreover have "Run ([''route'', ''add'', show_ipv4 (fst s), ''mask'', show_ipv4 (snd s), show_ip ?ip] @ via_tunnel index)
        \<in> set (lan_instrs N cfg index lan)"
      using that False by (cases s) (auto simp: lan_instrs_def v4_route_def intro!: bexI [of _ s])
    ultimately show ?thesis by (blast intro: ran)
  qed blast
  have dns: "host_route ?ip index d \<in> issued" if "d \<in> set (cc_dns cfg)" for d
    using Run_dns_routes [OF that, of "[]" ?ip index] by (intro ran) (simp add: route_instrs_def Let_def)
  have pins: "pin_route (show_ipv4 gateway) ifaceip \<in> issued" "pin_route (show_ip server) gateway \<in> issued"
    by (rule ran, simp add: route_instrs_def Let_def v4_route_def pin_route_def)+
  show ?thesis
    unfolding fully_routed_def Let_def
    by (intro conjI ballI impI pins single dns half lan) (use default in blast)+
qed

text \<open>
  C36: a tunnel that opens is complete. When \<open>open\<close> succeeds, the server and the physical gateway are pinned to
  the physical link, every allowed network and every DNS server is routed into the tunnel, a default network
  in both its halves as well, each half of the IPv6 space is routed into it (or is an allowed network itself),
  under a default network the local subnets too, and the reset of the DNS servers is armed when there are any.
\<close>

theorem open_is_complete:
  assumes "open_body (logged R) N cfg server name index (s, []) = ((dev, (s', log)), True)"
  shows "\<exists>s1 s2 out gateway ifaceip lan. R [''route'', ''print'', ''-4''] s1 = (s2, Some out) \<and>
    parse_routes out = (Some (gateway, ifaceip), lan) \<and>
    fully_routed N cfg server index gateway ifaceip lan (set log) \<and> (cc_dns cfg \<noteq> [] \<longrightarrow> ad_dns dev)"
  using assms
proof (cases rule: open_body_cases)
  case (routes dev1 w1 w2 out gateway ifaceip lan)
  obtain s1 l1 where w1: "w1 = (s1, l1)" by fastforce
  obtain s2 l2 where w2: "w2 = (s2, l2)" by fastforce
  have print: "R [''route'', ''print'', ''-4''] s1 = (s2, Some out)"
    using routes(2) w1 w2 by (auto simp: logged_def split: prod.splits)
  have all: "fully_routed N cfg server index gateway ifaceip lan (set log)"
    using run_instrs_all [OF routes(4) [unfolded w2]] run_instrs_halt [OF routes(4)]
    by (intro routes_complete) blast+
  have "cc_dns cfg \<noteq> [] \<longrightarrow> ad_dns dev"
  proof
    assume "cc_dns cfg \<noteq> []"
    then have "DnsOn \<in> set (setup_instrs N cfg name)"
      by (cases "cc_dns cfg") (simp_all add: setup_instrs_def dns_instrs_def)
    with run_instrs_state [OF routes(1)] run_instrs_state [OF routes(4)] show "ad_dns dev" by simp
  qed
  with print routes(3) all show ?thesis by blast
qed simp_all

section \<open>A concrete system\<close>

definition host_ops :: "(ip_addr \<times> nat) net_ops" where
  "host_ops =
     \<lparr>nt_parse = (\<lambda>s. if s = ''0.0.0.0/1'' then Some (V4 0, 1) else if s = ''128.0.0.0/1'' then Some (V4 0x80000000, 1)
        else if s = ''::/1'' then Some (V6 0, 1) else Some (V6 0, 2)),
      nt_new = (\<lambda>ip n. Some (ip, n)), no_addr = fst, no_netmask = (\<lambda>_. V4 0), no_network = fst, no_prefix_len = snd,
      no_show = (\<lambda>n. show_ip (fst n) @ ''/'' @ show_nat (snd n))\<rparr>"

definition tunnel_conf :: "(ip_addr \<times> nat) client_config" where
  "tunnel_conf = \<lparr>cc_private_key = [], cc_peer_public_key = [], cc_preshared_key = None,
     cc_address = (V4 0x0A070002, 32), cc_dns = [V4 0x01010101], cc_endpoint = EpUdp (sock (V4 1) 1),
     cc_allowed_ips = [(V4 0, 0)], cc_mtu = 1420, cc_keepalive = None\<rparr>"

text \<open>A system that refuses one command: setting the metric of IPv6.\<close>

definition refusing :: "unit system" where
  "refusing c s = (s, if c = set_metric ''ipv6'' NAME then None else Some sample_table)"

lemma refusing_traced:
  "traced refusing c ((), log) =
     (if c = set_metric ''ipv6'' NAME then (((), log @ [(c, False)]), None) else (((), log @ [(c, True)]), Some sample_table))"
  by (simp add: traced_def refusing_def)

lemma refused_open:
  obtains a b where "win_open (traced refusing) host_ops (Some (NAME, 7)) tunnel_conf (V4 9) ((), []) =
    (((), [(a, True), (b, True), (set_metric ''ipv4'' NAME, True), (set_metric ''ipv6'' NAME, False),
       (automatic_metric ''IPv4'' NAME, True)]), None)"
proof -
  obtain a b rest where instrs: "setup_instrs host_ops tunnel_conf NAME = Run a # Run b # Run (set_metric ''ipv4'' NAME) #
      Undo (automatic_metric ''IPv4'' NAME) # Run (set_metric ''ipv6'' NAME) # rest"
    and ab: "a ! 3 = ''set''" "a ! 4 = ''address''" "b ! 4 = ''subinterface''"
    by (simp add: setup_instrs_def)
  have "a \<noteq> set_metric ''ipv6'' NAME" "b \<noteq> set_metric ''ipv6'' NAME" using ab by (auto simp: set_metric_def)
  moreover have "set_metric ''ipv4'' NAME \<noteq> set_metric ''ipv6'' NAME"
    "automatic_metric ''IPv4'' NAME \<noteq> set_metric ''ipv6'' NAME"
    by (simp_all add: set_metric_def automatic_metric_def powershell_def)
  ultimately have "win_open (traced refusing) host_ops (Some (NAME, 7)) tunnel_conf (V4 9) ((), []) =
    (((), [(a, True), (b, True), (set_metric ''ipv4'' NAME, True), (set_metric ''ipv6'' NAME, False),
       (automatic_metric ''IPv4'' NAME, True)]), None)"
    by (simp add: win_open_def open_body_def instrs refusing_traced drop_adapter_def)
  then show thesis by (rule that)
qed

theorem opening_is_undone_witness:
  "\<exists>log cs. win_open (traced refusing) host_ops (Some (NAME, 7)) tunnel_conf (V4 9) ((), []) = (((), log), None) \<and>
     orderly NAME False cs \<and> map fst log = map fst cs @ closing NAME cs \<and>
     (set_metric ''ipv6'' NAME, False) \<in> set log \<and> last (map fst log) = automatic_metric ''IPv4'' NAME"
proof -
  obtain a b where run: "win_open (traced refusing) host_ops (Some (NAME, 7)) tunnel_conf (V4 9) ((), []) =
    (((), [(a, True), (b, True), (set_metric ''ipv4'' NAME, True), (set_metric ''ipv6'' NAME, False),
       (automatic_metric ''IPv4'' NAME, True)]), None)"
    (is "_ = (((), ?log), None)") by (rule refused_open)
  from opening_is_undone [OF run] obtain cs answers where "orderly NAME False cs" "?log = cs @ answers"
    "map fst answers = closing NAME cs"
    unfolding option.case by blast
  then have "orderly NAME False cs" "map fst ?log = map fst cs @ closing NAME cs" by (metis, metis map_append)
  moreover have "(set_metric ''ipv6'' NAME, False) \<in> set ?log" "last (map fst ?log) = automatic_metric ''IPv4'' NAME" by simp_all
  ultimately show ?thesis using run by blast
qed

text \<open>A system on which every command succeeds.\<close>

definition willing :: "unit system" where
  "willing c s = (s, Some sample_table)"

lemma willing_run: "Halt \<notin> set is \<Longrightarrow> \<exists>dev log'. run_instrs (logged willing) is (dev0, ((), log)) = ((dev, ((), log')), True)"
proof (induction "is" arbitrary: dev0 log)
  case (Cons i "is")
  then show ?case by (cases i) (simp_all add: logged_def willing_def)
qed simp

lemma willing_opens:
  "\<exists>dev log. open_body (logged willing) host_ops tunnel_conf (V4 9) NAME 7 ((), []) = ((dev, ((), log)), True)"
proof -
  have "Halt \<notin> set (setup_instrs host_ops tunnel_conf NAME)"
    by (simp add: setup_instrs_def dns_instrs_def tunnel_conf_def)
  then obtain dev1 l1 where set_up: "run_instrs (logged willing) (setup_instrs host_ops tunnel_conf NAME)
      (\<lparr>ad_name = NAME, ad_dns = False, ad_undo = []\<rparr>, ((), [])) = ((dev1, ((), l1)), True)"
    using willing_run by blast
  have "Halt \<notin> set (route_instrs host_ops tunnel_conf (V4 9) 7 0x0A000001 0x0A000002 [])"
    by (simp add: route_instrs_def allowed_instrs_def net_route_def half_instrs_def lan_instrs_def v4_route_def
        v6_route_def is_default_v4_def tunnel_conf_def host_ops_def Let_def)
  then obtain dev l2 where "run_instrs (logged willing)
      (route_instrs host_ops tunnel_conf (V4 9) 7 0x0A000001 0x0A000002 [])
      (dev1, ((), l1 @ [[''route'', ''print'', ''-4'']])) = ((dev, ((), l2)), True)"
    using willing_run by blast
  with set_up show ?thesis
    by (simp add: open_body_def logged_step [of willing] willing_def sample_routes)
qed

theorem open_is_complete_witness:
  "\<exists>dev log gateway ifaceip lan.
     open_body (logged willing) host_ops tunnel_conf (V4 9) NAME 7 ((), []) = ((dev, ((), log)), True) \<and>
     fully_routed host_ops tunnel_conf (V4 9) 7 gateway ifaceip lan (set log) \<and> ad_dns dev"
proof -
  obtain dev log where run: "open_body (logged willing) host_ops tunnel_conf (V4 9) NAME 7 ((), []) = ((dev, ((), log)), True)"
    using willing_opens by blast
  moreover have "cc_dns tunnel_conf \<noteq> []" by (simp add: tunnel_conf_def)
  ultimately show ?thesis using open_is_complete [OF run] by blast
qed

section \<open>An open that fails after setting the DNS servers\<close>

text \<open>
  The flag that arms the reset of the DNS servers is set after the last command of their block: when flushing
  the cache fails, the servers have been set and \<open>Drop\<close> does not reset them.
\<close>

definition no_flush :: "argv list system" where
  "no_flush c s = (s @ [c], if c = flushdns then None else Some sample_table)"

lemma dns_not_reset:
  "\<exists>s'. win_open no_flush host_ops (Some (NAME, 7)) tunnel_conf (V4 9) [] = (s', None) \<and>
     set_dns NAME (V4 0x01010101) \<in> set s' \<and> reset_dns NAME \<notin> set s'"
proof -
  have differ: "set_metric f n \<noteq> flushdns" "set_dns n d \<noteq> flushdns" "add_nrpt ds \<noteq> flushdns"
      "set_metric f n \<noteq> reset_dns NAME" "powershell x \<noteq> reset_dns NAME" "flushdns \<noteq> reset_dns NAME"
      "set_dns n d \<noteq> reset_dns NAME" "automatic_metric a n \<noteq> reset_dns NAME" "add_nrpt ds \<noteq> reset_dns NAME" for f n d ds x a
    by (simp_all add: set_metric_def flushdns_def set_dns_def add_nrpt_def powershell_def automatic_metric_def
        reset_dns_def NAME_def)
  show ?thesis
    by (simp add: win_open_def open_body_def setup_instrs_def dns_instrs_def tunnel_conf_def no_flush_def
        drop_adapter_def differ differ [symmetric] host_ops_def)
      (simp add: flushdns_def reset_dns_def)
qed

end
