(* ===== verification/Client_App.thy ===== *)
theory Client_App
  imports Client_Engine Client_Adapter "HOL-Library.Char_ord" "HOL-Library.List_Lexorder"
begin

text \<open>
  \<open>crates/client-win/src-tauri/src/main.rs\<close>: the log ring, the session behind \<open>connect\<close>, \<open>disconnect\<close> and
  \<open>status\<close>, \<open>dial\<close> over the configuration, the adapter and the engine, the profiles and the settings. Tauri,
  the file system, \<open>serde_json\<close> and the updater are arguments.
\<close>

section \<open>The log\<close>

definition LOG_KEEP :: nat where
  "LOG_KEEP = 200"

function make_room :: "string list \<Rightarrow> string list" where
  "make_room buf = (if LOG_KEEP \<le> length buf then make_room (tl buf) else buf)"
  by pat_completeness auto
termination
  by (relation "measure length") (auto simp: LOG_KEEP_def)

declare make_room.simps [simp del]

definition push_log :: "string \<Rightarrow> string list \<Rightarrow> string list" where
  "push_log line buf = make_room buf @ [line]"

definition log_history :: "string list \<Rightarrow> string list" where
  "log_history buf = buf"

text \<open>\<open>Message\<close> as a \<open>Visit\<close>: a field with the text of its value, in its own or its debug form.\<close>

definition record_field :: "string \<times> string \<Rightarrow> string \<Rightarrow> string" where
  "record_field f msg =
     (if fst f = ''message'' then snd f else msg @ '' '' @ fst f @ ''='' @ snd f)"

datatype level = ERROR | WARN | INFO | DEBUG | TRACE

fun level_name :: "level \<Rightarrow> string" where
  "level_name ERROR = ''ERROR''"
| "level_name WARN = ''WARN''"
| "level_name INFO = ''INFO''"
| "level_name DEBUG = ''DEBUG''"
| "level_name TRACE = ''TRACE''"

definition pad_right :: "nat \<Rightarrow> string \<Rightarrow> string" where
  "pad_right n s = s @ replicate (n - length s) (CHR '' '')"

text \<open>\<open>secs\<close> is the formatted time since the start.\<close>

definition on_event :: "level \<Rightarrow> string \<Rightarrow> (string \<times> string) list \<Rightarrow> string \<Rightarrow> string list \<Rightarrow> string list" where
  "on_event lvl target fs secs buf =
     (if lvl = TRACE then buf
      else push_log (secs @ ''  '' @ pad_right 5 (level_name lvl) @ ''  '' @ target @ ''  '' @
        fold record_field fs []) buf)"

section \<open>The session\<close>

datatype app_error =
    AlreadyConnected
  | ErrConfig conf_error
  | ErrResolve resolve_error
  | ErrDll
  | ErrAdapter
  | ErrHandshake connect_error
  | UpdaterUnavailable
  | UpdateCheckFailed
  | AlreadyUpToDate
  | UpdateFailed
  | NameMissing
  | ConfMissing
  | FileError

record ('t, 'a) session =
  se_state :: string
  se_error :: "app_error option"
  se_endpoint :: "string option"
  se_tunnel :: "'t option"
  se_adapter :: "'a option"

definition initial_session :: "('t, 'a) session" where
  "initial_session =
     \<lparr>se_state = ''disconnected'', se_error = None, se_endpoint = None, se_tunnel = None, se_adapter = None\<rparr>"

text \<open>The two critical sections of \<open>connect\<close>, around the dialling.\<close>

definition connect_begin :: "('t, 'a) session \<Rightarrow> app_error + ('t, 'a) session" where
  "connect_begin s =
     (if se_tunnel s \<noteq> None then Inl AlreadyConnected
      else Inr (s\<lparr>se_state := ''connecting'', se_error := None, se_endpoint := None\<rparr>))"

definition connect_end :: "app_error + ('t \<times> string \<times> 'a) \<Rightarrow> ('t, 'a) session \<Rightarrow> ('t, 'a) session" where
  "connect_end dialed s =
     (case dialed of
        Inr (tunnel, label, adapter) \<Rightarrow>
          s\<lparr>se_state := ''connected'', se_endpoint := Some label, se_tunnel := Some tunnel, se_adapter := Some adapter\<rparr>
      | Inl e \<Rightarrow> s\<lparr>se_state := ''error'', se_error := Some e\<rparr>)"

definition disconnect :: "('t, 'a) session \<Rightarrow> ('t, 'a) session" where
  "disconnect s =
     s\<lparr>se_tunnel := None, se_adapter := None, se_state := ''disconnected'', se_endpoint := None, se_error := None\<rparr>"

record stats_out =
  so_rx_bytes :: u64
  so_tx_bytes :: u64
  so_last_handshake_secs_ago :: "nat option"
  so_connected_secs :: nat

record status_out =
  sto_state :: string
  sto_error :: "app_error option"
  sto_stats :: "stats_out option"
  sto_endpoint :: "string option"

text \<open>A tunnel is its engine and the time it was handed out; the clock is in milliseconds.\<close>

type_synonym ('t, 'l) tunnel = "('t, 'l) engine \<times> nat"

definition elapsed :: "nat \<Rightarrow> nat \<Rightarrow> nat option" where
  "elapsed now t = (if t \<le> now then Some (now - t) else None)"

definition status ::
  "('t, 'l, 'i) boringtun_lib \<Rightarrow> nat \<Rightarrow> (('t, 'l) tunnel, 'a) session \<Rightarrow> status_out" where
  "status B now s =
     \<lparr>sto_state = se_state s, sto_error = se_error s,
      sto_stats = map_option (\<lambda>(e, since).
        let st = stats B now since e in
        \<lparr>so_rx_bytes = st_rx_bytes st, so_tx_bytes = st_tx_bytes st,
         so_last_handshake_secs_ago = map_option (\<lambda>d. d div 1000) (Option.bind (st_last_handshake st) (elapsed now)),
         so_connected_secs = unwrap_or 0 (map_option (\<lambda>d. d div 1000) (elapsed now (st_connected_since st)))\<rparr>)
        (se_tunnel s),
      sto_endpoint = se_endpoint s\<rparr>"

text \<open>
  The handlers run concurrently and take the session's lock for each critical section: any number of dialings
  may be under way. \<open>ap_overlap\<close> records whether two ever were at once.
\<close>

record ('t, 'a) app =
  ap_session :: "('t, 'a) session"
  ap_dialing :: nat
  ap_overlap :: bool

definition initial_app :: "('t, 'a) app" where
  "initial_app = \<lparr>ap_session = initial_session, ap_dialing = 0, ap_overlap = False\<rparr>"

inductive app_step :: "('t, 'a) app \<Rightarrow> ('t, 'a) app \<Rightarrow> bool" where
  step_begin: "connect_begin (ap_session p) = Inr s \<Longrightarrow>
    app_step p (p\<lparr>ap_session := s, ap_dialing := ap_dialing p + 1, ap_overlap := ap_overlap p \<or> 0 < ap_dialing p\<rparr>)"
| step_end: "0 < ap_dialing p \<Longrightarrow>
    app_step p (p\<lparr>ap_session := connect_end dialed (ap_session p), ap_dialing := ap_dialing p - 1\<rparr>)"
| step_disconnect: "app_step p (p\<lparr>ap_session := disconnect (ap_session p)\<rparr>)"

inductive_cases app_stepE: "app_step p q"

section \<open>Dialling\<close>

text \<open>
  What dialling finds outside: the resolver, the path of \<open>wintun.dll\<close>, the created adapter, the sockets, the
  clock, and what the tasks do while the handshake is awaited.
\<close>

record ('t, 'l, 'i) dial_env =
  de_lookup_str :: "string \<Rightarrow> socket_addr list option"
  de_lookup_pair :: "string \<Rightarrow> nat \<Rightarrow> socket_addr list option"
  de_dll :: bool
  de_win :: "(string \<times> nat) option"
  de_bridge :: "socket_addr option"
  de_sock :: bool
  de_sent :: "bytes \<Rightarrow> bool"
  de_now :: nat
  de_early :: "engine_event list"
  de_t0 :: nat
  de_polls :: "(nat \<times> engine_event list) list"

definition show_socket :: "socket_addr \<Rightarrow> string" where
  "show_socket a =
     (case sa_ip a of
        V4 ip \<Rightarrow> show_ipv4 ip @ '':'' @ show_nat (unat (sa_port a))
      | V6 ip \<Rightarrow> ''['' @ show_ipv6 ip @ '']:'' @ show_nat (unat (sa_port a)))"

definition endpoint_label :: "client_endpoint \<Rightarrow> string" where
  "endpoint_label ep = (case ep of EpUdp a \<Rightarrow> show_socket a | EpUdpHost h \<Rightarrow> h | EpWs url _ \<Rightarrow> url)"

text \<open>
  The system after dialling and its result; \<open>None\<close> as the result is a dialling still waiting for the handshake
  (or a decapsulation that never ends). An adapter that is not handed out is dropped.
\<close>

definition dial ::
  "key_lib \<Rightarrow> ('t, 'l, 'i) boringtun_lib \<Rightarrow> 's system \<Rightarrow> ('net, 'x) net_ops_scheme
    \<Rightarrow> ('t, 'l, 'i) dial_env \<Rightarrow> string \<Rightarrow> 's \<Rightarrow> 's \<times> (app_error + (('t, 'l) engine \<times> string \<times> adapter)) option" where
  "dial K B R N E conf s =
     (case parse_conf K (net_text.truncate N) conf of
        Inl e \<Rightarrow> (s, Some (Inl (ErrConfig e)))
      | Inr cfg \<Rightarrow>
          (let label = endpoint_label (cc_endpoint cfg) in
           case resolve_endpoint (de_lookup_str E) (de_lookup_pair E) (cc_endpoint cfg) of
             Inl e \<Rightarrow> (s, Some (Inl (ErrResolve e)))
           | Inr server \<Rightarrow>
               if \<not> de_dll E then (s, Some (Inl ErrDll))
               else
                 (case win_open R N (de_win E) cfg (sa_ip server) s of
                    (s', None) \<Rightarrow> (s', Some (Inl ErrAdapter))
                  | (s', Some dev) \<Rightarrow>
                      (case connect_to K B (de_now E) cfg server (de_bridge E) (de_sock E) (de_early E) (de_sent E)
                          (de_t0 E) (de_polls E) of
                         Some (Connected e) \<Rightarrow> (s', Some (Inr (e, label, dev)))
                       | Some (Failed err _) \<Rightarrow> (drop_adapter R dev s', Some (Inl (ErrHandshake err)))
                       | Some (Rejected err _) \<Rightarrow> (drop_adapter R dev s', Some (Inl (ErrHandshake err)))
                       | _ \<Rightarrow> (s', None)))))"

section \<open>Profiles, settings and updates\<close>

record profile =
  pr_name :: string
  pr_conf :: string

text \<open>
  A file name for a profile. A character of a UTF-8 string is its first byte: continuation bytes are skipped.
\<close>

definition ascii_alphanumeric :: "char \<Rightarrow> bool" where
  "ascii_alphanumeric c \<longleftrightarrow>
     48 \<le> byte c \<and> byte c \<le> 57 \<or> 65 \<le> byte c \<and> byte c \<le> 90 \<or> 97 \<le> byte c \<and> byte c \<le> 122"

definition slug_char :: "char \<Rightarrow> char" where
  "slug_char c = (if ascii_alphanumeric c then hd (to_ascii_lowercase [c]) else CHR ''-'')"

definition trim_dashes :: "string \<Rightarrow> string" where
  "trim_dashes s = trim_end_matches (CHR ''-'') (dropWhile (\<lambda>c. c = CHR ''-'') s)"

definition slug :: "string \<Rightarrow> string" where
  "slug name =
     (let s = trim_dashes (map slug_char (filter (\<lambda>c. \<not> is_cont c) name))
      in if s = [] then ''profile'' else s)"

text \<open>The profiles directory: its files by name, in the order the system lists them.\<close>

type_synonym dir = "(string \<times> string) list"

definition write_file :: "string \<Rightarrow> string \<Rightarrow> dir \<Rightarrow> dir" where
  "write_file f body d = (if f \<in> fst ` set d then map (\<lambda>e. if fst e = f then (f, body) else e) d else d @ [(f, body)])"

definition remove_file :: "string \<Rightarrow> dir \<Rightarrow> dir" where
  "remove_file f d = filter (\<lambda>e. fst e \<noteq> f) d"

text \<open>\<open>serde_json\<close> on profiles, and \<open>str::to_lowercase\<close> (all of Unicode's case mapping).\<close>

record profile_lib =
  pl_write :: "profile \<Rightarrow> string"
  pl_read :: "string \<Rightarrow> profile option"
  pl_lower :: "string \<Rightarrow> string"

definition profile_file :: "string \<Rightarrow> string" where
  "profile_file name = slug name @ ''.json''"

text \<open>\<open>ok\<close> is whether the file operation went through.\<close>

definition save_profile :: "profile_lib \<Rightarrow> bool \<Rightarrow> string \<Rightarrow> string \<Rightarrow> dir \<Rightarrow> app_error + dir" where
  "save_profile P ok raw conf d =
     (let name = trim raw in
      if name = [] then Inl NameMissing
      else if trim conf = [] then Inl ConfMissing
      else if \<not> ok then Inl FileError
      else Inr (write_file (profile_file name) (pl_write P \<lparr>pr_name = name, pr_conf = conf\<rparr>) d))"

definition delete_profile :: "bool \<Rightarrow> string \<Rightarrow> dir \<Rightarrow> app_error + dir" where
  "delete_profile ok name d =
     (let f = profile_file name in
      if f \<notin> fst ` set d then Inr d
      else if \<not> ok then Inl FileError
      else Inr (remove_file f d))"

text \<open>\<open>Path::extension\<close> of a file name.\<close>

definition extension :: "string \<Rightarrow> string option" where
  "extension f =
     (case rsplit_once (CHR ''.'') f of Some (a, b) \<Rightarrow> if a = [] \<or> f = ''..'' then None else Some b | None \<Rightarrow> None)"

definition list_profiles :: "profile_lib \<Rightarrow> dir \<Rightarrow> profile list" where
  "list_profiles P d =
     sort_key (\<lambda>p. pl_lower P (pr_name p))
       (List.map_filter (\<lambda>e. if extension (fst e) = Some ''json'' then pl_read P (snd e) else None) d)"

record settings_file =
  sf_auto_update :: bool
  sf_theme :: string

definition default_settings :: settings_file where
  "default_settings = \<lparr>sf_auto_update = True, sf_theme = ''dark''\<rparr>"

text \<open>The text of the file when it could be read, and \<open>serde_json\<close> on it.\<close>

definition load_settings :: "(string \<Rightarrow> settings_file option) \<Rightarrow> string option \<Rightarrow> settings_file" where
  "load_settings read text = unwrap_or default_settings (Option.bind text read)"

datatype theme = Light | Dark

definition apply_theme :: "string \<Rightarrow> theme \<times> (nat \<times> nat \<times> nat \<times> nat)" where
  "apply_theme name =
     (if name = ''light'' then (Light, (236, 239, 237, 255)) else (Dark, (17, 28, 33, 255)))"

definition set_settings ::
  "(settings_file \<Rightarrow> string) \<Rightarrow> bool \<Rightarrow> settings_file
    \<Rightarrow> app_error + (string \<times> (theme \<times> (nat \<times> nat \<times> nat \<times> nat)))" where
  "set_settings show ok s = (if ok then Inr (show s, apply_theme (sf_theme s)) else Inl FileError)"

record update_info =
  ui_available :: bool
  ui_version :: string
  ui_notes :: string
  ui_current :: string

text \<open>What the updater answered: an error of its own, or the newer version with its notes.\<close>

type_synonym update_answer = "app_error + (string \<times> string option) option"

definition check_update :: "string \<Rightarrow> update_answer \<Rightarrow> app_error + update_info" where
  "check_update current answer =
     and_then answer (\<lambda>found.
       Inr (case found of
           Some (version, notes) \<Rightarrow>
             \<lparr>ui_available = True, ui_version = version, ui_notes = unwrap_or [] notes, ui_current = current\<rparr>
         | None \<Rightarrow> \<lparr>ui_available = False, ui_version = current, ui_notes = [], ui_current = current\<rparr>))"

text \<open>The bytes downloaded so far after each chunk, with the total the server announced.\<close>

fun progress :: "nat \<Rightarrow> (nat \<times> nat option) list \<Rightarrow> (nat \<times> nat option) list" where
  "progress downloaded [] = []"
| "progress downloaded ((chunk, announced) # cs) = (downloaded + chunk, announced) # progress (downloaded + chunk) cs"

text \<open>The session, the progress events and the result; on success the application restarts.\<close>

definition install_update ::
  "update_answer \<Rightarrow> (nat \<times> nat option) list \<Rightarrow> bool \<Rightarrow> ('t, 'a) session
    \<Rightarrow> ('t, 'a) session \<times> (nat \<times> nat option) list \<times> (app_error + unit)" where
  "install_update answer chunks installed s =
     (case and_then answer (ok_or AlreadyUpToDate) of
        Inl e \<Rightarrow> (s, [], Inl e)
      | Inr _ \<Rightarrow>
          (let s' = (if se_tunnel s \<noteq> None then disconnect s else s)
           in (s', progress 0 chunks, if installed then Inr () else Inl UpdateFailed)))"

section \<open>The log ring\<close>

lemma make_room_drop: "make_room buf = drop (Suc (length buf) - LOG_KEEP) buf"
proof (induction buf rule: make_room.induct)
  case (1 buf)
  show ?case
  proof (cases "LOG_KEEP \<le> length buf")
    case True
    then have "Suc (length buf) - LOG_KEEP = Suc (Suc (length (tl buf)) - LOG_KEEP)"
      by (cases buf) (auto simp: LOG_KEEP_def)
    moreover have "make_room buf = make_room (tl buf)" using True by (simp add: make_room.simps [of buf])
    ultimately show ?thesis using 1 True by (simp add: drop_Suc)
  qed (simp add: make_room.simps [of buf])
qed

lemma push_log_last:
  assumes "length buf = n"
  shows "push_log line (drop (n - LOG_KEEP) buf) = drop (Suc n - LOG_KEEP) (buf @ [line])"
proof (cases "LOG_KEEP \<le> n")
  case True
  then have "Suc (length (drop (n - LOG_KEEP) buf)) - LOG_KEEP = 1" "Suc n - LOG_KEEP = 1 + (n - LOG_KEEP)"
    "1 + (n - LOG_KEEP) \<le> length buf"
    using assms by (simp_all add: LOG_KEEP_def)
  then show ?thesis by (simp add: push_log_def make_room_drop)
qed (use assms in \<open>simp add: push_log_def make_room_drop\<close>)

lemma log_is_last_lines: "fold push_log ls [] = drop (length ls - LOG_KEEP) ls"
  by (induction ls rule: rev_induct) (simp_all add: push_log_last del: drop_append)

section \<open>Properties of the session\<close>

text \<open>What the fields say of each other, whatever the interleaving, and what they say when dialings never overlap.\<close>

definition fields_agree :: "('t, 'a) session \<Rightarrow> bool" where
  "fields_agree s \<longleftrightarrow>
     Option.is_none (se_adapter s) = Option.is_none (se_tunnel s) \<and> Option.is_none (se_endpoint s) = Option.is_none (se_tunnel s) \<and>
     (if se_state s = ''connected'' then \<not> Option.is_none (se_tunnel s)
      else if se_state s = ''error'' then \<not> Option.is_none (se_error s)
      else (se_state s = ''connecting'' \<or> se_state s = ''disconnected'') \<and> Option.is_none (se_tunnel s) \<and> Option.is_none (se_error s))"

definition serial_agree :: "('t, 'a) app \<Rightarrow> bool" where
  "serial_agree p \<longleftrightarrow>
     ap_dialing p = 0 \<and> (\<not> Option.is_none (se_tunnel (ap_session p)) \<longrightarrow>
       se_state (ap_session p) = ''connected'' \<and> Option.is_none (se_error (ap_session p))) \<or>
     ap_dialing p = 1 \<and> Option.is_none (se_tunnel (ap_session p)) \<and> Option.is_none (se_error (ap_session p))"

definition session_inv :: "('t, 'a) app \<Rightarrow> bool" where
  "session_inv p \<longleftrightarrow> fields_agree (ap_session p) \<and> (ap_overlap p \<or> serial_agree p)"

lemma agree_begin: "connect_begin s = Inr s' \<Longrightarrow> fields_agree s \<Longrightarrow> fields_agree s'"
  by (auto simp: fields_agree_def connect_begin_def split: if_splits)

lemma agree_end: "fields_agree s \<Longrightarrow> fields_agree (connect_end dialed s)"
  by (cases dialed) (auto simp: fields_agree_def connect_end_def split: if_splits)

lemma agree_disconnect: "fields_agree (disconnect s)"
  by (simp add: fields_agree_def disconnect_def)

interpretation session: transition_system "\<lambda>p. p = initial_app" app_step session_inv
proof
  fix p q assume inv: "session_inv p" and step: "app_step p q"
  from step show "session_inv q"
  proof cases
    case (step_begin s)
    with inv show ?thesis
      by (auto simp: session_inv_def agree_begin serial_agree_def connect_begin_def split: if_splits)
  next
    case (step_end dialed)
    have "fields_agree (connect_end dialed (ap_session p))"
      using inv by (simp add: session_inv_def agree_end)
    moreover have "ap_overlap p \<or> serial_agree q"
      using inv step_end by (cases dialed) (auto simp: session_inv_def serial_agree_def connect_end_def)
    ultimately show ?thesis by (simp add: session_inv_def step_end(1))
  next
    case step_disconnect
    have "ap_overlap p \<or> serial_agree q"
      using inv step_disconnect by (auto simp: session_inv_def serial_agree_def disconnect_def)
    then show ?thesis by (simp add: session_inv_def agree_disconnect step_disconnect)
  qed
qed (simp add: session_inv_def initial_app_def initial_session_def fields_agree_def serial_agree_def)

text \<open>
  C34: what the window shows is what there is. Under every interleaving of the handlers: there is an adapter
  exactly when there is a tunnel, and an endpoint exactly then; \<open>connected\<close> is shown only with a tunnel,
  \<open>connecting\<close> and \<open>disconnected\<close> only without one and without an error, \<open>error\<close> only with one. As long as no two
  dialings overlapped, a tunnel is always shown as \<open>connected\<close>, without an error.
\<close>

theorem session_is_consistent:
  assumes "app_step\<^sup>*\<^sup>* initial_app p" "s = ap_session p"
  shows "(se_adapter s \<noteq> None \<longleftrightarrow> se_tunnel s \<noteq> None) \<and> (se_endpoint s \<noteq> None \<longleftrightarrow> se_tunnel s \<noteq> None) \<and>
    (se_state s = ''connected'' \<longrightarrow> se_tunnel s \<noteq> None) \<and>
    (se_state s \<in> {''connecting'', ''disconnected''} \<longrightarrow> se_tunnel s = None \<and> se_error s = None) \<and>
    (se_state s = ''error'' \<longrightarrow> se_error s \<noteq> None) \<and>
    se_state s \<in> {''connecting'', ''disconnected'', ''connected'', ''error''} \<and>
    (\<not> ap_overlap p \<longrightarrow> ap_dialing p \<le> 1 \<and> (se_tunnel s \<noteq> None \<longrightarrow> se_state s = ''connected'' \<and> se_error s = None))"
proof -
  have "session_inv p" using session.inv_reachable [OF refl assms(1)] .
  then have f: "fields_agree s" and serial: "ap_overlap p \<or> serial_agree p"
    by (simp_all add: session_inv_def assms(2))
  have "\<not> ap_overlap p \<longrightarrow> ap_dialing p \<le> 1 \<and> (se_tunnel s \<noteq> None \<longrightarrow> se_state s = ''connected'' \<and> se_error s = None)"
    using serial by (auto simp: serial_agree_def Option.is_none_def assms(2))
  moreover have "(se_adapter s \<noteq> None \<longleftrightarrow> se_tunnel s \<noteq> None) \<and> (se_endpoint s \<noteq> None \<longleftrightarrow> se_tunnel s \<noteq> None)"
    using f unfolding fields_agree_def Option.is_none_def by (simp only: simp_thms)
  moreover have "(se_state s = ''connected'' \<longrightarrow> se_tunnel s \<noteq> None) \<and>
    (se_state s \<in> {''connecting'', ''disconnected''} \<longrightarrow> se_tunnel s = None \<and> se_error s = None) \<and>
    (se_state s = ''error'' \<longrightarrow> se_error s \<noteq> None) \<and>
    se_state s \<in> {''connecting'', ''disconnected'', ''connected'', ''error''}"
    using f by (auto simp: fields_agree_def Option.is_none_def split: if_splits)
  ultimately show ?thesis by blast
qed

text \<open>Two overlapping dialings can leave a live tunnel shown as an error.\<close>

lemma overlapping_connects:
  fixes t :: 't and a :: 'a
  shows "\<exists>p :: ('t, 'a) app. app_step\<^sup>*\<^sup>* initial_app p \<and> se_state (ap_session p) = ''error'' \<and>
    se_tunnel (ap_session p) = Some t"
proof -
  let ?s1 = "(initial_session :: ('t, 'a) session)\<lparr>se_state := ''connecting'', se_error := None, se_endpoint := None\<rparr>"
  let ?p1 = "\<lparr>ap_session = ?s1, ap_dialing = 1, ap_overlap = False\<rparr>"
  let ?p2 = "\<lparr>ap_session = ?s1, ap_dialing = Suc 1, ap_overlap = True\<rparr>"
  let ?p3 = "?p2\<lparr>ap_session := connect_end (Inr (t, [], a)) ?s1, ap_dialing := 1\<rparr>"
  let ?p4 = "?p3\<lparr>ap_session := connect_end (Inl ErrAdapter) (ap_session ?p3), ap_dialing := 0\<rparr>"
  have "app_step (initial_app :: ('t, 'a) app) ?p1"
    using step_begin [of "initial_app :: ('t, 'a) app" ?s1]
    by (simp add: initial_app_def initial_session_def connect_begin_def)
  moreover have "app_step ?p1 ?p2"
    using step_begin [of ?p1 ?s1] by (simp add: initial_session_def connect_begin_def)
  moreover have "app_step ?p2 ?p3" using step_end [of ?p2 "Inr (t, [], a)"] by simp
  moreover have "app_step ?p3 ?p4" using step_end [of ?p3 "Inl ErrAdapter"] by simp
  ultimately have "app_step\<^sup>*\<^sup>* initial_app ?p4" by (meson converse_rtranclp_into_rtranclp rtranclp.rtrancl_refl)
  then show ?thesis by (intro exI [of _ ?p4]) (simp add: connect_end_def)
qed

lemma serial_path:
  fixes t :: 't and a :: 'a
  shows "\<exists>p :: ('t, 'a) app. app_step\<^sup>*\<^sup>* initial_app p \<and> \<not> ap_overlap p \<and> se_tunnel (ap_session p) = Some t"
proof -
  let ?s1 = "(initial_session :: ('t, 'a) session)\<lparr>se_state := ''connecting'', se_error := None, se_endpoint := None\<rparr>"
  let ?p1 = "\<lparr>ap_session = ?s1, ap_dialing = 1, ap_overlap = False\<rparr>"
  let ?p2 = "?p1\<lparr>ap_session := connect_end (Inr (t, [], a)) ?s1, ap_dialing := 0\<rparr>"
  have "app_step (initial_app :: ('t, 'a) app) ?p1"
    using step_begin [of "initial_app :: ('t, 'a) app" ?s1]
    by (simp add: initial_app_def initial_session_def connect_begin_def)
  moreover have "app_step ?p1 ?p2" using step_end [of ?p1 "Inr (t, [], a)"] by simp
  ultimately have "app_step\<^sup>*\<^sup>* initial_app ?p2" by (meson converse_rtranclp_into_rtranclp rtranclp.rtrancl_refl)
  then show ?thesis by (intro exI [of _ ?p2]) (simp add: connect_end_def)
qed

theorem session_is_consistent_witness:
  "\<exists>p :: (nat, nat) app. app_step\<^sup>*\<^sup>* initial_app p \<and> se_tunnel (ap_session p) = Some 1 \<and>
     se_state (ap_session p) = ''connected'' \<and> se_adapter (ap_session p) \<noteq> None"
proof -
  obtain p :: "(nat, nat) app" where p: "app_step\<^sup>*\<^sup>* initial_app p" "\<not> ap_overlap p" "se_tunnel (ap_session p) = Some 1"
    using serial_path [where t = "1 :: nat" and 'a = nat] by (elim exE conjE)
  note all = session_is_consistent [OF p(1) refl]
  have "se_tunnel (ap_session p) \<noteq> None" using p(3) by simp
  with p(2) all [THEN conjunct1] all [THEN conjunct2, THEN conjunct2, THEN conjunct2, THEN conjunct2, THEN conjunct2, THEN conjunct2]
  have "se_state (ap_session p) = ''connected''" "se_adapter (ap_session p) \<noteq> None" by simp_all
  with p show ?thesis by blast
qed

section \<open>The session as an automaton\<close>

text \<open>
  The abstract specification: one connection at a time. \<open>Abandoned\<close> is a dialling the user has disconnected
  from: it is not stopped, so it may still end in a tunnel.
\<close>

datatype ('t, 'a) phase = Idle | Dialling | Abandoned | Up 't string 'a | Broken app_error

text \<open>What the handlers do: start to dial, refuse to, take note of a result, hang up.\<close>

datatype ('t, 'a) act = Dial | Refuse | Dialled "app_error + ('t \<times> string \<times> 'a)" | HangUp

definition up_or_broken :: "app_error + ('t \<times> string \<times> 'a) \<Rightarrow> ('t, 'a) phase" where
  "up_or_broken dialed = (case dialed of Inr (tunnel, label, adapter) \<Rightarrow> Up tunnel label adapter | Inl e \<Rightarrow> Broken e)"

fun phase_next :: "('t, 'a) act \<Rightarrow> ('t, 'a) phase \<Rightarrow> ('t, 'a) phase option" where
  "phase_next Dial Idle = Some Dialling"
| "phase_next Dial (Broken e) = Some Dialling"
| "phase_next Refuse (Up tunnel label adapter) = Some (Up tunnel label adapter)"
| "phase_next (Dialled dialed) Dialling = Some (up_or_broken dialed)"
| "phase_next (Dialled dialed) Abandoned = Some (up_or_broken dialed)"
| "phase_next HangUp Dialling = Some Abandoned"
| "phase_next HangUp Abandoned = Some Abandoned"
| "phase_next HangUp _ = Some Idle"
| "phase_next _ _ = None"

definition phase_act :: "('t, 'a) phase \<Rightarrow> ('t, 'a) act \<Rightarrow> ('t, 'a) phase \<Rightarrow> bool" where
  "phase_act ph l ph' \<longleftrightarrow> phase_next l ph = Some ph'"

text \<open>The session and the number of dialings under way, in each phase.\<close>

fun session_in :: "('t, 'a) phase \<Rightarrow> ('t, 'a) session" where
  "session_in Dialling = initial_session\<lparr>se_state := ''connecting''\<rparr>"
| "session_in (Up tunnel label adapter) =
     \<lparr>se_state = ''connected'', se_error = None, se_endpoint = Some label, se_tunnel = Some tunnel, se_adapter = Some adapter\<rparr>"
| "session_in (Broken e) = initial_session\<lparr>se_state := ''error'', se_error := Some e\<rparr>"
| "session_in _ = initial_session"

fun dialings :: "('t, 'a) phase \<Rightarrow> nat" where
  "dialings Dialling = 1"
| "dialings Abandoned = 1"
| "dialings _ = 0"

definition in_phase :: "('t, 'a) app \<Rightarrow> ('t, 'a) phase \<Rightarrow> bool" where
  "in_phase p ph \<longleftrightarrow> ap_session p = session_in ph \<and> ap_dialing p = dialings ph"

text \<open>The handlers' steps with their labels.\<close>

inductive app_act :: "('t, 'a) app \<Rightarrow> ('t, 'a) act \<Rightarrow> ('t, 'a) app \<Rightarrow> bool" where
  act_dial: "connect_begin (ap_session p) = Inr s \<Longrightarrow>
    app_act p Dial (p\<lparr>ap_session := s, ap_dialing := ap_dialing p + 1, ap_overlap := ap_overlap p \<or> 0 < ap_dialing p\<rparr>)"
| act_refuse: "connect_begin (ap_session p) = Inl e \<Longrightarrow> app_act p Refuse p"
| act_dialled: "0 < ap_dialing p \<Longrightarrow>
    app_act p (Dialled dialed) (p\<lparr>ap_session := connect_end dialed (ap_session p), ap_dialing := ap_dialing p - 1\<rparr>)"
| act_hang_up: "app_act p HangUp (p\<lparr>ap_session := disconnect (ap_session p)\<rparr>)"

lemma app_act_step: "app_step p q \<longleftrightarrow> (\<exists>l. l \<noteq> Refuse \<and> app_act p l q)"
  by (auto elim!: app_step.cases app_act.cases intro: app_step.intros app_act.intros)

text \<open>Steps that start no dialling while one is under way.\<close>

definition serial_act :: "('t, 'a) app \<Rightarrow> ('t, 'a) act \<Rightarrow> ('t, 'a) app \<Rightarrow> bool" where
  "serial_act p l q \<longleftrightarrow> app_act p l q \<and> \<not> (l = Dial \<and> 0 < ap_dialing p)"

lemma serial_act_phase:
  assumes "in_phase p ph" "serial_act p l q"
  shows "\<exists>ph'. phase_act ph l ph' \<and> in_phase q ph'"
proof -
  from assms(2) have act: "app_act p l q" "\<not> (l = Dial \<and> 0 < ap_dialing p)" by (simp_all add: serial_act_def)
  from act(1) show ?thesis
  proof cases
    case (act_dial s)
    with act(2) assms(1) have "ph = Idle \<or> (\<exists>e. ph = Broken e)"
      by (cases ph) (auto simp: in_phase_def connect_begin_def)
    with act_dial assms(1) show ?thesis
      by (intro exI [of _ Dialling]) (auto simp: in_phase_def phase_act_def connect_begin_def initial_session_def)
  next
    case (act_refuse e)
    with assms(1) show ?thesis
      by (cases ph) (auto simp: in_phase_def phase_act_def connect_begin_def initial_session_def)
  next
    case (act_dialled dialed)
    with assms(1) have "ph \<in> {Dialling, Abandoned}" by (cases ph) (simp_all add: in_phase_def)
    with act_dialled assms(1) show ?thesis
      by (intro exI [of _ "up_or_broken dialed"])
        (auto simp: in_phase_def phase_act_def up_or_broken_def connect_end_def initial_session_def split: sum.split)
  next
    case act_hang_up
    with assms(1) show ?thesis
      by (cases ph) (auto simp: in_phase_def phase_act_def disconnect_def initial_session_def)
  qed
qed

interpretation session_automaton: simulation serial_act phase_act in_phase
  by unfold_locales (rule serial_act_phase)

text \<open>A run of the handlers is serial up to the first dialling that starts while another is under way.\<close>

lemma serial_or_overlap:
  "run_of app_act p ls q \<Longrightarrow> run_of serial_act p ls q \<or>
     (\<exists>pre post r. ls = pre @ Dial # post \<and> run_of serial_act p pre r \<and> 0 < ap_dialing r)"
proof (induction ls arbitrary: p)
  case (Cons l ls)
  then obtain t where t: "app_act p l t" "run_of app_act t ls q" by auto
  show ?case
  proof (cases "l = Dial \<and> 0 < ap_dialing p")
    case True
    then show ?thesis by (intro disjI2 exI [of _ "[]"] exI [of _ ls] exI [of _ p]) simp
  next
    case False
    with t(1) have first: "serial_act p l t" by (simp add: serial_act_def)
    from Cons.IH [OF t(2)] show ?thesis
    proof
      assume "\<exists>pre post r. ls = pre @ Dial # post \<and> run_of serial_act t pre r \<and> 0 < ap_dialing r"
      then obtain pre post r where "ls = pre @ Dial # post" "run_of serial_act t pre r" "0 < ap_dialing r" by blast
      with first show ?thesis by (intro disjI2 exI [of _ "l # pre"] exI [of _ post] exI [of _ r]) auto
    qed (use first in auto)
  qed
qed simp

text \<open>
  C35: the session refines the automaton. Any sequence of what the handlers do is, step by step, a run of the
  five-phase automaton from \<open>Idle\<close>, and the session is then to the field the one of the phase it ends in: what was
  dialled last is the tunnel, endpoint and adapter handed out, or the error shown. The only way out is a connect that
  starts while an earlier dialling, abandoned or not, is still under way.
\<close>

theorem session_refines_automaton:
  assumes "run_of app_act initial_app acts p"
  shows "(\<exists>ph. run_of phase_act Idle acts ph \<and> ap_session p = session_in ph \<and> ap_dialing p = dialings ph) \<or>
    (\<exists>pre post ph. acts = pre @ Dial # post \<and> run_of phase_act Idle pre ph \<and> (ph = Dialling \<or> ph = Abandoned))"
  using serial_or_overlap [OF assms]
proof
  have start: "in_phase initial_app Idle" by (simp add: in_phase_def initial_app_def)
  {
    assume "run_of serial_act initial_app acts p"
    from session_automaton.run_simulated [OF this start] show ?thesis by (auto simp: in_phase_def)
  next
    assume "\<exists>pre post r. acts = pre @ Dial # post \<and> run_of serial_act initial_app pre r \<and> 0 < ap_dialing r"
    then obtain pre post r where acts: "acts = pre @ Dial # post" "run_of serial_act initial_app pre r" "0 < ap_dialing r"
      by blast
    from session_automaton.run_simulated [OF acts(2) start] obtain ph where "run_of phase_act Idle pre ph" "in_phase r ph"
      by blast
    moreover from this(2) acts(3) have "ph = Dialling \<or> ph = Abandoned" by (cases ph) (simp_all add: in_phase_def)
    ultimately show ?thesis using acts(1) by blast
  }
qed

text \<open>A failed dialling, then one that is abandoned and yet ends in a tunnel.\<close>

abbreviation sample_acts :: "(nat, nat) act list" where
  "sample_acts \<equiv> [Dial, Dialled (Inl ErrAdapter), Dial, HangUp, Dialled (Inr (1, ''vpn'', 2)), Refuse]"

lemma sample_acts_run:
  obtains p where "run_of app_act (initial_app :: (nat, nat) app) sample_acts p"
    "se_tunnel (ap_session p) = Some 1" "se_state (ap_session p) = ''connected''"
proof -
  have dial: "app_act p Dial (p\<lparr>ap_session := (ap_session p)\<lparr>se_state := ''connecting'', se_error := None, se_endpoint := None\<rparr>,
      ap_dialing := ap_dialing p + 1, ap_overlap := ap_overlap p \<or> 0 < ap_dialing p\<rparr>)"
    if "se_tunnel (ap_session p) = None" for p :: "(nat, nat) app"
    using that by (intro act_dial) (simp add: connect_begin_def)
  have refuse: "app_act p Refuse p" if "se_tunnel (ap_session p) \<noteq> None" for p :: "(nat, nat) app"
    using that by (intro act_refuse [of _ AlreadyConnected]) (simp add: connect_begin_def)
  show thesis
    by (rule that, (rule run_cons, rule dial act_dialled act_hang_up refuse,
          (simp add: initial_app_def initial_session_def connect_end_def disconnect_def; fail)?)+, rule run_nil)
      (simp_all add: initial_app_def initial_session_def connect_end_def disconnect_def)
qed

theorem session_refines_automaton_witness:
  "\<exists>p. run_of app_act (initial_app :: (nat, nat) app) sample_acts p \<and> run_of phase_act Idle sample_acts (Up 1 ''vpn'' 2) \<and>
     ap_session p = session_in (Up 1 ''vpn'' 2)"
proof -
  obtain p where p: "run_of app_act (initial_app :: (nat, nat) app) sample_acts p" by (rule sample_acts_run)
  have "\<not> (\<exists>pre post ph. sample_acts = pre @ Dial # post \<and> run_of phase_act Idle pre ph \<and> (ph = Dialling \<or> ph = Abandoned))"
    by (auto simp: Cons_eq_append_conv phase_act_def up_or_broken_def)
  with session_refines_automaton [OF p] obtain ph where "run_of phase_act Idle sample_acts ph" "ap_session p = session_in ph"
    by blast
  moreover from this(1) have "ph = Up 1 ''vpn'' 2" by (auto simp: phase_act_def up_or_broken_def)
  ultimately show ?thesis using p by blast
qed

section \<open>Properties of dialling\<close>

lemma await_connected:
  "await_handshake B deadline polls e = Some (Connected c) \<Longrightarrow> time_since_last_handshake B (en_wg c) 0 \<noteq> None"
proof (induction polls arbitrary: e)
  case (Cons poll polls)
  then show ?case by (cases poll) (auto split: if_splits option.splits)
qed simp

lemma connect_connected:
  assumes "connect_to K B now cfg remote bridge sock_ok early sent_ok t0 polls = Some (Connected c)"
  shows "time_since_last_handshake B (en_wg c) 0 \<noteq> None"
proof (cases "engine_start K B now cfg remote bridge sock_ok")
  case (Inr e0)
  obtain e1 fx where run: "engine_run B early e0 = Some (e1, fx)"
    using assms Inr by (cases "engine_run B early e0") (auto simp: connect_to_def)
  obtain wg' init where init: "encapsulate B (en_wg e1) 0 [] [] = (wg', init)" by fastforce
  obtain ok e2 where sent: "send_init sent_ok init (e1\<lparr>en_wg := wg'\<rparr>) = (ok, e2)" by fastforce
  have "connect_to K B now cfg remote bridge sock_ok early sent_ok t0 polls =
      (if \<not> ok then Some (Failed ConnIo (e2\<lparr>en_handle := False\<rparr>))
       else await_handshake B (t0 + HANDSHAKE_TIMEOUT) polls e2)"
    by (simp only: connect_to_def Inr run init sent sum.case option.case prod.case Let_def)
  with assms show ?thesis by (auto split: if_splits dest: await_connected)
qed (use assms in \<open>auto simp: connect_to_def\<close>)

text \<open>How a dialling ends that has opened the adapter.\<close>

lemma dial_opened:
  assumes "parse_conf K (net_text.truncate N) conf = Inr cfg"
    and "resolve_endpoint (de_lookup_str E) (de_lookup_pair E) (cc_endpoint cfg) = Inr server" "de_dll E"
    and "win_open R N (de_win E) cfg (sa_ip server) s = (t, Some dev)" "dial K B R N E conf s = (s', Some r)"
  obtains
    (up) e where "connect_to K B (de_now E) cfg server (de_bridge E) (de_sock E) (de_early E) (de_sent E) (de_t0 E) (de_polls E) =
        Some (Connected e)" "r = Inr (e, endpoint_label (cc_endpoint cfg), dev)" "s' = t"
  | (down) err where "r = Inl (ErrHandshake err)" "s' = drop_adapter R dev t"
proof -
  let ?c = "connect_to K B (de_now E) cfg server (de_bridge E) (de_sock E) (de_early E) (de_sent E) (de_t0 E) (de_polls E)"
  have "dial K B R N E conf s =
      (case ?c of
         Some (Connected e) \<Rightarrow> (t, Some (Inr (e, endpoint_label (cc_endpoint cfg), dev)))
       | Some (Failed err _) \<Rightarrow> (drop_adapter R dev t, Some (Inl (ErrHandshake err)))
       | Some (Rejected err _) \<Rightarrow> (drop_adapter R dev t, Some (Inl (ErrHandshake err)))
       | _ \<Rightarrow> (t, None))"
    by (simp add: dial_def assms(1-4))
  with assms(5) show thesis by (auto split: option.splits connect_outcome.splits intro: up down)
qed

text \<open>
  The commands of a dialling that has been taken back: those of an opening that made changes and local settings only,
  then exactly what \<open>closing\<close> asks for.
\<close>

definition taken_back :: "bool \<Rightarrow> (string \<times> nat) option \<Rightarrow> trace \<Rightarrow> bool" where
  "taken_back ok win log \<longleftrightarrow>
     (case win of
        None \<Rightarrow> log = []
      | Some (name, index) \<Rightarrow> \<exists>cs answers. orderly name ok cs \<and> log = cs @ answers \<and> map fst answers = closing name cs)"

text \<open>
  C31: dialling is all or nothing, whatever the commands answer. One that fails at the configuration, the lookup or
  the library has run no command; one that fails at the adapter or at the handshake has run the undo of each change
  that had succeeded and of no other, the latest first, and the reset of the DNS servers where it was due. One that
  succeeds hands out a tunnel whose handshake is complete and an adapter whose drop will do exactly that.
\<close>

theorem dial_all_or_nothing:
  assumes "dial K B (traced R) N E conf (s, []) = ((s', log), Some r)"
  shows "case r of
      Inl (ErrHandshake e) \<Rightarrow> taken_back True (de_win E) log
    | Inl ErrAdapter \<Rightarrow> taken_back False (de_win E) log
    | Inl e \<Rightarrow> log = []
    | Inr (e, label, dev) \<Rightarrow> time_since_last_handshake B (en_wg e) 0 \<noteq> None \<and>
        (\<exists>name index. de_win E = Some (name, index) \<and> orderly name True log \<and>
          (\<forall>t cs. \<exists>answers. snd (drop_adapter (traced R) dev (t, cs)) = cs @ answers \<and> map fst answers = closing name log))"
proof (cases "parse_conf K (net_text.truncate N) conf")
  case (Inr cfg)
  show ?thesis
  proof (cases "resolve_endpoint (de_lookup_str E) (de_lookup_pair E) (cc_endpoint cfg)")
    case resolved: (Inr server)
    obtain s1 cs opened where win: "win_open (traced R) N (de_win E) cfg (sa_ip server) (s, []) = ((s1, cs), opened)"
      by (metis surj_pair)
    note undone = win_open_traced [OF win]
    show ?thesis
    proof (cases "de_dll E")
      case True
      show ?thesis
      proof (cases opened)
        case None
        with undone assms Inr resolved win True show ?thesis
          by (auto simp: dial_def taken_back_def split: option.splits) blast
      next
        case (Some dev)
        then obtain name index where name: "de_win E = Some (name, index)" "orderly name True cs"
          "\<And>t ds. \<exists>answers. snd (drop_adapter (traced R) dev (t, ds)) = ds @ answers \<and> map fst answers = closing name cs"
          using undone by (auto split: option.splits)
        show ?thesis
        proof (cases rule: dial_opened [OF Inr resolved True win [unfolded Some] assms])
          case (1 e)
          with name connect_connected [OF 1(1)] show ?thesis by simp
        next
          case (2 err)
          from name(3) [of s1 cs] have "taken_back True (de_win E) log"
            unfolding 2(2) [symmetric] snd_conv using name(1,2) by (auto simp: taken_back_def)
          with 2(1) show ?thesis by simp
        qed
      qed
    qed (use assms Inr resolved in \<open>auto simp: dial_def\<close>)
  qed (use assms Inr in \<open>auto simp: dial_def\<close>)
qed (use assms in \<open>auto simp: dial_def\<close>)

text \<open>\<open>host_net\<close> with the four halves of the address spaces given by a table.\<close>

definition halves_net :: "(ip_addr \<times> nat) net_text" where
  "halves_net = host_net\<lparr>nt_parse := (\<lambda>s.
     if s = ''0.0.0.0/1'' then Some (V4 0, 1) else if s = ''128.0.0.0/1'' then Some (V4 0x80000000, 1)
     else if s = ''::/1'' then Some (V6 0, 1) else if s = ''8000::/1'' then Some (V6 (push_bit 127 1), 1)
     else nt_parse host_net s)\<rparr>"

definition dial_ops :: "(ip_addr \<times> nat) net_ops" where
  "dial_ops = net_text.extend halves_net \<lparr>no_addr = fst, no_netmask = (\<lambda>_. V4 0), no_network = fst, no_prefix_len = snd,
     no_show = (\<lambda>n. show_ip (fst n))\<rparr>"

text \<open>The adapter opens, but the socket of the tunnel cannot be bound.\<close>

definition dial_place :: "(nat, nat, bytes) dial_env" where
  "dial_place = \<lparr>de_lookup_str = (\<lambda>_. None), de_lookup_pair = (\<lambda>_ p. Some [sock (V4 9) (of_nat p)]), de_dll = True,
     de_win = Some (NAME, 7), de_bridge = Some (sock (V4 0x7F000001) 40000), de_sock = False, de_sent = (\<lambda>_. True),
     de_now = 0, de_early = [], de_t0 = 0, de_polls = []\<rparr>"

abbreviation sample_text :: string where
  "sample_text \<equiv> render_section ''Interface'' sample_iface @ render_section ''Peer'' sample_peer"

lemma willing_traced:
  "Halt \<notin> set is \<Longrightarrow> \<exists>dev log'. run_instrs (traced willing) is (dev0, ((), log)) = ((dev, ((), log')), True) \<and>
     set log \<subseteq> set log' \<and> (\<forall>c. Run c \<in> set is \<longrightarrow> (c, True) \<in> set log')"
proof (induction "is" arbitrary: dev0 log)
  case (Cons i "is")
  have step: "traced willing c ((), log) = (((), log @ [(c, True)]), Some sample_table)" for c log
    by (simp add: traced_def willing_def)
  show ?case
  proof (cases i)
    case (Run c)
    from Cons.IH [of dev0 "log @ [(c, True)]"] Cons.prems show ?thesis by (fastforce simp: Run step)
  next
    case (Try c)
    from Cons.IH [of dev0 "log @ [(c, True)]"] Cons.prems show ?thesis by (fastforce simp: Try step)
  next
    case (Undo u)
    from Cons.IH [of "dev0\<lparr>ad_undo := ad_undo dev0 @ [u]\<rparr>" log] Cons.prems show ?thesis by (fastforce simp: Undo)
  next
    case DnsOn
    from Cons.IH [of "dev0\<lparr>ad_dns := True\<rparr>" log] Cons.prems show ?thesis by (fastforce simp: DnsOn)
  qed (use Cons.prems in simp)
qed simp

abbreviation sample_config :: "(ip_addr \<times> nat) client_config" where
  "sample_config \<equiv> \<lparr>cc_private_key = sample_key, cc_peer_public_key = sample_key, cc_preshared_key = None,
     cc_address = (V4 0x0A070002, 32), cc_dns = [], cc_endpoint = EpWs ''wss://vpn/t'' False,
     cc_allowed_ips = [(V4 0, 0)], cc_mtu = 1380, cc_keepalive = None\<rparr>"

lemma sample_parse_halves: "parse_conf nibble_lib halves_net sample_text = Inr sample_config"
proof -
  have parse: "nt_parse halves_net s = nt_parse host_net s" if "s \<in> {''10.7.0.2'', ''0.0.0.0/0''}" for s
    using that by (auto simp: halves_net_def)
  have new: "nt_new halves_net = nt_new host_net" by (simp add: halves_net_def)
  have "conf_address halves_net ''10.7.0.2'' = Inr (V4 0x0A070002, 32)"
    using sample_address parse new by (simp add: conf_address_def split_char_def sample_trims)
  moreover have "conf_allowed_ips halves_net (Some ''0.0.0.0/0'') = Inr [(V4 0, 0)]"
    using sample_allowed parse new by (simp add: conf_allowed_ips_def split_char_def sample_trims)
  ultimately have "conf_fields nibble_lib halves_net (map_of (rev (lower_keys sample_iface))) (map_of (rev (lower_keys sample_peer))) =
      Inr sample_config"
    by (simp add: sample_names conf_fields_def sample_key_decodes sample_endpoint conf_number_def conf_dns_def)
  then show ?thesis using scan_section [OF sample_settings] by (simp add: parse_conf_def)
qed

lemma sample_opens:
  obtains dev log where "win_open (traced willing) dial_ops (Some (NAME, 7)) sample_config server ((), []) = (((), log), Some dev)"
    "(set_metric ''ipv4'' NAME, True) \<in> set log"
proof -
  have prep: "Halt \<notin> set (setup_instrs dial_ops sample_config NAME)"
    "Run (set_metric ''ipv4'' NAME) \<in> set (setup_instrs dial_ops sample_config NAME)"
    by (simp_all add: setup_instrs_def dns_instrs_def)
  have parses: "nt_parse dial_ops = nt_parse halves_net" by (simp add: dial_ops_def net_text.defs)
  have routes: "Halt \<notin> set (route_instrs dial_ops sample_config server 7 0x0A000001 0x0A000002 [])"
    by (auto simp: route_instrs_def allowed_instrs_def net_route_def half_instrs_def lan_instrs_def v4_route_def v6_route_def
        parses halves_net_def Let_def)
  from willing_traced [OF prep(1)] obtain dev1 l1 where one: "run_instrs (traced willing) (setup_instrs dial_ops sample_config NAME)
      (\<lparr>ad_name = NAME, ad_dns = False, ad_undo = []\<rparr>, ((), [])) = ((dev1, ((), l1)), True)" "(set_metric ''ipv4'' NAME, True) \<in> set l1"
    using prep(2) by blast
  from willing_traced [OF routes] obtain dev l2 where two: "run_instrs (traced willing)
      (route_instrs dial_ops sample_config server 7 0x0A000001 0x0A000002 []) (dev1, ((), l1 @ [([''route'', ''print'', ''-4''], True)])) =
      ((dev, ((), l2)), True)" "set (l1 @ [([''route'', ''print'', ''-4''], True)]) \<subseteq> set l2"
    by blast
  have "traced willing [''route'', ''print'', ''-4''] ((), l1) = (((), l1 @ [([''route'', ''print'', ''-4''], True)]), Some sample_table)"
    by (simp add: traced_def willing_def)
  with one(1) two(1) have "win_open (traced willing) dial_ops (Some (NAME, 7)) sample_config server ((), []) = (((), l2), Some dev)"
    by (simp add: win_open_def open_body_def sample_routes)
  moreover have "(set_metric ''ipv4'' NAME, True) \<in> set l2" using one(2) two(2) by auto
  ultimately show thesis by (rule that)
qed

lemma dial_sample:
  obtains log where "dial nibble_lib ex_boringtun (traced willing) dial_ops dial_place sample_text ((), []) =
    (((), log), Some (Inl (ErrHandshake ConnIo)))" "(set_metric ''ipv4'' NAME, True) \<in> set log"
proof -
  have nets: "net_text.truncate dial_ops = halves_net"
    by (simp add: dial_ops_def net_text.defs)
  have "url_target (''wss'' @ ''://'' @ [] @ ''vpn'' @ ''/t'') = host_port (default_port ''wss'') ''vpn''"
    by (rule url_target_authority) (simp_all add: url_stop_def)
  moreover have "host_port (default_port ''wss'') ''vpn'' = Inr (''vpn'', 443)"
    using host_port_name(1) [of "''vpn''" 0 "443"] by (simp add: default_port_def)
  ultimately have url: "url_target ''wss://vpn/t'' = Inr (''vpn'', 443)" by simp
  have resolved: "resolve_endpoint (de_lookup_str dial_place) (de_lookup_pair dial_place) (EpWs ''wss://vpn/t'' False) =
      Inr (sock (V4 9) 443)"
    by (simp add: resolve_endpoint_def url first_found_def dial_place_def)
  obtain dev cs where opens: "win_open (traced willing) dial_ops (Some (NAME, 7)) sample_config (V4 9) ((), []) = (((), cs), Some dev)"
    "(set_metric ''ipv4'' NAME, True) \<in> set cs" by (rule sample_opens)
  have refused: "connect_to nibble_lib ex_boringtun 0 sample_config (sock (V4 9) 443) (Some (sock (V4 0x7F000001) 40000)) False []
      (\<lambda>_. True) 0 [] = Some (Rejected ConnIo True)"
    by (simp add: connect_to_def engine_start_def sample_key_decodes ensure_def add_peer_def wg_new_def Let_def)
  obtain log where drop: "drop_adapter (traced willing) dev ((), cs) = ((), log)" by (metis (full_types) surj_pair unit.exhaust)
  with drop_traced [of willing dev "((), cs)"] have "set cs \<subseteq> set log" by auto
  moreover have "dial nibble_lib ex_boringtun (traced willing) dial_ops dial_place sample_text ((), []) =
    (((), log), Some (Inl (ErrHandshake ConnIo)))"
    by (simp add: dial_def nets sample_parse_halves resolved)
      (simp add: dial_place_def opens(1) refused drop)
  ultimately show thesis using opens(2) that by blast
qed

theorem dial_all_or_nothing_witness:
  "\<exists>log. dial nibble_lib ex_boringtun (traced willing) dial_ops dial_place sample_text ((), []) =
     (((), log), Some (Inl (ErrHandshake ConnIo))) \<and> (set_metric ''ipv4'' NAME, True) \<in> set log \<and>
     taken_back True (Some (NAME, 7)) log"
proof -
  obtain log where run: "dial nibble_lib ex_boringtun (traced willing) dial_ops dial_place sample_text ((), []) =
    (((), log), Some (Inl (ErrHandshake ConnIo)))" "(set_metric ''ipv4'' NAME, True) \<in> set log" by (rule dial_sample)
  have "de_win dial_place = Some (NAME, 7)" by (simp add: dial_place_def)
  with run dial_all_or_nothing [OF run(1)] show ?thesis by simp
qed

section \<open>Properties of the profiles\<close>

lemma slug_char_range: "slug_char c = CHR ''-'' \<or> 48 \<le> byte (slug_char c) \<and> byte (slug_char c) \<le> 57 \<or>
    97 \<le> byte (slug_char c) \<and> byte (slug_char c) \<le> 122"
  by (auto simp: slug_char_def ascii_alphanumeric_def to_ascii_lowercase_def byte_def)

lemma trim_dashes_chars: "set (trim_dashes s) \<subseteq> set s"
  by (auto simp: trim_dashes_def trim_end_matches_def dest!: set_dropWhileD)

lemma slug_chars:
  "c \<in> set (slug name) \<Longrightarrow> c = CHR ''-'' \<or> 48 \<le> byte c \<and> byte c \<le> 57 \<or> 97 \<le> byte c \<and> byte c \<le> 122"
proof -
  assume c: "c \<in> set (slug name)"
  have "set ''profile'' \<subseteq> {c. 97 \<le> byte c \<and> byte c \<le> 122}" by simp
  moreover have "set (trim_dashes (map slug_char (filter (\<lambda>c. \<not> is_cont c) name))) \<subseteq> range slug_char"
    using trim_dashes_chars by fastforce
  ultimately show ?thesis using c slug_char_range by (auto simp: slug_def Let_def split: if_splits)
qed

lemma slug_nonempty: "slug name \<noteq> []"
  by (simp add: slug_def Let_def)

lemma profile_file_extension: "extension (profile_file name) = Some ''json''"
proof -
  have "rsplit_once (CHR ''.'') (slug name @ CHR ''.'' # ''json'') = Some (slug name, ''json'')"
    by (rule rsplit_once_append) simp
  then show ?thesis using slug_nonempty [of name] by (simp add: extension_def profile_file_def)
qed

lemma write_file_read: "(f, body) \<in> set (write_file f body d)"
  by (auto simp: write_file_def image_iff)

lemma map_of_replace:
  "map_of (map (\<lambda>e. if fst e = f then (f, body) else e) d) g =
   (if g = f then (if f \<in> fst ` set d then Some body else None) else map_of d g)"
  by (induction d) (force simp: image_iff split: if_splits)+

lemma map_of_write: "map_of (write_file f body d) = (map_of d)(f \<mapsto> body)"
  by (auto simp: write_file_def fun_eq_iff map_of_replace map_add_def map_of_eq_None_iff [THEN iffD2] split: option.split)

lemma map_of_remove: "map_of (remove_file f d) = (map_of d)(f := None)"
  by (induction d) (auto simp: remove_file_def fun_eq_iff)

text \<open>
  C40: a saved profile is kept, and only it. With a \<open>serde_json\<close> that reads back what it wrote, a profile that
  is saved is listed under its trimmed name with its configuration, no file of another name changes, and
  deleting it takes exactly its file away; the file name is lower-case letters, digits and dashes only, so it
  cannot leave the directory.
\<close>

theorem profile_is_kept:
  assumes "\<forall>p. pl_read P (pl_write P p) = Some p" "save_profile P ok raw conf d = Inr d'"
  shows "\<lparr>pr_name = trim raw, pr_conf = conf\<rparr> \<in> set (list_profiles P d') \<and>
    (\<forall>g. g \<noteq> profile_file (trim raw) \<longrightarrow> map_of d' g = map_of d g) \<and>
    (\<exists>d''. delete_profile True (trim raw) d' = Inr d'' \<and> map_of d'' = (map_of d)(profile_file (trim raw) := None)) \<and>
    slug (trim raw) \<noteq> [] \<and>
    (\<forall>c \<in> set (slug (trim raw)). c = CHR ''-'' \<or> 48 \<le> byte c \<and> byte c \<le> 57 \<or> 97 \<le> byte c \<and> byte c \<le> 122)"
proof -
  let ?f = "profile_file (trim raw)" and ?p = "\<lparr>pr_name = trim raw, pr_conf = conf\<rparr>"
  have d': "d' = write_file ?f (pl_write P ?p) d"
    using assms(2) by (auto simp: save_profile_def Let_def split: if_splits)
  have "(?f, pl_write P ?p) \<in> set d'" unfolding d' by (rule write_file_read)
  then have listed: "?p \<in> set (list_profiles P d')" and known: "?f \<in> fst ` set d'"
    using assms(1) by (force simp: list_profiles_def map_filter_def profile_file_extension)+
  have "delete_profile True (trim raw) d' = Inr (remove_file ?f d')"
    using known by (simp add: delete_profile_def)
  moreover have "map_of (remove_file ?f d') = (map_of d)(?f := None)"
    by (simp add: map_of_remove d' map_of_write)
  moreover have "\<forall>g. g \<noteq> ?f \<longrightarrow> map_of d' g = map_of d g" by (simp add: d' map_of_write)
  ultimately show ?thesis using listed slug_chars [of _ "trim raw"] slug_nonempty [of "trim raw"] by blast
qed

fun tagged_read :: "string \<Rightarrow> profile option" where
  "tagged_read [] = None"
| "tagged_read (x # r) =
     (if x = CHR ''.'' then Some \<lparr>pr_name = [], pr_conf = r\<rparr>
      else (case r of [] \<Rightarrow> None | c # r' \<Rightarrow> map_option (\<lambda>p. p\<lparr>pr_name := c # pr_name p\<rparr>) (tagged_read r')))"

definition tagged_lib :: profile_lib where
  "tagged_lib = \<lparr>pl_write = (\<lambda>p. concat (map (\<lambda>c. [CHR ''c'', c]) (pr_name p)) @ CHR ''.'' # pr_conf p),
     pl_read = tagged_read, pl_lower = to_ascii_lowercase\<rparr>"

lemma tagged_reads: "\<forall>p. pl_read tagged_lib (pl_write tagged_lib p) = Some p"
proof
  fix p
  have "tagged_read (concat (map (\<lambda>c. [CHR ''c'', c]) n) @ CHR ''.'' # k) = Some \<lparr>pr_name = n, pr_conf = k\<rparr>" for n k
    by (induction n) simp_all
  then show "pl_read tagged_lib (pl_write tagged_lib p) = Some p" by (simp add: tagged_lib_def)
qed

theorem profile_is_kept_witness:
  "\<exists>d'. save_profile tagged_lib True ''Home'' ''x'' [] = Inr d' \<and>
     \<lparr>pr_name = ''Home'', pr_conf = ''x''\<rparr> \<in> set (list_profiles tagged_lib d')"
proof -
  have trims: "trim ''Home'' = ''Home''" "trim ''x'' = ''x''" by (simp_all add: trim_graphic ascii_graphic_def)
  then obtain d' where "save_profile tagged_lib True ''Home'' ''x'' [] = Inr d'"
    by (simp add: save_profile_def Let_def)
  with profile_is_kept [OF tagged_reads this] trims show ?thesis by auto
qed

text \<open>Names that differ only in what is not a letter or a digit share a file: saving one replaces the other.\<close>

lemma slug_collision: "slug ''a b'' = slug ''a-b''" "slug ''!'' = slug ''?''"
  by code_simp+

end
