(* ===== verification/Client_Shell.thy ===== *)
theory Client_Shell
  imports Client_App
begin

text \<open>
  \<open>crates/client-win/src-tauri/src/main.rs\<close>, \<open>main\<close>: the window, the tray and the way the process ends, around
  the session of \<open>Client_App\<close>; the directories its commands keep files in. What the window system does is
  the state of the window; the float product for the least height is an argument.
\<close>

section \<open>Directories\<close>

text \<open>The configuration directory when the system names one, and whether a directory exists or can be created.\<close>

record file_places =
  fp_config_dir :: "string option"
  fp_create :: "string \<Rightarrow> bool"
  fp_join :: "string \<Rightarrow> string \<Rightarrow> string"

definition profiles_dir :: "file_places \<Rightarrow> app_error + string" where
  "profiles_dir F =
     and_then (ok_or FileError (fp_config_dir F)) (\<lambda>base.
       let dir = fp_join F base ''profiles''
       in and_then (ensure (fp_create F dir) FileError) (\<lambda>_. Inr dir))"

definition settings_path :: "file_places \<Rightarrow> app_error + string" where
  "settings_path F =
     and_then (ok_or FileError (fp_config_dir F)) (\<lambda>dir.
     and_then (ensure (fp_create F dir) FileError) (\<lambda>_. Inr (fp_join F dir ''settings.json'')))"

text \<open>An unreadable or malformed file is no error; a missing directory is.\<close>

definition get_settings ::
  "file_places \<Rightarrow> (string \<Rightarrow> string option) \<Rightarrow> (string \<Rightarrow> settings_file option) \<Rightarrow> app_error + settings_file" where
  "get_settings F read_file from_json =
     and_then (settings_path F) (\<lambda>path. Inr (load_settings from_json (read_file path)))"

lemma get_settings_Inr_iff:
  "get_settings F read_file from_json = Inr s \<longleftrightarrow>
     (\<exists>path. settings_path F = Inr path \<and>
        s = (case Option.bind (read_file path) from_json of Some t \<Rightarrow> t | None \<Rightarrow> default_settings))"
proof -
  have "load_settings from_json t = (case Option.bind t from_json of Some s \<Rightarrow> s | None \<Rightarrow> default_settings)" for t
    by (cases "Option.bind t from_json") (simp_all add: load_settings_def)
  then show ?thesis by (auto simp: get_settings_def and_then_Inr_iff)
qed

section \<open>The window at start\<close>

record window =
  wi_visible :: bool
  wi_minimized :: bool
  wi_focused :: bool
  wi_theme :: theme
  wi_outer_height :: u32
  wi_inner_height :: u32

text \<open>
  The height that fits the work area, on 32-bit sizes with the frame (outer less inner) taken off, but no less
  than \<open>least\<close>; the window is only ever shrunk. The inner subtraction wraps, as in a release build.
\<close>

definition sat_sub32 :: "u32 \<Rightarrow> u32 \<Rightarrow> u32" where
  "sat_sub32 a b = (if a \<le> b then 0 else a - b)"

definition fit_height :: "u32 \<Rightarrow> u32 \<Rightarrow> u32 \<Rightarrow> u32 \<Rightarrow> u32 option" where
  "fit_height least work outer inner =
     (let fit = max (sat_sub32 work (outer - inner)) least
      in if work < outer \<and> fit < inner then Some fit else None)"

lemma fit_height_fits:
  assumes "fit_height least work outer inner = Some h" "inner \<le> outer"
  shows "h < inner \<and> least \<le> h \<and> (h = least \<or> unat h + unat (outer - inner) = unat work)"
proof -
  have h: "h = max (sat_sub32 work (outer - inner)) least" "h < inner"
    using assms(1) by (auto simp: fit_height_def Let_def split: if_splits)
  have "unat h + unat (outer - inner) = unat work" if "h \<noteq> least"
  proof -
    have "h = work - (outer - inner)" "outer - inner < work"
      using that h(1) by (auto simp: sat_sub32_def max_def split: if_splits)
    then show ?thesis using unat_sub [of "outer - inner" work] by (simp add: word_less_nat_alt word_le_nat_alt)
  qed
  with h show ?thesis by auto
qed

text \<open>The window starts dark, as \<open>tauri.conf.json\<close> has it; only a saved light theme is applied.\<close>

definition startup_theme :: "app_error + settings_file \<Rightarrow> theme" where
  "startup_theme settings =
     (case settings of Inr s \<Rightarrow> if sf_theme s = ''light'' then fst (apply_theme ''light'') else Dark | Inl _ \<Rightarrow> Dark)"

lemma startup_theme_saved: "startup_theme (Inr s) = fst (apply_theme (sf_theme s))"
  by (simp add: startup_theme_def apply_theme_def)

section \<open>Tray, window and exit\<close>

text \<open>
  Quit spawns a task that disconnects and then exits: \<open>sh_quitting\<close> counts the tasks before, \<open>sh_leaving\<close> those
  after their disconnect.
\<close>

record ('t, 'a) shell =
  sh_app :: "('t, 'a) app"
  sh_window :: "window option"
  sh_quitting :: nat
  sh_leaving :: nat
  sh_running :: bool

definition show_window :: "window option \<Rightarrow> window option" where
  "show_window w = map_option (\<lambda>w. w\<lparr>wi_visible := True, wi_minimized := False, wi_focused := True\<rparr>) w"

definition close_window :: "window option \<Rightarrow> window option" where
  "close_window w = map_option (\<lambda>w. w\<lparr>wi_visible := False\<rparr>) w"

datatype tray_event = MenuItem string | Click bool bool

text \<open>A click counts when the left button comes up.\<close>

fun on_tray :: "tray_event \<Rightarrow> ('t, 'a) shell \<Rightarrow> ('t, 'a) shell" where
  "on_tray (MenuItem item) p =
     (if item = ''open'' then p\<lparr>sh_window := show_window (sh_window p)\<rparr>
      else if item = ''quit'' then p\<lparr>sh_quitting := sh_quitting p + 1\<rparr>
      else p)"
| "on_tray (Click left up) p =
     (if left \<and> up then p\<lparr>sh_window := show_window (sh_window p)\<rparr> else p)"

inductive shell_step :: "('t, 'a) shell \<Rightarrow> ('t, 'a) shell \<Rightarrow> bool" where
  sh_command: "sh_running p \<Longrightarrow> app_step (sh_app p) a \<Longrightarrow> shell_step p (p\<lparr>sh_app := a\<rparr>)"
| sh_close: "sh_running p \<Longrightarrow> shell_step p (p\<lparr>sh_window := close_window (sh_window p)\<rparr>)"
| sh_second: "sh_running p \<Longrightarrow> shell_step p (p\<lparr>sh_window := show_window (sh_window p)\<rparr>)"
| sh_tray: "sh_running p \<Longrightarrow> shell_step p (on_tray e p)"
| sh_disconnect: "sh_running p \<Longrightarrow> 0 < sh_quitting p \<Longrightarrow>
    shell_step p (p\<lparr>sh_app := (sh_app p)\<lparr>ap_session := disconnect (ap_session (sh_app p))\<rparr>,
      sh_quitting := sh_quitting p - 1, sh_leaving := sh_leaving p + 1\<rparr>)"
| sh_exit: "sh_running p \<Longrightarrow> 0 < sh_leaving p \<Longrightarrow> shell_step p (p\<lparr>sh_running := False\<rparr>)"

inductive_cases shell_stepE: "shell_step p q"

definition initial_shell :: "window option \<Rightarrow> ('t, 'a) shell" where
  "initial_shell w = \<lparr>sh_app = initial_app, sh_window = w, sh_quitting = 0, sh_leaving = 0, sh_running = True\<rparr>"

lemma on_tray_frame: "sh_app (on_tray e p) = sh_app p" "sh_running (on_tray e p) = sh_running p"
    "sh_leaving (on_tray e p) = sh_leaving p"
  by (cases e; simp)+

lemma shell_step_app: "shell_step p q \<Longrightarrow> app_step\<^sup>*\<^sup>* (sh_app p) (sh_app q)"
  by (elim shell_stepE) (auto simp: on_tray_frame intro: step_disconnect)

definition shell_inv :: "('t, 'a) shell \<Rightarrow> bool" where
  "shell_inv p \<longleftrightarrow> session_inv (sh_app p) \<and> (\<not> sh_running p \<longrightarrow> 0 < sh_leaving p)"

lemma shell_inv_initial: "shell_inv (initial_shell w)"
  using session.inv_initial [OF refl] by (simp add: shell_inv_def initial_shell_def)

lemma shell_inv_step: "shell_inv p \<Longrightarrow> shell_step p q \<Longrightarrow> shell_inv q"
  using session.inv_steps [OF shell_step_app, of p q]
  by (auto simp: shell_inv_def on_tray_frame elim!: shell_stepE)

interpretation desktop: transition_system "\<lambda>p. \<exists>w. p = initial_shell w" shell_step shell_inv
  by unfold_locales (auto intro: shell_inv_initial shell_inv_step)

text \<open>
  The window never ends the process and never touches the session: hiding it, raising it and clicking the tray
  leave both as they were, and an exited process has disconnected first.
\<close>

lemma window_keeps_session:
  "sh_app (p\<lparr>sh_window := f (sh_window p)\<rparr>) = sh_app p"
  "sh_app (on_tray e p) = sh_app p \<and> sh_running (on_tray e p) = sh_running p"
  by (simp_all add: on_tray_frame)

lemma exit_after_disconnect:
  assumes "shell_step\<^sup>*\<^sup>* (initial_shell w) p" "\<not> sh_running p"
  shows "0 < sh_leaving p \<and> fields_agree (ap_session (sh_app p))"
  using desktop.inv_reachable [OF _ assms(1)] assms(2) by (auto simp: shell_inv_def session_inv_def)

text \<open>
  Quitting while a dialling is under way: the disconnect finds nothing to take down, the dialling ends after it,
  and the process exits with the adapter in place.
\<close>

lemma quit_during_dial:
  fixes t :: 't and a :: 'a
  shows "\<exists>p :: ('t, 'a) shell. shell_step\<^sup>*\<^sup>* (initial_shell w) p \<and> \<not> sh_running p \<and>
    se_adapter (ap_session (sh_app p)) = Some a"
proof -
  let ?s1 = "(initial_session :: ('t, 'a) session)\<lparr>se_state := ''connecting'', se_error := None, se_endpoint := None\<rparr>"
  let ?a1 = "\<lparr>ap_session = ?s1, ap_dialing = 1, ap_overlap = False\<rparr>"
  let ?p1 = "(initial_shell w)\<lparr>sh_app := ?a1\<rparr>"
  let ?p2 = "?p1\<lparr>sh_quitting := 1\<rparr>"
  let ?a3 = "?a1\<lparr>ap_session := disconnect ?s1\<rparr>"
  let ?p3 = "?p2\<lparr>sh_app := ?a3, sh_quitting := 0, sh_leaving := 1\<rparr>"
  let ?a4 = "?a3\<lparr>ap_session := connect_end (Inr (t, [], a)) (ap_session ?a3), ap_dialing := 0\<rparr>"
  let ?p4 = "?p3\<lparr>sh_app := ?a4\<rparr>"
  have "app_step (initial_app :: ('t, 'a) app) ?a1"
    using step_begin [of "initial_app :: ('t, 'a) app" ?s1]
    by (simp add: initial_app_def initial_session_def connect_begin_def)
  then have "shell_step (initial_shell w) ?p1"
    using sh_command [of "initial_shell w :: ('t, 'a) shell" ?a1] by (simp add: initial_shell_def)
  moreover have "shell_step ?p1 ?p2"
    using sh_tray [of ?p1 "MenuItem ''quit''"] by (simp add: initial_shell_def)
  moreover have "shell_step ?p2 ?p3"
    using sh_disconnect [of ?p2] by (simp add: initial_shell_def)
  moreover have "shell_step ?p3 ?p4"
    using sh_command [of ?p3 ?a4] step_end [of ?a3 "Inr (t, [], a)"] by (simp add: initial_shell_def)
  moreover have "shell_step ?p4 (?p4\<lparr>sh_running := False\<rparr>)"
    using sh_exit [of ?p4] by (simp add: initial_shell_def)
  ultimately have "shell_step\<^sup>*\<^sup>* (initial_shell w) (?p4\<lparr>sh_running := False\<rparr>)"
    by (meson converse_rtranclp_into_rtranclp rtranclp.rtrancl_refl)
  then show ?thesis by (intro exI [of _ "?p4\<lparr>sh_running := False\<rparr>"]) (simp add: connect_end_def)
qed

end
