(* ===== verification/End_To_End.thy ===== *)
theory End_To_End
  imports Server Client_Engine Ws_Relay
begin

text \<open>
  The two ends put together: what the client's device hands in, through \<open>Tunnel\<close>'s uplink task
  (\<open>crates/wgclient\<close>), \<open>Wg\<close> at either end (\<open>crates/wgcore\<close>) and the server's ingress task (\<open>crates/server\<close>) to the
  TCP/IP stack, and back; over a network that may lose datagrams.
\<close>

section \<open>A WireGuard session\<close>

text \<open>
  A packet as boringtun hands it on: IPv4, with a total length that is its length, and with room for the
  data header and the tag in the scratch buffer.
\<close>

definition whole_v4 :: "bytes \<Rightarrow> bool" where
  "whole_v4 p \<longleftrightarrow> 20 \<le> length p \<and> drop_bit 4 (hd p) = 4 \<and> unat (be16_of_bytes (p ! 2) (p ! 3)) = length p \<and>
     length p + 32 \<le> MAX_PACKET"

lemma whole_v4_not_v6: "whole_v4 p \<Longrightarrow> \<not> is_v6 p"
  by (auto simp: whole_v4_def is_v6_def)

text \<open>
  What a live session of boringtun promises, for a sender's tunnel, a receiver's tunnel that knows the session under
  index \<open>idx\<close>, and the datagrams in flight with their packets: a packet becomes one datagram; a datagram whose
  predecessors were delivered or lost is attributed to \<open>idx\<close> and decrypts to its packet; and the receiver sending
  something of its own leaves the session alone.
\<close>

definition in_session ::
  "('t, 'l, 'i) boringtun_lib \<Rightarrow> nat \<Rightarrow> ('t \<Rightarrow> 't \<Rightarrow> (bytes \<times> bytes) list \<Rightarrow> bool) \<Rightarrow> bool" where
  "in_session B idx S \<longleftrightarrow>
     (\<forall>ts tr fl p. S ts tr fl \<longrightarrow> whole_v4 p \<longrightarrow>
        (\<exists>ts' d. bt_encapsulate B p ts = (ts', TWriteToNetwork d) \<and> S ts' tr (fl @ [(d, p)]))) \<and>
     (\<forall>ts tr fl1 d p fl2 ip l. S ts tr (fl1 @ (d, p) # fl2) \<longrightarrow>
        (\<exists>r tr' l1 l2 a. bt_verify B ip d l = (l1, Inr (PacketData r)) \<and> unat (drop_bit 8 r) = idx \<and>
           bt_decapsulate B ip d tr l1 = (tr', l2, TWriteToTunnelV4 p a) \<and> S ts tr' fl2)) \<and>
     (\<forall>ts tr fl q tr' r. S ts tr fl \<longrightarrow> bt_encapsulate B q tr = (tr', r) \<longrightarrow> S ts tr' fl)"

lemma in_session_send:
  assumes "in_session B idx S" "S ts tr fl" "whole_v4 p"
  obtains ts' d where "bt_encapsulate B p ts = (ts', TWriteToNetwork d)" "S ts' tr (fl @ [(d, p)])"
  using assms unfolding in_session_def by (elim conjE) meson

lemma in_session_recv:
  assumes "in_session B idx S" "S ts tr (fl1 @ (d, p) # fl2)"
  obtains r tr' l1 l2 a where "bt_verify B ip d l = (l1, Inr (PacketData r))" "unat (drop_bit 8 r) = idx"
    "bt_decapsulate B ip d tr l1 = (tr', l2, TWriteToTunnelV4 p a)" "S ts tr' fl2"
  using assms unfolding in_session_def by meson

lemma in_session_other:
  "in_session B idx S \<Longrightarrow> S ts tr fl \<Longrightarrow> bt_encapsulate B q tr = (tr', r) \<Longrightarrow> S ts tr' fl"
  unfolding in_session_def by (elim conjE) meson

section \<open>One endpoint receives\<close>

abbreviation tunn_at :: "('t, 'l) wg \<Rightarrow> nat \<Rightarrow> 't" where
  "tunn_at wg i \<equiv> peer_tunn (wg_peers wg ! i)"

lemma recv_data:
  assumes "in_session B idx S" "S ts (tunn_at wg idx) (fl1 @ (d, p) # fl2)" "idx < length (wg_peers wg)"
  shows "\<exists>wg'. recv_from_network B wg from d [] [] = Some (wg', [], [p], Some idx) \<and>
     length (wg_peers wg') = length (wg_peers wg) \<and> S ts (tunn_at wg' idx) fl2 \<and> endpoint wg' idx = Some from \<and>
     same_registration wg wg'"
proof -
  obtain r tr' l1 l2 a where *: "bt_verify B (sa_ip from) d (wg_limiter wg) = (l1, Inr (PacketData r))"
    "unat (drop_bit 8 r) = idx" "bt_decapsulate B (sa_ip from) d (tunn_at wg idx) l1 = (tr', l2, TWriteToTunnelV4 p a)"
    "S ts tr' fl2"
    using in_session_recv [OF assms(1,2)] by metis
  have loop: "decap_loop B (sa_ip from) d (tunn_at wg idx) l1 [] [] = Some (tr', l2, [], [p], Some True)"
    by (subst decap_loop.simps) (simp add: *(3))
  let ?peer = "(wg_peers wg ! idx)\<lparr>peer_tunn := tr', peer_endpoint := Some from\<rparr>"
  let ?wg = "wg\<lparr>wg_peers := (wg_peers wg)[idx := ?peer], wg_limiter := l2\<rparr>"
  have recv: "recv_from_network B wg from d [] [] = Some (?wg, [], [p], Some idx)"
    using assms(3) by (simp add: recv_from_network_def *(1) classify_def *(2) loop Let_def)
  have "same_registration wg ?wg" using recv_same_registration [OF recv] .
  with recv *(4) assms(3) show ?thesis by (auto simp: endpoint_def)
qed

section \<open>The server's end\<close>

fun server_takes ::
  "'net ipnet_lib \<Rightarrow> etherparse_lib \<Rightarrow> ('t, 'l, 'i) boringtun_lib \<Rightarrow> (bytes \<Rightarrow> 'q \<Rightarrow> 'q option)
    \<Rightarrow> socket_addr \<Rightarrow> bytes list \<Rightarrow> ('net, 't, 'l, 'q) server \<Rightarrow> (('net, 't, 'l, 'q) server \<times> sent) option" where
  "server_takes L E B try_send from [] sv = Some (sv, [])"
| "server_takes L E B try_send from (d # ds) sv =
     (case ingress L E B try_send sv (Some (d, from)) of
        None \<Rightarrow> None
      | Some (sv', sent) \<Rightarrow>
          map_option (\<lambda>(sv'', sent'). (sv'', sent @ sent')) (server_takes L E B try_send from ds sv'))"

fun server_sends ::
  "'net ipnet_lib \<Rightarrow> ('t, 'l, 'i) boringtun_lib \<Rightarrow> bytes list \<Rightarrow> ('net, 't, 'l, 'q) server
    \<Rightarrow> ('net, 't, 'l, 'q) server \<times> sent" where
  "server_sends L B [] sv = (sv, [])"
| "server_sends L B (p # ps) sv =
     (let (sv', sent) = egress L B sv p; (sv'', sent') = server_sends L B ps sv' in (sv'', sent @ sent'))"

lemma encapsulate_session:
  assumes "in_session B idx S" "S ts (tunn_at wg idx) fl" "encapsulate B wg idx q net_out = (wg', out)"
    and "idx < length (wg_peers wg)"
  shows "S ts (tunn_at wg' idx) fl \<and> length (wg_peers wg') = length (wg_peers wg)"
proof -
  obtain t' r where e: "bt_encapsulate B q (tunn_at wg idx) = (t', r)" by fastforce
  with assms(3,4) have "tunn_at wg' idx = t'" "length (wg_peers wg') = length (wg_peers wg)"
    by (auto simp: encapsulate_def Let_def split: tunn_result.splits)
  with in_session_other [OF assms(1,2) e] show ?thesis by simp
qed

lemma ingress_data:
  assumes "in_session B idx S" "S tc (tunn_at (sv_wg sv) idx) (fl1 @ (d, p) # fl2)" "idx < length (wg_peers (sv_wg sv))"
  shows "\<exists>sv' sent. ingress L E B try_send sv (Some (d, from)) = Some (sv', sent) \<and> same_tables sv sv' \<and>
     sv_to_stack sv' = (if sv_admitted L B sv idx p then send_or_drop try_send p (sv_to_stack sv) else sv_to_stack sv) \<and>
     idx < length (wg_peers (sv_wg sv')) \<and> S tc (tunn_at (sv_wg sv') idx) fl2 \<and> endpoint (sv_wg sv') idx = Some from"
proof -
  obtain wg1 where r: "recv_from_network B (sv_wg sv) from d [] [] = Some (wg1, [], [p], Some idx)"
    "length (wg_peers wg1) = length (wg_peers (sv_wg sv))" "S tc (tunn_at wg1 idx) fl2" "endpoint wg1 idx = Some from"
    using recv_data [OF assms] by blast
  obtain sv' sent where i: "ingress_packets L E B try_send idx from (sv\<lparr>sv_wg := wg1\<rparr>) [p] = (sv', sent)" by fastforce
  then have ing: "ingress L E B try_send sv (Some (d, from)) = Some (sv', sent)"
    by (simp add: ingress_def r(1))
  obtain wg' net_out ip_out res where spec: "recv_from_network B (sv_wg sv) from d [] [] = Some (wg', net_out, ip_out, res)"
      "same_tables sv sv'" "sv_to_stack sv' = fold (send_or_drop try_send)
         (case res of None \<Rightarrow> [] | Some idx \<Rightarrow> filter (sv_admitted L B sv idx) ip_out) (sv_to_stack sv)"
    using ingress_spec [OF ing] by metis
  have sess: "idx < length (wg_peers (sv_wg sv')) \<and> S tc (tunn_at (sv_wg sv') idx) fl2 \<and> endpoint (sv_wg sv') idx = Some from"
  proof (cases "\<exists>rst. sv_wg sv' = fst (encapsulate B wg1 idx rst [])")
    case True
    then obtain rst out where e: "encapsulate B wg1 idx rst [] = (sv_wg sv', out)" by (metis prod.collapse)
    with encapsulate_session [OF assms(1) r(3) e] endpoint_encapsulate [OF e] r(2,4) assms(3) show ?thesis by simp
  next
    case False
    then have "sv_wg sv' = wg1"
      using i by (auto split: option.splits if_splits prod.splits) (metis fst_conv)+
    with r assms(3) show ?thesis by simp
  qed
  from spec r(1) have "sv_to_stack sv' = (if sv_admitted L B sv idx p then send_or_drop try_send p (sv_to_stack sv) else sv_to_stack sv)"
    by auto
  with ing spec(2) sess show ?thesis by blast
qed

text \<open>
  Delivery in order with losses: the datagrams that arrive are those of \<open>fl\<close> at the positions in \<open>I\<close>.
\<close>

lemma server_takes_session:
  assumes "in_session B idx S" "S tc (tunn_at (sv_wg sv) idx) (lost @ fl)" "idx < length (wg_peers (sv_wg sv))"
  shows "\<exists>sv' sent. server_takes L E B try_send from (map fst (nths fl I)) sv = Some (sv', sent) \<and> same_tables sv sv' \<and>
     sv_to_stack sv' = fold (send_or_drop try_send) (filter (sv_admitted L B sv idx) (map snd (nths fl I))) (sv_to_stack sv) \<and>
     idx < length (wg_peers (sv_wg sv')) \<and>
     (nths fl I \<noteq> [] \<longrightarrow> endpoint (sv_wg sv') idx = Some from)"
  using assms(2,3)
proof (induction fl arbitrary: sv lost I)
  case Nil
  then show ?case by (simp add: same_tables_def)
next
  case (Cons x fl)
  obtain d p where x: "x = (d, p)" by (cases x)
  let ?J = "{j. Suc j \<in> I}"
  show ?case
  proof (cases "0 \<in> I")
    case False
    have "S tc (tunn_at (sv_wg sv) idx) ((lost @ [x]) @ fl)" using Cons.prems(1) by simp
    from Cons.IH [OF this Cons.prems(2), of ?J] False show ?thesis by (simp add: nths_Cons)
  next
    case True
    obtain sv1 sent1 where one: "ingress L E B try_send sv (Some (d, from)) = Some (sv1, sent1)" "same_tables sv sv1"
      "sv_to_stack sv1 = (if sv_admitted L B sv idx p then send_or_drop try_send p (sv_to_stack sv) else sv_to_stack sv)"
      "idx < length (wg_peers (sv_wg sv1))" "S tc (tunn_at (sv_wg sv1) idx) fl" "endpoint (sv_wg sv1) idx = Some from"
      using ingress_data [OF assms(1) Cons.prems(1) [unfolded x] Cons.prems(2)] by metis
    have "S tc (tunn_at (sv_wg sv1) idx) ([] @ fl)" using one(5) by simp
    from Cons.IH [OF this one(4), of ?J] obtain sv2 sent2 where two:
      "server_takes L E B try_send from (map fst (nths fl ?J)) sv1 = Some (sv2, sent2)" "same_tables sv1 sv2"
      "sv_to_stack sv2 = fold (send_or_drop try_send) (filter (sv_admitted L B sv1 idx) (map snd (nths fl ?J))) (sv_to_stack sv1)"
      "idx < length (wg_peers (sv_wg sv2))" "nths fl ?J \<noteq> [] \<longrightarrow> endpoint (sv_wg sv2) idx = Some from"
      by blast
    have adm: "sv_admitted L B sv1 idx = sv_admitted L B sv idx"
      using one(2) by (simp add: same_tables_def)
    have "same_tables sv sv2" using one(2) two(2) by (auto simp: same_tables_def intro: same_registration_trans)
    moreover have "endpoint (sv_wg sv2) idx = Some from"
      using two(1,5) one(6) by (cases "nths fl ?J") auto
    ultimately show ?thesis
      using one two(1,4) two(3) [unfolded adm] True x by (simp add: nths_Cons)
  qed
qed

section \<open>The client's end\<close>

lemma uplink_sends:
  assumes "in_session B idx S" "en_uplink e" "wg_peers (en_wg e) = [pc]" "S (peer_tunn pc) tr fl"
    and "\<forall>p \<in> set (en_from_tun e). is_v6 p \<or> whole_v4 p"
  shows "\<exists>e' fx fl' pc'. engine_run B (replicate (length (en_from_tun e)) Uplink) e = Some (e', fx) \<and>
     fx_sent fx = map fst fl' \<and> map snd fl' = filter (\<lambda>p. \<not> is_v6 p) (en_from_tun e) \<and> en_from_tun e' = [] \<and>
     wg_peers (en_wg e') = [pc'] \<and> S (peer_tunn pc') tr (fl @ fl')"
  using assms(2-5)
proof (induction "en_from_tun e" arbitrary: e pc fl)
  case Nil
  then show ?case by (intro exI [of _ e] exI [of _ no_effects] exI [of _ "[]"] exI [of _ pc]) simp
next
  case (Cons p ps)
  note tun = Cons.hyps(2) [symmetric]
  show ?case
  proof (cases "is_v6 p")
    case True
    let ?e = "e\<lparr>en_from_tun := ps, en_v6_dropped := en_v6_dropped e + 1\<rparr>"
    have turn: "engine_turn B Uplink e = Some (?e, no_effects)"
      using True tun Cons.prems(1) by (simp add: uplink_task_def Let_def)
    obtain e' fx fl' pc' where "engine_run B (replicate (length ps) Uplink) ?e = Some (e', fx)"
      "fx_sent fx = map fst fl'" "map snd fl' = filter (\<lambda>p. \<not> is_v6 p) ps" "en_from_tun e' = []"
      "wg_peers (en_wg e') = [pc']" "S (peer_tunn pc') tr (fl @ fl')"
      using Cons.hyps(1) [of ?e pc fl] Cons.prems tun by auto
    then show ?thesis
      using turn tun True by (intro exI [of _ e'] exI [of _ "add_effects no_effects fx"] exI [of _ fl'] exI [of _ pc']) simp
  next
    case False
    then have "whole_v4 p" using Cons.prems(4) tun by auto
    from in_session_send [OF assms(1) Cons.prems(3) this] obtain t' d where
      d: "bt_encapsulate B p (peer_tunn pc) = (t', TWriteToNetwork d)" "S t' tr (fl @ [(d, p)])" .
    let ?pc = "pc\<lparr>peer_tunn := t'\<rparr>"
    let ?e = "e\<lparr>en_from_tun := ps, en_wg := (en_wg e)\<lparr>wg_peers := [?pc]\<rparr>, en_tx := count_sent [d] (en_tx e)\<rparr>"
    have turn: "engine_turn B Uplink e = Some (?e, no_effects\<lparr>fx_sent := [d]\<rparr>)"
      using False tun Cons.prems(1,2) d(1) by (simp add: uplink_task_def encapsulate_def Let_def)
    obtain e' fx fl' pc' where "engine_run B (replicate (length ps) Uplink) ?e = Some (e', fx)"
      "fx_sent fx = map fst fl'" "map snd fl' = filter (\<lambda>p. \<not> is_v6 p) ps" "en_from_tun e' = []"
      "wg_peers (en_wg e') = [pc']" "S (peer_tunn pc') tr ((fl @ [(d, p)]) @ fl')"
      using Cons.hyps(1) [of ?e ?pc "fl @ [(d, p)]"] Cons.prems tun d(2) by auto
    then show ?thesis
      using turn tun False
      by (intro exI [of _ e'] exI [of _ "add_effects (no_effects\<lparr>fx_sent := [d]\<rparr>) fx"] exI [of _ "(d, p) # fl'"] exI [of _ pc'])
        simp
  qed
qed

section \<open>The way back\<close>

lemma server_sends_session:
  assumes "in_session B k S" "S (tunn_at (sv_wg sv) idx) tr fl" "idx < length (wg_peers (sv_wg sv))"
    and "endpoint (sv_wg sv) idx = Some ep"
    and "\<forall>q \<in> set qs. whole_v4 q \<and> (\<exists>dst. dst_address B q = Some dst \<and> peer_for L (sv_allowed sv) dst = Some idx)"
  shows "\<exists>sv' fl'. server_sends L B qs sv = (sv', map (\<lambda>x. (fst x, ep)) fl') \<and> map snd fl' = qs \<and>
     S (tunn_at (sv_wg sv') idx) tr (fl @ fl')"
  using assms(2-5)
proof (induction qs arbitrary: sv fl)
  case Nil
  then show ?case by (intro exI [of _ sv] exI [of _ "[]"]) simp
next
  case (Cons q qs)
  then obtain dst where dst: "dst_address B q = Some dst" "peer_for L (sv_allowed sv) dst = Some idx" and "whole_v4 q"
    by auto
  from in_session_send [OF assms(1) Cons.prems(1) \<open>whole_v4 q\<close>] obtain t' d where
    d: "bt_encapsulate B q (tunn_at (sv_wg sv) idx) = (t', TWriteToNetwork d)" "S t' tr (fl @ [(d, q)])" .
  let ?wg = "(sv_wg sv)\<lparr>wg_peers := (wg_peers (sv_wg sv))[idx := (wg_peers (sv_wg sv) ! idx)\<lparr>peer_tunn := t'\<rparr>]\<rparr>"
  let ?sv = "sv\<lparr>sv_wg := ?wg\<rparr>"
  have e: "encapsulate B (sv_wg sv) idx q [] = (?wg, [d])"
    using d(1) Cons.prems(2) by (simp add: encapsulate_def Let_def)
  have one: "egress L B sv q = (?sv, [(d, ep)])"
    using e dst Cons.prems(3) endpoint_encapsulate [OF e, of idx] by (simp add: egress_def)
  have "\<exists>sv' fl'. server_sends L B qs ?sv = (sv', map (\<lambda>x. (fst x, ep)) fl') \<and> map snd fl' = qs \<and>
     S (tunn_at (sv_wg sv') idx) tr ((fl @ [(d, q)]) @ fl')"
    using d(2) Cons.prems(2-4) endpoint_encapsulate [OF e, of idx] by (intro Cons.IH) simp_all
  then obtain sv' fl' where "server_sends L B qs ?sv = (sv', map (\<lambda>x. (fst x, ep)) fl')" "map snd fl' = qs"
      "S (tunn_at (sv_wg sv') idx) tr ((fl @ [(d, q)]) @ fl')"
    by blast
  then show ?case using one by (intro exI [of _ sv'] exI [of _ "(d, q) # fl'"]) simp
qed

abbreviation sock_recv :: "bytes \<Rightarrow> engine_event" where
  "sock_recv d \<equiv> SockRecv (Some d)"

lemma client_takes:
  assumes "in_session B 0 S" "en_net e" "en_writer e" "wg_peers (en_wg e) \<noteq> []" "S ts (tunn_at (en_wg e) 0) (lost @ fl)"
  shows "\<exists>e' fx. engine_run B (map sock_recv (map fst (nths fl I))) e = Some (e', fx) \<and>
     en_to_tun e' = en_to_tun e @ map snd (nths fl I) \<and> fx_sent fx = []"
  using assms(2-5)
proof (induction fl arbitrary: e lost I)
  case Nil
  then show ?case by simp
next
  case (Cons x fl)
  obtain d p where x: "x = (d, p)" by (cases x)
  let ?J = "{j. Suc j \<in> I}"
  show ?case
  proof (cases "0 \<in> I")
    case False
    have "S ts (tunn_at (en_wg e) 0) ((lost @ [x]) @ fl)" using Cons.prems(4) by simp
    from Cons.IH [OF Cons.prems(1-3) this, of ?J] False show ?thesis by (simp add: nths_Cons)
  next
    case True
    obtain wg' where wg': "recv_from_network B (en_wg e) (en_peer e) d [] [] = Some (wg', [], [p], Some 0)"
      "length (wg_peers wg') = length (wg_peers (en_wg e))" "S ts (tunn_at wg' 0) fl"
      using recv_data [OF assms(1) Cons.prems(4) [unfolded x], of "en_peer e"] Cons.prems(3) by auto
    let ?e = "e\<lparr>en_wg := wg', en_rx := en_rx e + of_nat (length d), en_tx := count_sent [] (en_tx e),
        en_to_tun := en_to_tun e @ [p]\<rparr>"
    have turn: "engine_turn B (sock_recv d) e = Some (?e, no_effects\<lparr>fx_sent := []\<rparr>)"
      using wg'(1) Cons.prems(1,2) by (simp add: net_task_def Let_def)
    have "\<exists>e' fx. engine_run B (map sock_recv (map fst (nths fl ?J))) ?e = Some (e', fx) \<and>
        en_to_tun e' = en_to_tun ?e @ map snd (nths fl ?J) \<and> fx_sent fx = []"
      using Cons.prems(1-3) wg'(2,3) by (intro Cons.IH [where lost = "[]"]) auto
    then show ?thesis using turn True x by (auto simp: nths_Cons)
  qed
qed

section \<open>The relay as a network\<close>

text \<open>
  Between the two sockets a relay connection may stand instead of the plain network: it, too, only loses. What the
  relay hands to the server's socket is, in order, among the frames that arrived, and so for the bridge's task.
\<close>

fun frame_of :: "conn_event \<Rightarrow> bytes list" where
  "frame_of (FromWs (WsMessage (WsBinary b))) = [b]"
| "frame_of _ = []"

fun datagram_of :: "client_event \<Rightarrow> bytes list" where
  "datagram_of (FromSource (Some b) ok) = [b]"
| "datagram_of _ = []"

definition running_turn :: "nat \<times> conn_event \<Rightarrow> pump \<Rightarrow> pump" where
  "running_turn te s = (if pm_end s = None then relay_conn_turn (fst te) (snd te) s else s)"

lemma relay_conn_run_fold: "relay_conn_run es s = fold running_turn es s"
proof (induction es arbitrary: s)
  case (Cons te es)
  obtain t e where te: "te = (t, e)" by (cases te)
  show ?case
  proof (cases "pm_end s")
    case (Some r)
    then have "fold running_turn es s = s" by (simp flip: Cons.IH)
    moreover have "running_turn te s = s" using Some by (simp add: running_turn_def)
    ultimately show ?thesis using Some te by simp
  qed (simp add: te running_turn_def Cons.IH)
qed simp

lemma pump_start_empty [simp]: "pm_udp (pump_start now) = []" "pm_ws (pump_start now) = []"
  by (simp_all add: pump_start_def)

lemma to_udp_frame: "subseq (to_udp e) (frame_of e)"
  by (cases e rule: frame_of.cases) auto

lemma relay_loses_only: "subseq (pm_udp (relay_conn es now)) (concat (map (\<lambda>te. frame_of (snd te)) es))"
proof -
  have turn: "\<exists>ys. pm_udp (running_turn te s) = pm_udp s @ ys \<and> subseq ys (frame_of (snd te))" for te s
    by (simp add: running_turn_def relay_conn_turn_spec to_udp_frame)
  have "\<exists>ys. pm_udp (fold running_turn es (pump_start now)) = pm_udp (pump_start now) @ ys \<and>
      subseq ys (concat (map (\<lambda>te. frame_of (snd te)) es))"
    by (rule fold_subseq) (rule turn)
  then show ?thesis by (auto simp: relay_conn_def Let_def relay_conn_run_fold)
qed

lemma bridge_loses_only:
  "\<exists>ys. ct_to_ws (client_run es s) = ct_to_ws s @ ys \<and> subseq ys (concat (map (\<lambda>te. datagram_of (snd te)) es))"
proof -
  have "\<exists>ys. ct_to_ws ((\<lambda>(now, e). client_turn now e) te s) = ct_to_ws s @ ys \<and> subseq ys (datagram_of (snd te))" for te s
  proof (cases te)
    case (Pair now e)
    then show ?thesis
      by (induction now e s rule: client_turn.induct)
        (auto simp: retry_def Let_def split: option.split ws_read.split ws_message.split)
  qed
  from fold_subseq [of ct_to_ws, OF this] show ?thesis by (simp add: client_run_fold)
qed

lemma length_nths_le: "length (nths xs I) \<le> length xs"
  by (induction xs arbitrary: I) (simp_all add: nths_Cons le_SucI)

text \<open>A burst of the uplink, whatever of it arrives in order.\<close>

lemma burst_crosses:
  assumes "in_session B idx S" "bounded_channel try_send receive items QUEUE"
    and "en_uplink e" "wg_peers (en_wg e) = [pc]" "\<forall>p \<in> set (en_from_tun e). is_v6 p \<or> whole_v4 p"
    and "idx < length (wg_peers (sv_wg sv))" "S (peer_tunn pc) (tunn_at (sv_wg sv) idx) []"
    and "length (items (sv_to_stack sv)) + length (en_from_tun e) \<le> QUEUE"
  shows "\<exists>e' fx sv' sent. engine_run B (replicate (length (en_from_tun e)) Uplink) e = Some (e', fx) \<and>
     length (fx_sent fx) = length (filter (\<lambda>p. \<not> is_v6 p) (en_from_tun e)) \<and>
     server_takes L E B try_send from (nths (fx_sent fx) I) sv = Some (sv', sent) \<and>
     items (sv_to_stack sv') = items (sv_to_stack sv) @
       filter (admitted L B (sv_net sv) (sv_allow_private sv) (sv_allowed sv) idx)
         (nths (filter (\<lambda>p. \<not> is_v6 p) (en_from_tun e)) I) \<and>
     (nths (fx_sent fx) I \<noteq> [] \<longrightarrow> endpoint (sv_wg sv') idx = Some from)"
proof -
  let ?ps = "filter (\<lambda>p. \<not> is_v6 p) (en_from_tun e)"
  obtain e' fx fl pc' where run: "engine_run B (replicate (length (en_from_tun e)) Uplink) e = Some (e', fx)"
    "fx_sent fx = map fst fl" "map snd fl = ?ps" "wg_peers (en_wg e') = [pc']"
      "S (peer_tunn pc') (tunn_at (sv_wg sv) idx) ([] @ fl)"
    using uplink_sends [OF assms(1,3,4,7,5)] by blast
  obtain sv' sent where take: "server_takes L E B try_send from (map fst (nths fl I)) sv = Some (sv', sent)"
    "sv_to_stack sv' = fold (send_or_drop try_send) (filter (sv_admitted L B sv idx) (map snd (nths fl I))) (sv_to_stack sv)"
    "nths fl I \<noteq> [] \<longrightarrow> endpoint (sv_wg sv') idx = Some from"
    using server_takes_session [OF assms(1) run(5) assms(6)] by blast
  let ?in = "filter (sv_admitted L B sv idx) (map snd (nths fl I))"
  have ps: "map snd (nths fl I) = nths ?ps I" using run(3) by (simp flip: nths_map)
  have "length ?in \<le> length (nths ?ps I)" unfolding ps by (rule length_filter_le)
  also have "\<dots> \<le> length ?ps" by (rule length_nths_le)
  also have "\<dots> \<le> length (en_from_tun e)" by (rule length_filter_le)
  finally have "items (fold (send_or_drop try_send) ?in (sv_to_stack sv)) = items (sv_to_stack sv) @ ?in"
    using assms(8) by (intro bounded_channel.offers_all [OF assms(2)]) linarith
  moreover have "length (fx_sent fx) = length ?ps" unfolding run(2) run(3) [symmetric] by simp
  moreover have "nths (fx_sent fx) I = map fst (nths fl I)" by (simp add: run(2) nths_map)
  ultimately show ?thesis
    using run(1) take(1,3) unfolding take(2) ps by (intro exI [of _ e'] exI [of _ fx] exI [of _ sv'] exI [of _ sent]) (simp add: take(2) ps)
qed

lemma answers_return:
  assumes "in_session B 0 S" "idx < length (wg_peers (sv_wg sv))" "endpoint (sv_wg sv) idx = Some ep"
    and "\<forall>q \<in> set qs. whole_v4 q \<and> (\<exists>dst. dst_address B q = Some dst \<and> peer_for L (sv_allowed sv) dst = Some idx)"
    and "en_net e" "en_writer e" "wg_peers (en_wg e) \<noteq> []" "S (tunn_at (sv_wg sv) idx) (tunn_at (en_wg e) 0) []"
  shows "\<exists>sv' sent e' fx. server_sends L B qs sv = (sv', sent) \<and> length sent = length qs \<and> list_all (\<lambda>(d, a). a = ep) sent \<and>
     engine_run B (map sock_recv (nths (map fst sent) I)) e = Some (e', fx) \<and>
     en_to_tun e' = en_to_tun e @ nths qs I \<and> fx_sent fx = []"
proof -
  obtain sv' fl where s: "server_sends L B qs sv = (sv', map (\<lambda>x. (fst x, ep)) fl)" "map snd fl = qs"
      "S (tunn_at (sv_wg sv') idx) (tunn_at (en_wg e) 0) ([] @ fl)"
    using server_sends_session [OF assms(1,8,2,3,4)] by (elim exE conjE) (rule that)
  obtain e' fx where "engine_run B (map sock_recv (map fst (nths fl I))) e = Some (e', fx)"
      "en_to_tun e' = en_to_tun e @ map snd (nths fl I)" "fx_sent fx = []"
    using client_takes [OF assms(1,5-7) s(3), of I] by metis
  moreover have "length fl = length qs" using s(2) by (metis length_map)
  ultimately show ?thesis
    using s(1) by (intro exI [of _ sv'] exI [of _ "map (\<lambda>x. (fst x, ep)) fl"] exI [of _ e'] exI [of _ fx])
      (simp add: nths_map list_all_iff comp_def flip: s(2))
qed

section \<open>Properties\<close>

text \<open>
  C6: what a client's device hands in crosses the tunnel unchanged. With a live session, whatever datagrams of the
  uplink's burst the network delivers in order (those at the positions in \<open>I\<close>), the server queues for its TCP/IP
  stack exactly the packets they carry that are admitted for the client's peer, in order, and answers to the
  client's current address; IPv6 packets were never sent.
\<close>

theorem packets_cross_the_tunnel:
  assumes "in_session B idx S" "bounded_channel try_send receive items QUEUE"
    and "en_uplink e" "wg_peers (en_wg e) = [pc]" "\<forall>p \<in> set (en_from_tun e). is_v6 p \<or> whole_v4 p"
    and "idx < length (wg_peers (sv_wg sv))" "S (peer_tunn pc) (tunn_at (sv_wg sv) idx) []"
    and "length (items (sv_to_stack sv)) + length (en_from_tun e) \<le> QUEUE"
  shows "\<exists>e' fx sv' sent. engine_run B (replicate (length (en_from_tun e)) Uplink) e = Some (e', fx) \<and>
     length (fx_sent fx) = length (filter (\<lambda>p. \<not> is_v6 p) (en_from_tun e)) \<and>
     server_takes L E B try_send from (nths (fx_sent fx) I) sv = Some (sv', sent) \<and>
     items (sv_to_stack sv') = items (sv_to_stack sv) @
       filter (admitted L B (sv_net sv) (sv_allow_private sv) (sv_allowed sv) idx)
         (nths (filter (\<lambda>p. \<not> is_v6 p) (en_from_tun e)) I) \<and>
     (nths (fx_sent fx) I \<noteq> [] \<longrightarrow> endpoint (sv_wg sv') idx = Some from)"
  by (rule burst_crosses [OF assms])

text \<open>
  C7: and back. Packets of the server's stack for the client's addresses are all sent to its current endpoint, and
  whatever of those datagrams arrive in order, the client queues exactly their packets for its device.
\<close>

theorem packets_return_through_the_tunnel:
  assumes "in_session B 0 S" "idx < length (wg_peers (sv_wg sv))" "endpoint (sv_wg sv) idx = Some ep"
    and "\<forall>q \<in> set qs. whole_v4 q \<and> (\<exists>dst. dst_address B q = Some dst \<and> peer_for L (sv_allowed sv) dst = Some idx)"
    and "en_net e" "en_writer e" "wg_peers (en_wg e) \<noteq> []" "S (tunn_at (sv_wg sv) idx) (tunn_at (en_wg e) 0) []"
  shows "\<exists>sv' sent e' fx. server_sends L B qs sv = (sv', sent) \<and> length sent = length qs \<and> list_all (\<lambda>(d, a). a = ep) sent \<and>
     engine_run B (map sock_recv (nths (map fst sent) I)) e = Some (e', fx) \<and>
     en_to_tun e' = en_to_tun e @ nths qs I \<and> fx_sent fx = []"
  by (rule answers_return [OF assms])

section \<open>Examples\<close>

text \<open>A boringtun in the clear whose data packets all name index 0.\<close>

definition clear_boringtun :: "(nat, nat, bytes) boringtun_lib" where
  "clear_boringtun = ex_boringtun\<lparr>bt_encapsulate := (\<lambda>p t. (t, TWriteToNetwork ([4, 0, 0, 0, 0] @ p)))\<rparr>"

definition clear_session :: "nat \<Rightarrow> nat \<Rightarrow> (bytes \<times> bytes) list \<Rightarrow> bool" where
  "clear_session ts tr fl \<longleftrightarrow> (\<forall>(d, p) \<in> set fl. d = [4, 0, 0, 0, 0] @ p)"

lemma clear_in_session: "in_session clear_boringtun 0 clear_session"
  unfolding in_session_def
  by (auto simp: clear_boringtun_def clear_session_def ex_boringtun_def be_word_def)

definition ex_client :: "(nat, nat) engine" where
  "ex_client = sample_engine\<lparr>en_from_tun := [ex_packet, [0x60]], en_to_tun := []\<rparr>"

lemma ex_client_sel:
  "en_uplink ex_client" "en_net ex_client" "en_writer ex_client" "\<exists>pc. wg_peers (en_wg ex_client) = [pc]"
  "en_from_tun ex_client = [ex_packet, [0x60]]" "en_to_tun ex_client = []"
  by (simp_all add: ex_client_def sample_engine_def)

lemma ex_packets_whole: "whole_v4 ex_packet" "whole_v4 ex_reply" "is_v6 [0x60]" "\<not> is_v6 ex_packet"
  by (simp_all add: whole_v4_def ex_packet_def ex_reply_def is_v6_def be16_of_bytes_def MAX_PACKET_def)

lemma clear_addrs: "dst_address clear_boringtun = dst_address ex_boringtun"
  by (simp add: fun_eq_iff dst_address_def clear_boringtun_def)

lemma ex_packet_admitted:
  "admitted cidr_lib clear_boringtun (sv_net ex_server) (sv_allow_private ex_server) (sv_allowed ex_server) 0 ex_packet"
  using ex_packet_addrs ex_routes by (simp add: admitted_def clear_addrs ex_server_def)

theorem packets_cross_the_tunnel_witness:
  "\<exists>e' fx sv' sent. engine_run clear_boringtun [Uplink, Uplink] ex_client = Some (e', fx) \<and>
     server_takes cidr_lib ex_etherparse clear_boringtun (list_send QUEUE) (sock (V4 7) 9) (nths (fx_sent fx) {0}) ex_server =
       Some (sv', sent) \<and> sv_to_stack sv' = [ex_packet]"
proof -
  obtain pc where pc: "wg_peers (en_wg ex_client) = [pc]" using ex_client_sel(4) by blast
  have whole: "\<forall>p \<in> set (en_from_tun ex_client). is_v6 p \<or> whole_v4 p"
    using ex_packets_whole by (simp add: ex_client_sel)
  have idx: "0 < length (wg_peers (sv_wg ex_server))" by (simp add: ex_server_def ex_wg_value)
  have room: "length (id (sv_to_stack ex_server)) + length (en_from_tun ex_client) \<le> QUEUE"
    by (simp add: ex_server_def ex_client_sel QUEUE_def)
  have live: "clear_session (peer_tunn pc) (tunn_at (sv_wg ex_server) 0) []" by (simp add: clear_session_def)
  from packets_cross_the_tunnel [OF clear_in_session list_channel.bounded_channel_axioms ex_client_sel(1) pc whole idx live room,
      of cidr_lib ex_etherparse "sock (V4 7) 9" "{0}"]
  show ?thesis
    using ex_packet_admitted ex_packets_whole by (auto simp: ex_client_sel nths_Cons ex_server_def numeral_2_eq_2)
qed

lemma ex_return:
  "1 < length (wg_peers (sv_wg ex_met_server))" "endpoint (sv_wg ex_met_server) 1 = Some (sock (V4 7) 9)"
  "\<forall>q \<in> set [ex_reply]. whole_v4 q \<and> (\<exists>dst. dst_address clear_boringtun q = Some dst \<and>
     peer_for cidr_lib (sv_allowed ex_met_server) dst = Some 1)"
  "wg_peers (en_wg ex_client) \<noteq> []" "clear_session (tunn_at (sv_wg ex_met_server) 1) (tunn_at (en_wg ex_client) 0) []"
proof -
  show "1 < length (wg_peers (sv_wg ex_met_server))" "endpoint (sv_wg ex_met_server) 1 = Some (sock (V4 7) 9)"
    by (simp_all add: ex_met_server_def ex_server_def ex_wg_value endpoint_def)
  have "dst_address clear_boringtun ex_reply = Some (V4 (v4_addr 10 7 0 6))"
    "peer_for cidr_lib (sv_allowed ex_met_server) (V4 (v4_addr 10 7 0 6)) = Some 1"
    by (simp_all add: dst_address_def clear_boringtun_def ex_boringtun_def ex_dst_def ex_reply_def be_word_def v4_addr_def
        word_eq_iff_unsigned [where 'a = nat] ex_met_server_def ex_server_def peer_for_def ex_config_def
        routing_table_def ex_peer_def cidr_lib_def)
  then show "\<forall>q \<in> set [ex_reply]. whole_v4 q \<and> (\<exists>dst. dst_address clear_boringtun q = Some dst \<and>
      peer_for cidr_lib (sv_allowed ex_met_server) dst = Some 1)"
    using ex_packets_whole by simp
  show "wg_peers (en_wg ex_client) \<noteq> []" using ex_client_sel(4) by auto
  show "clear_session (tunn_at (sv_wg ex_met_server) 1) (tunn_at (en_wg ex_client) 0) []" by (simp add: clear_session_def)
qed

theorem packets_return_through_the_tunnel_witness:
  "\<exists>sv' sent e' fx. server_sends cidr_lib clear_boringtun [ex_reply] ex_met_server = (sv', sent) \<and>
     engine_run clear_boringtun (map sock_recv (nths (map fst sent) {0})) ex_client = Some (e', fx) \<and>
     en_to_tun e' = [ex_reply]"
  using packets_return_through_the_tunnel [OF clear_in_session ex_return(1-3) ex_client_sel(2,3) ex_return(4,5), of "{0}"]
  by (auto simp: ex_client_sel)

end
