(* ===== verification/WebSocket_Path.thy ===== *)
theory WebSocket_Path
  imports End_To_End
begin

text \<open>
  The tunnel through the WebSocket relay: the engine's datagrams go to the bridge (\<open>run_client_to\<close>), through the
  task of its source and one WebSocket connection to the relay (\<open>relay_conn\<close>), and from there to the server; and back.
  Every hop may lose datagrams, none may reorder, duplicate or alter them.
\<close>

lemma subseq_trans [trans]: "subseq xs ys \<Longrightarrow> subseq ys zs \<Longrightarrow> subseq xs zs"
  by (rule subseq_order.order_trans)

section \<open>The bridge's queues\<close>

text \<open>What a source sent to the bridge, and what the task under an index takes off its queue.\<close>

fun from_source :: "socket_addr \<Rightarrow> bridge_event list \<Rightarrow> bytes list" where
  "from_source src [] = []"
| "from_source src (Datagram d a # es) = (if a = src then [d] else []) @ from_source src es"
| "from_source src (_ # es) = from_source src es"

fun task_takes :: "('q \<Rightarrow> (bytes \<times> 'q) option) \<Rightarrow> nat \<Rightarrow> bridge_event \<Rightarrow> 'q bridge \<Rightarrow> bytes list" where
  "task_takes receive k (TaskTakes j) s =
     (if j = k \<and> k < length (br_tasks s) \<and> \<not> mp_closed (br_tasks s ! k) then
        (case receive (mp_queue (br_tasks s ! k)) of None \<Rightarrow> [] | Some (d, q) \<Rightarrow> [d])
      else [])"
| "task_takes receive k e s = []"

fun taken_by ::
  "(bytes \<Rightarrow> 'q \<Rightarrow> 'q option) \<Rightarrow> ('q \<Rightarrow> (bytes \<times> 'q) option) \<Rightarrow> 'q \<Rightarrow> nat \<Rightarrow> bridge_event list \<Rightarrow> 'q bridge \<Rightarrow> bytes list" where
  "taken_by try_send receive q0 k [] s = []"
| "taken_by try_send receive q0 k (e # es) s =
     task_takes receive k e s @ taken_by try_send receive q0 k es (bridge_turn try_send receive q0 e s)"

definition queued_at :: "('q \<Rightarrow> bytes list) \<Rightarrow> 'q bridge \<Rightarrow> nat \<Rightarrow> bytes list" where
  "queued_at items s k = (if k < length (br_tasks s) then items (mp_queue (br_tasks s ! k)) else [])"

lemma from_source_Cons: "from_source a (e # es) = from_source a [e] @ from_source a es"
  by (cases e) simp_all

text \<open>A turn of the bridge, as the queue of one of its tasks sees it.\<close>

lemma bridge_turn_queue:
  assumes "bounded_channel try_send receive items cap" "items q0 = []" "bridge_inv s"
    and "k < length (br_tasks (bridge_turn try_send receive q0 e s))"
  shows "subseq (task_takes receive k e s @ queued_at items (bridge_turn try_send receive q0 e s) k)
      (queued_at items s k @ from_source (mp_src (br_tasks (bridge_turn try_send receive q0 e s) ! k)) [e])"
proof (cases e)
  case (Datagram d src)
  obtain s' j where o: "open_mapping q0 src s = (s', j)" by fastforce
  note opened = open_mapping_spec [OF assms(3) o]
  have q: "queued_at items s' k = queued_at items s k" if "k < length (br_tasks s')"
    using o that assms(2)
    by (auto simp: open_mapping_def queued_at_def Let_def nth_append less_Suc_eq split: option.splits if_splits)
  let ?q = "send_or_drop try_send d (mp_queue (br_tasks s' ! j))"
  have turn: "bridge_turn try_send receive q0 e s = s'\<lparr>br_tasks := (br_tasks s')[j := (br_tasks s' ! j)\<lparr>mp_queue := ?q\<rparr>]\<rparr>"
    by (simp add: Datagram o)
  show ?thesis
  proof (cases "k = j")
    case True
    have "subseq (items ?q) (items (mp_queue (br_tasks s' ! j)) @ [d])"
      by (auto simp: bounded_channel.items_offer [OF assms(1)])
    with True turn q opened Datagram show ?thesis by (simp add: queued_at_def)
  next
    case False
    with turn q opened Datagram assms(4) show ?thesis
      by (auto simp: queued_at_def)
  qed
next
  case (TaskTakes j)
  show ?thesis
  proof (cases "j = k \<and> k < length (br_tasks s) \<and> \<not> mp_closed (br_tasks s ! k)")
    case True
    then show ?thesis
      using TaskTakes bounded_channel.receive_Some [OF assms(1)]
      by (cases "receive (mp_queue (br_tasks s ! k))") (auto simp: queued_at_def)
  next
    case False
    then show ?thesis using TaskTakes by (auto simp: queued_at_def nth_list_update split: option.split)
  qed
qed (auto simp: queued_at_def nth_list_update)

lemma src_of_update [simp]: "mp_src (ts[j := (ts ! j)\<lparr>mp_queue := q\<rparr>] ! k) = mp_src (ts ! k)"
  by (cases "j < length ts") (auto simp: nth_list_update list_update_beyond not_less)

lemma bridge_turn_tasks:
  assumes "bridge_inv s"
  shows "length (br_tasks s) \<le> length (br_tasks (bridge_turn try_send receive q0 e s)) \<and>
    (\<forall>k < length (br_tasks s). mp_src (br_tasks (bridge_turn try_send receive q0 e s) ! k) = mp_src (br_tasks s ! k))"
proof (cases e)
  case (Datagram d src)
  obtain s' j where o: "open_mapping q0 src s = (s', j)" by fastforce
  then show ?thesis
    using Datagram by (auto simp: open_mapping_def Let_def nth_append nth_list_update split: option.splits if_splits)
qed (auto simp: nth_list_update split: option.split)

text \<open>A task takes, in order, only what its own source sent.\<close>

lemma bridge_run_tasks:
  "bridge_inv s \<Longrightarrow> length (br_tasks s) \<le> length (br_tasks (fold (bridge_turn try_send receive q0) es s)) \<and>
    (\<forall>k < length (br_tasks s). mp_src (br_tasks (fold (bridge_turn try_send receive q0) es s) ! k) = mp_src (br_tasks s ! k))"
proof (induction es arbitrary: s)
  case (Cons e es)
  let ?t = "bridge_turn try_send receive q0 e s"
  note later = Cons.IH [OF bridge_turn_inv [OF Cons.prems], of try_send receive q0 e]
  note first = bridge_turn_tasks [OF Cons.prems, of try_send receive q0 e]
  show ?case
  proof (intro conjI allI impI)
    show "length (br_tasks s) \<le> length (br_tasks (fold (bridge_turn try_send receive q0) (e # es) s))"
      using first later by (simp del: bridge_turn.simps)
  next
    fix k assume "k < length (br_tasks s)"
    then show "mp_src (br_tasks (fold (bridge_turn try_send receive q0) (e # es) s) ! k) = mp_src (br_tasks s ! k)"
      using first later by (simp del: bridge_turn.simps)
  qed
qed simp

lemma bridge_run_queue:
  assumes "bounded_channel try_send receive items cap" "items q0 = []"
  shows "bridge_inv s \<Longrightarrow> k < length (br_tasks (fold (bridge_turn try_send receive q0) es s)) \<Longrightarrow>
    subseq (taken_by try_send receive q0 k es s @ queued_at items (fold (bridge_turn try_send receive q0) es s) k)
      (queued_at items s k @ from_source (mp_src (br_tasks (fold (bridge_turn try_send receive q0) es s) ! k)) es)"
proof (induction es arbitrary: s)
  case (Cons e es)
  let ?t = "bridge_turn try_send receive q0 e s"
  let ?u = "fold (bridge_turn try_send receive q0) es ?t"
  have inv: "bridge_inv ?t" using bridge_turn_inv [OF Cons.prems(1)] .
  have later: "subseq (taken_by try_send receive q0 k es ?t @ queued_at items ?u k)
      (queued_at items ?t k @ from_source (mp_src (br_tasks ?u ! k)) es)"
    using Cons.IH [OF inv] Cons.prems(2) by (simp only: fold_simps)
  show ?case
  proof (cases "k < length (br_tasks ?t)")
    case True
    let ?F = "from_source (mp_src (br_tasks ?u ! k))"
    have src: "mp_src (br_tasks ?u ! k) = mp_src (br_tasks ?t ! k)" using bridge_run_tasks [OF inv] True by blast
    have "subseq (task_takes receive k e s @ queued_at items ?t k) (queued_at items s k @ ?F [e])"
      unfolding src by (rule bridge_turn_queue [OF assms Cons.prems(1) True])
    then have "subseq ((task_takes receive k e s @ queued_at items ?t k) @ ?F es) ((queued_at items s k @ ?F [e]) @ ?F es)"
      by (rule list_emb_append_mono) (rule subseq_order.refl)
    moreover have "subseq (task_takes receive k e s @ taken_by try_send receive q0 k es ?t @ queued_at items ?u k)
        (task_takes receive k e s @ queued_at items ?t k @ ?F es)"
      unfolding subseq_append' by (rule later)
    ultimately have "subseq (task_takes receive k e s @ taken_by try_send receive q0 k es ?t @ queued_at items ?u k)
        (queued_at items s k @ from_source (mp_src (br_tasks ?u ! k)) (e # es))"
      unfolding from_source_Cons [of _ e es] append.assoc by (rule subseq_trans [rotated])
    then show ?thesis by (simp only: taken_by.simps fold_simps append.assoc)
  next
    case False
    then have "\<not> k < length (br_tasks s)"
      using bridge_turn_tasks [OF Cons.prems(1), of try_send receive q0 e] by linarith
    then have "task_takes receive k e s = []" "queued_at items s k = []"
      by (cases e; simp add: queued_at_def)+
    moreover have "queued_at items ?t k = []" using False by (simp only: queued_at_def if_False)
    moreover have "subseq (from_source a es) (from_source a (e # es))" for a
      unfolding from_source_Cons [of a e es] by (rule subseq_drop_many) (rule subseq_order.refl)
    ultimately have "subseq (task_takes receive k e s @ taken_by try_send receive q0 k es ?t @ queued_at items ?u k)
        (queued_at items s k @ from_source (mp_src (br_tasks ?u ! k)) (e # es))"
      using later by (simp only: append_Nil) (rule subseq_trans)
    then show ?thesis by (simp only: taken_by.simps fold_simps append.assoc)
  qed
qed simp

lemma task_takes_own:
  assumes "bounded_channel try_send receive items cap" "items q0 = []"
    and "s = fold (bridge_turn try_send receive q0) es bridge_start" "k < length (br_tasks s)"
  shows "subseq (taken_by try_send receive q0 k es bridge_start) (from_source (mp_src (br_tasks s ! k)) es)"
proof -
  have "bridge_inv bridge_start" by (simp add: bridge_inv_def bridge_start_def)
  from bridge_run_queue [OF assms(1,2) this, of k es] assms(4)
  have "subseq (taken_by try_send receive q0 k es bridge_start @ queued_at items s k)
      (queued_at items bridge_start k @ from_source (mp_src (br_tasks s ! k)) es)"
    by (simp add: assms(3))
  then have "subseq (taken_by try_send receive q0 k es bridge_start @ queued_at items s k)
      (from_source (mp_src (br_tasks s ! k)) es)"
    by (simp add: queued_at_def bridge_start_def)
  moreover have "subseq (taken_by try_send receive q0 k es bridge_start)
      (taken_by try_send receive q0 k es bridge_start @ queued_at items s k)"
    by (rule prefix_imp_subseq) simp
  ultimately show ?thesis by (rule subseq_trans [rotated])
qed

section \<open>The two tasks of a connection\<close>

text \<open>What a connection's events carry: to the relay, to the server's socket and back, to the engine.\<close>

abbreviation frames :: "(nat \<times> conn_event) list \<Rightarrow> bytes list" where
  "frames es \<equiv> concat (map (\<lambda>te. frame_of (snd te)) es)"

abbreviation datagrams :: "(nat \<times> client_event) list \<Rightarrow> bytes list" where
  "datagrams es \<equiv> concat (map (\<lambda>te. datagram_of (snd te)) es)"

fun answer_of :: "conn_event \<Rightarrow> bytes list" where
  "answer_of (FromUdp (Some d) ok) = [d]"
| "answer_of _ = []"

fun message_of :: "client_event \<Rightarrow> bytes list" where
  "message_of (FromServer (WsMessage (WsBinary b))) = [b]"
| "message_of _ = []"

lemma to_ws_answer: "subseq (to_ws e) (answer_of e)"
  by (cases e rule: to_ws.cases) auto

lemma relay_answers_only:
  "subseq (binaries (pm_ws (relay_conn es now))) (concat (map (\<lambda>te. answer_of (snd te)) es))"
proof -
  have "\<exists>ys. binaries (pm_ws (running_turn te s)) = binaries (pm_ws s) @ ys \<and> subseq ys (answer_of (snd te))" for te s
    by (simp add: running_turn_def relay_conn_turn_spec to_ws_answer)
  then have "\<exists>ys. binaries (pm_ws (fold running_turn es (pump_start now))) = binaries (pm_ws (pump_start now)) @ ys \<and>
      subseq ys (concat (map (\<lambda>te. answer_of (snd te)) es))"
    by (rule fold_subseq [where out = "\<lambda>s. binaries (pm_ws s)"])
  then show ?thesis by (auto simp: relay_conn_def Let_def relay_conn_run_fold)
qed

lemma bridge_answers_only:
  "subseq (ct_to_peer (client_run es (client_start now))) (concat (map (\<lambda>te. message_of (snd te)) es))"
proof -
  have turn: "\<exists>ys. ct_to_peer ((\<lambda>(now, e). client_turn now e) te s) = ct_to_peer s @ ys \<and> subseq ys (message_of (snd te))" for te s
  proof (cases te)
    case (Pair now e)
    then show ?thesis
      by (induction now e s rule: client_turn.induct)
        (auto simp: retry_def Let_def split: option.split ws_read.split ws_message.split)
  qed
  have "\<exists>ys. ct_to_peer (fold (\<lambda>(now, e). client_turn now e) es (client_start now)) = ct_to_peer (client_start now) @ ys \<and>
      subseq ys (concat (map (\<lambda>te. message_of (snd te)) es))"
    by (rule fold_subseq) (rule turn)
  then show ?thesis by (auto simp: client_run_fold client_start_def)
qed

section \<open>Properties\<close>

text \<open>
  C8: the tunnel works through the relay. A burst of the uplink goes, over loopback, to the bridge and there to the task of
  the engine's socket; the task writes what it takes off its queue to the WebSocket; the relay hands the frames that
  reach it on one connection to the server's socket. Whatever is lost at each hop, what survives is the burst's datagrams
  at some positions \<open>I\<close>, and the server queues for its TCP/IP stack exactly the admitted ones of the packets at those same
  positions, each unchanged and in order, and answers to the relay's socket.
\<close>

theorem packets_cross_the_relay:
  assumes "in_session B idx S" "bounded_channel try_send receive items QUEUE"
    and "en_uplink e" "wg_peers (en_wg e) = [pc]" "\<forall>p \<in> set (en_from_tun e). is_v6 p \<or> whole_v4 p"
    and "idx < length (wg_peers (sv_wg sv))" "S (peer_tunn pc) (tunn_at (sv_wg sv) idx) []"
    and "length (items (sv_to_stack sv)) + length (en_from_tun e) \<le> QUEUE"
    and "engine_run B (replicate (length (en_from_tun e)) Uplink) e = Some (e', fx)"
    and "bounded_channel bsend brecv bitems CHANNEL" "bitems q0 = []"
    and "br = fold (bridge_turn bsend brecv q0) bes bridge_start" "k < length (br_tasks br)"
    and "subseq (from_source (mp_src (br_tasks br ! k)) bes) (fx_sent fx)"
    and "prefix (datagrams ces) (taken_by bsend brecv q0 k bes bridge_start)"
    and "subseq (frames res) (ct_to_ws (client_run ces (client_start t0)))"
    and "subseq ds (pm_udp (relay_conn res t1))"
  shows "\<exists>sv' sent. server_takes L E B try_send from ds sv = Some (sv', sent) \<and>
     length (fx_sent fx) = length (filter (\<lambda>p. \<not> is_v6 p) (en_from_tun e)) \<and> (\<exists>I. ds = nths (fx_sent fx) I) \<and>
     (\<forall>I. ds = nths (fx_sent fx) I \<longrightarrow> items (sv_to_stack sv') = items (sv_to_stack sv) @
       filter (admitted L B (sv_net sv) (sv_allow_private sv) (sv_allowed sv) idx)
         (nths (filter (\<lambda>p. \<not> is_v6 p) (en_from_tun e)) I)) \<and>
     (ds \<noteq> [] \<longrightarrow> endpoint (sv_wg sv') idx = Some from)"
proof -
  have "subseq ds (frames res)" using assms(17) relay_loses_only by (rule subseq_trans)
  also note assms(16)
  also have "subseq (ct_to_ws (client_run ces (client_start t0))) (datagrams ces)"
    using bridge_loses_only [of ces "client_start t0"] by (auto simp: client_start_def)
  also have "subseq \<dots> (taken_by bsend brecv q0 k bes bridge_start)" using assms(15) by (rule prefix_imp_subseq)
  also have "subseq \<dots> (from_source (mp_src (br_tasks br ! k)) bes)" by (rule task_takes_own [OF assms(10-13)])
  also note assms(14)
  finally obtain I where ds: "ds = nths (fx_sent fx) I" unfolding subseq_conv_nths by blast
  have all: "length (fx_sent fx) = length (filter (\<lambda>p. \<not> is_v6 p) (en_from_tun e)) \<and>
      (\<exists>sv' sent. server_takes L E B try_send from ds sv = Some (sv', sent) \<and>
        items (sv_to_stack sv') = items (sv_to_stack sv) @
          filter (admitted L B (sv_net sv) (sv_allow_private sv) (sv_allowed sv) idx)
            (nths (filter (\<lambda>p. \<not> is_v6 p) (en_from_tun e)) J) \<and>
        (ds \<noteq> [] \<longrightarrow> endpoint (sv_wg sv') idx = Some from))"
    if "ds = nths (fx_sent fx) J" for J
    using burst_crosses [OF assms(1-8), of L E "from" J] assms(9) that by auto
  obtain sv' sent where takes: "server_takes L E B try_send from ds sv = Some (sv', sent)"
    "ds \<noteq> [] \<longrightarrow> endpoint (sv_wg sv') idx = Some from"
    using all [OF ds] by blast
  have "items (sv_to_stack sv') = items (sv_to_stack sv) @
      filter (admitted L B (sv_net sv) (sv_allow_private sv) (sv_allowed sv) idx)
        (nths (filter (\<lambda>p. \<not> is_v6 p) (en_from_tun e)) J)" if "ds = nths (fx_sent fx) J" for J
    using all [OF that] takes(1) by auto
  with takes all [OF ds] ds show ?thesis by blast
qed

text \<open>
  C9: and back. What the server sends to the relay's socket comes, as far as it survives, through one connection and the
  task's socket to the engine: what survives is the datagrams at some positions \<open>I\<close>, and the engine queues for its
  device exactly the packets at those same positions, each unchanged and in order.
\<close>

theorem packets_return_through_the_relay:
  assumes "in_session B 0 S" "idx < length (wg_peers (sv_wg sv))" "endpoint (sv_wg sv) idx = Some ep"
    and "\<forall>q \<in> set qs. whole_v4 q \<and> (\<exists>dst. dst_address B q = Some dst \<and> peer_for L (sv_allowed sv) dst = Some idx)"
    and "en_net e" "en_writer e" "wg_peers (en_wg e) \<noteq> []" "S (tunn_at (sv_wg sv) idx) (tunn_at (en_wg e) 0) []"
    and "server_sends L B qs sv = (sv', sent)"
    and "subseq (concat (map (\<lambda>te. answer_of (snd te)) res)) (map fst sent)"
    and "subseq (concat (map (\<lambda>te. message_of (snd te)) ces)) (binaries (pm_ws (relay_conn res t1)))"
    and "subseq ds (ct_to_peer (client_run ces (client_start t0)))"
  shows "\<exists>e' fx. length sent = length qs \<and> list_all (\<lambda>(d, a). a = ep) sent \<and>
     engine_run B (map sock_recv ds) e = Some (e', fx) \<and> fx_sent fx = [] \<and> (\<exists>I. ds = nths (map fst sent) I) \<and>
     (\<forall>I. ds = nths (map fst sent) I \<longrightarrow> en_to_tun e' = en_to_tun e @ nths qs I)"
proof -
  have "subseq ds (concat (map (\<lambda>te. message_of (snd te)) ces))"
    using assms(12) bridge_answers_only by (rule subseq_trans)
  also note assms(11)
  also have "subseq (binaries (pm_ws (relay_conn res t1))) (concat (map (\<lambda>te. answer_of (snd te)) res))"
    by (rule relay_answers_only)
  also note assms(10)
  finally obtain I where ds: "ds = nths (map fst sent) I" unfolding subseq_conv_nths by blast
  have all: "length sent = length qs \<and> list_all (\<lambda>(d, a). a = ep) sent \<and>
      (\<exists>e' fx. engine_run B (map sock_recv ds) e = Some (e', fx) \<and> en_to_tun e' = en_to_tun e @ nths qs J \<and> fx_sent fx = [])"
    if "ds = nths (map fst sent) J" for J
    using answers_return [OF assms(1-8), of J] assms(9) that by auto
  obtain e' fx where run: "engine_run B (map sock_recv ds) e = Some (e', fx)" "fx_sent fx = []" using all [OF ds] by blast
  have "en_to_tun e' = en_to_tun e @ nths qs J" if "ds = nths (map fst sent) J" for J
    using all [OF that] run(1) by auto
  with run all [OF ds] ds show ?thesis by blast
qed

section \<open>Examples\<close>

abbreviation ex_datagram :: bytes where
  "ex_datagram \<equiv> [4, 0, 0, 0, 0] @ ex_packet"

abbreviation ex_engine_sock :: socket_addr where
  "ex_engine_sock \<equiv> sock (V4 0x7F000001) 40000"

abbreviation ex_bridge_events :: "bridge_event list" where
  "ex_bridge_events \<equiv> [Datagram ex_datagram ex_engine_sock, TaskTakes 0]"

lemma ex_bridge:
  "taken_by (list_send CHANNEL) list_receive [] 0 ex_bridge_events bridge_start = [ex_datagram]"
  "fold (bridge_turn (list_send CHANNEL) list_receive []) ex_bridge_events bridge_start =
     \<lparr>br_peers = [ex_engine_sock \<mapsto> 0], br_tasks = [\<lparr>mp_src = ex_engine_sock, mp_queue = [], mp_closed = False\<rparr>]\<rparr>"
  by (simp_all add: bridge_start_def open_mapping_def list_send_def CHANNEL_def send_or_drop_def)

lemma ex_uplink_run:
  "\<exists>e' fx. engine_run clear_boringtun (replicate (length (en_from_tun ex_client)) Uplink) ex_client = Some (e', fx) \<and>
     fx_sent fx = [ex_datagram]"
  by (simp add: ex_client_def sample_engine_def uplink_task_def encapsulate_def clear_boringtun_def ex_packets_whole
      numeral_2_eq_2 Let_def)

lemma ex_hops:
  "pm_udp (relay_conn [(2, FromWs (WsMessage (WsBinary ex_datagram)))] 0) = [ex_datagram]"
  "ct_to_ws (client_run [(0, Dialled True), (1, FromSource (Some ex_datagram) True)] (client_start 0)) = [ex_datagram]"
  by (simp_all add: relay_conn_def pump_start_def MAX_DATAGRAM_def ex_packet_def client_start_def Let_def)

theorem packets_cross_the_relay_witness:
  "\<exists>sv' sent. server_takes cidr_lib ex_etherparse clear_boringtun (list_send QUEUE) (sock (V4 0x7F000001) 50000)
     [ex_datagram] ex_server = Some (sv', sent) \<and> sv_to_stack sv' = [ex_packet]"
proof -
  obtain pc where pc: "wg_peers (en_wg ex_client) = [pc]" using ex_client_sel(4) by blast
  have whole: "\<forall>p \<in> set (en_from_tun ex_client). is_v6 p \<or> whole_v4 p"
    using ex_packets_whole by (simp add: ex_client_sel)
  have idx: "0 < length (wg_peers (sv_wg ex_server))" by (simp add: ex_server_def ex_wg_value)
  have room: "length (id (sv_to_stack ex_server)) + length (en_from_tun ex_client) \<le> QUEUE"
    by (simp add: ex_server_def ex_client_sel QUEUE_def)
  have live: "clear_session (peer_tunn pc) (tunn_at (sv_wg ex_server) 0) []" by (simp add: clear_session_def)
  obtain e' fx where run: "engine_run clear_boringtun (replicate (length (en_from_tun ex_client)) Uplink) ex_client = Some (e', fx)"
    "fx_sent fx = [ex_datagram]" using ex_uplink_run by blast
  have task: "0 < length (br_tasks (fold (bridge_turn (list_send CHANNEL) list_receive []) ex_bridge_events bridge_start))"
    by (simp only: ex_bridge) simp
  have loop: "subseq (from_source (mp_src (br_tasks (fold (bridge_turn (list_send CHANNEL) list_receive []) ex_bridge_events
      bridge_start) ! 0)) ex_bridge_events) (fx_sent fx)"
    by (simp only: ex_bridge run) simp
  have takes: "prefix (datagrams [(0, Dialled True), (1, FromSource (Some ex_datagram) True)])
      (taken_by (list_send CHANNEL) list_receive [] 0 ex_bridge_events bridge_start)"
    by (simp only: ex_bridge) simp
  have conn: "subseq (frames [(2, FromWs (WsMessage (WsBinary ex_datagram)))])
      (ct_to_ws (client_run [(0, Dialled True), (1, FromSource (Some ex_datagram) True)] (client_start 0)))"
    by (simp only: ex_hops) simp
  have out: "subseq [ex_datagram] (pm_udp (relay_conn [(2, FromWs (WsMessage (WsBinary ex_datagram)))] 0))"
    by (simp only: ex_hops subseq_order.refl)
  obtain sv' sent where sv': "server_takes cidr_lib ex_etherparse clear_boringtun (list_send QUEUE) (sock (V4 0x7F000001) 50000)
      [ex_datagram] ex_server = Some (sv', sent)"
    "\<forall>I. [ex_datagram] = nths (fx_sent fx) I \<longrightarrow> id (sv_to_stack sv') = id (sv_to_stack ex_server) @
       filter (admitted cidr_lib clear_boringtun (sv_net ex_server) (sv_allow_private ex_server) (sv_allowed ex_server) 0)
         (nths (filter (\<lambda>p. \<not> is_v6 p) (en_from_tun ex_client)) I)"
    using packets_cross_the_relay [OF clear_in_session list_channel.bounded_channel_axioms ex_client_sel(1) pc whole idx live room
      run(1) list_channel.bounded_channel_axioms id_apply refl task loop takes conn out] by blast
  have "[ex_datagram] = nths (fx_sent fx) {0}" by (simp only: run(2) nths_singleton) simp
  moreover have "nths (filter (\<lambda>p. \<not> is_v6 p) (en_from_tun ex_client)) {0} = [ex_packet]"
    using ex_packets_whole by (simp add: ex_client_sel)
  ultimately show ?thesis using sv' ex_packet_admitted by (auto simp: ex_server_def)
qed

abbreviation ex_answer :: bytes where
  "ex_answer \<equiv> [4, 0, 0, 0, 0] @ ex_reply"

lemma ex_answer_sent:
  "\<exists>sv'. server_sends cidr_lib clear_boringtun [ex_reply] ex_met_server = (sv', [(ex_answer, sock (V4 7) 9)])"
proof -
  obtain sv' sent where s: "server_sends cidr_lib clear_boringtun [ex_reply] ex_met_server = (sv', sent)" by fastforce
  obtain fl where "sent = map (\<lambda>x. (fst x, sock (V4 7) 9)) fl" "map snd fl = [ex_reply]"
      "clear_session (tunn_at (sv_wg sv') 1) (tunn_at (en_wg ex_client) 0) ([] @ fl)"
    using server_sends_session [OF clear_in_session ex_return(5,1,2,3)] s by (metis prod.inject)
  then have "sent = [(ex_answer, sock (V4 7) 9)]" by (auto simp: clear_session_def)
  with s show ?thesis by blast
qed

theorem packets_return_through_the_relay_witness:
  "\<exists>e' fx. engine_run clear_boringtun (map sock_recv [ex_answer]) ex_client = Some (e', fx) \<and> en_to_tun e' = [ex_reply]"
proof -
  obtain sv' where sent: "server_sends cidr_lib clear_boringtun [ex_reply] ex_met_server = (sv', [(ex_answer, sock (V4 7) 9)])"
    using ex_answer_sent by blast
  have hops:
    "subseq (concat (map (\<lambda>te. answer_of (snd te)) [(2, FromUdp (Some ex_answer) True)])) (map fst [(ex_answer, sock (V4 7) 9)])"
    "subseq (concat (map (\<lambda>te. message_of (snd te)) [(3, Dialled True), (4, FromServer (WsMessage (WsBinary ex_answer)))]))
       (binaries (pm_ws (relay_conn [(2, FromUdp (Some ex_answer) True)] 0)))"
    "subseq [ex_answer]
       (ct_to_peer (client_run [(3, Dialled True), (4, FromServer (WsMessage (WsBinary ex_answer)))] (client_start 0)))"
    by (simp_all add: relay_conn_def pump_start_def client_start_def Let_def)
  obtain e' fx where e': "engine_run clear_boringtun (map sock_recv [ex_answer]) ex_client = Some (e', fx)"
    "\<forall>I. [ex_answer] = nths (map fst [(ex_answer, sock (V4 7) 9)]) I \<longrightarrow> en_to_tun e' = en_to_tun ex_client @ nths [ex_reply] I"
    using packets_return_through_the_relay [OF clear_in_session ex_return(1-3) ex_client_sel(2,3) ex_return(4,5) sent hops] by blast
  have "[ex_answer] = nths (map fst [(ex_answer, sock (V4 7) 9)]) {0}" by simp
  with e' show ?thesis by (simp add: ex_client_sel del: list.map)
qed

end
