(* ===== verification/Client_Device.thy ===== *)
theory Client_Device
  imports Client_Engine
begin

text \<open>
  \<open>crates/wgclient/src/lib.rs\<close>, the trait \<open>Tun\<close> between the engine and a packet device: what the engine's two
  device threads rely on as the locale \<open>tun_device\<close>, the engine run over a device, and the module \<open>win\<close>'s
  \<open>Device\<close> over a Wintun session. Wintun is an argument.
\<close>

section \<open>The interface\<close>

datatype io_error = IoOther | InvalidInput | BrokenPipe

text \<open>The answer of a call; a panic ends the calling thread, as an error does here.\<close>

datatype 'a io_result = IoOk 'a | IoErr io_error | IoPanic

fun io_ok :: "'a io_result \<Rightarrow> 'a option" where
  "io_ok (IoOk x) = Some x"
| "io_ok _ = None"

text \<open>
  \<open>recv cap d\<close> reads into a buffer of \<open>cap\<close> bytes and is \<open>None\<close> while it blocks. A device has packets on their way in
  and out; a call that fails may drop what it was about to read, and puts nothing out.
\<close>

locale tun_device =
  fixes recv :: "nat \<Rightarrow> 'd \<Rightarrow> (bytes io_result \<times> 'd) option"
    and send :: "bytes \<Rightarrow> 'd \<Rightarrow> unit io_result \<times> 'd"
    and incoming :: "'d \<Rightarrow> bytes list"
    and outgoing :: "'d \<Rightarrow> bytes list"
  assumes recv_Ok: "recv cap d = Some (IoOk p, d') \<Longrightarrow> incoming d = p # incoming d' \<and> length p \<le> cap"
    and recv_fails: "recv cap d = Some (r, d') \<Longrightarrow> \<exists>dropped. incoming d = dropped @ incoming d'"
    and recv_outgoing: "recv cap d = Some (r, d') \<Longrightarrow> outgoing d' = outgoing d"
    and send_Ok: "send p d = (IoOk (), d') \<Longrightarrow> outgoing d' = outgoing d @ [p]"
    and send_fails: "send p d = (a, d') \<Longrightarrow> a \<noteq> IoOk () \<Longrightarrow> outgoing d' = outgoing d"
    and send_incoming: "send p d = (a, d') \<Longrightarrow> incoming d' = incoming d"

section \<open>The engine over a device\<close>

text \<open>
  The device threads make the calls; a turn of the read thread that blocks changes nothing. The other tasks
  turn as they do without a device.
\<close>

datatype device_event = DevRecv | DevSend | Inner engine_event

fun inner_event :: "engine_event \<Rightarrow> bool" where
  "inner_event (TunRecv r) = False"
| "inner_event (TunSent ok) = False"
| "inner_event _ = True"

definition recv_turn ::
  "(nat \<Rightarrow> 'd \<Rightarrow> (bytes io_result \<times> 'd) option) \<Rightarrow> 'd \<Rightarrow> ('t, 'l) engine \<Rightarrow> 'd \<times> ('t, 'l) engine" where
  "recv_turn recv d e =
     (if \<not> en_reader e then (d, e)
      else (case recv MAX_PACKET d of
          None \<Rightarrow> (d, e)
        | Some (r, d') \<Rightarrow> (d', tun_reader (io_ok r) e)))"

definition send_turn ::
  "(bytes \<Rightarrow> 'd \<Rightarrow> unit io_result \<times> 'd) \<Rightarrow> 'd \<Rightarrow> ('t, 'l) engine \<Rightarrow> 'd \<times> ('t, 'l) engine \<times> effects" where
  "send_turn send d e =
     (if \<not> en_writer e \<or> en_to_tun e = [] then (d, tun_writer True e)
      else (let (r, d') = send (hd (en_to_tun e)) d in (d', tun_writer (r = IoOk ()) e)))"

fun device_turn ::
  "(nat \<Rightarrow> 'd \<Rightarrow> (bytes io_result \<times> 'd) option) \<Rightarrow> (bytes \<Rightarrow> 'd \<Rightarrow> unit io_result \<times> 'd)
    \<Rightarrow> ('t, 'l, 'i) boringtun_lib \<Rightarrow> device_event \<Rightarrow> 'd \<times> ('t, 'l) engine \<Rightarrow> ('d \<times> ('t, 'l) engine \<times> effects) option" where
  "device_turn recv send B DevRecv (d, e) = (let (d', e') = recv_turn recv d e in Some (d', e', no_effects))"
| "device_turn recv send B DevSend (d, e) = Some (send_turn send d e)"
| "device_turn recv send B (Inner ev) (d, e) =
     (if inner_event ev then map_option (\<lambda>(e', fx). (d, e', fx)) (engine_turn B ev e) else Some (d, e, no_effects))"

fun device_run ::
  "(nat \<Rightarrow> 'd \<Rightarrow> (bytes io_result \<times> 'd) option) \<Rightarrow> (bytes \<Rightarrow> 'd \<Rightarrow> unit io_result \<times> 'd)
    \<Rightarrow> ('t, 'l, 'i) boringtun_lib \<Rightarrow> device_event list \<Rightarrow> 'd \<times> ('t, 'l) engine \<Rightarrow> ('d \<times> ('t, 'l) engine \<times> effects) option" where
  "device_run recv send B [] (d, e) = Some (d, e, no_effects)"
| "device_run recv send B (ev # evs) (d, e) =
     (case device_turn recv send B ev (d, e) of
        None \<Rightarrow> None
      | Some (d', e', fx) \<Rightarrow>
          map_option (\<lambda>(d'', e'', fx'). (d'', e'', add_effects fx fx')) (device_run recv send B evs (d', e')))"

lemma device_run_Cons:
  "device_run recv send B (ev # evs) (d, e) = Some (d'', e'', fx) \<longleftrightarrow>
     (\<exists>d' e' fx1 fx2. device_turn recv send B ev (d, e) = Some (d', e', fx1) \<and>
        device_run recv send B evs (d', e') = Some (d'', e'', fx2) \<and> fx = add_effects fx1 fx2)"
  by (auto split: option.splits)

text \<open>What the read thread got out of the device in the turns of a run.\<close>

fun reads :: "('t, 'l) engine \<Rightarrow> engine_event \<Rightarrow> bytes list" where
  "reads e (TunRecv (Some p)) = (if en_reader e then [p] else [])"
| "reads e _ = []"

lemma reader_off_turn:
  "engine_turn B ev e = Some (e', fx) \<Longrightarrow> \<not> en_reader e \<Longrightarrow> \<not> en_reader e' \<and> reads e ev = [] \<and> accepted_reads e ev = []"
  by (cases "(e, ev)" rule: accepted_reads.cases) (auto simp: task_defs Let_def split: turn_splits)

lemma reads_off_run:
  "\<not> en_reader e \<Longrightarrow> engine_run B evs e = Some (e', fx) \<Longrightarrow> \<not> en_reader e' \<and> trace B reads evs e = []"
proof (induction evs arbitrary: e fx)
  case (Cons ev evs)
  then obtain e1 fx1 fx2 where turn: "engine_turn B ev e = Some (e1, fx1)" and run: "engine_run B evs e1 = Some (e', fx2)"
    unfolding engine_run_Cons by blast
  from reader_off_turn [OF turn Cons.prems(1)] Cons.IH [OF _ run] turn show ?case by simp
qed simp

text \<open>With the uplink still running at the end, every non-empty packet read was handed on to it.\<close>

lemma reads_accepted:
  assumes "engine_run B evs e = Some (e', fx)" "en_uplink e'"
  shows "trace B accepted_reads evs e = filter (\<lambda>p. p \<noteq> []) (trace B reads evs e)"
  using assms(1)
proof (induction evs arbitrary: e fx)
  case (Cons ev evs)
  then obtain e1 fx1 fx2 where turn: "engine_turn B ev e = Some (e1, fx1)"
    and run: "engine_run B evs e1 = Some (e', fx2)"
    unfolding engine_run_Cons by blast
  have "en_uplink e1" using run_uplink [OF run assms(2)] by blast
  then have "accepted_reads e ev = filter (\<lambda>p. p \<noteq> []) (reads e ev)"
    using turn_uplink [OF turn] by (cases "(e, ev)" rule: accepted_reads.cases) auto
  with Cons.IH [OF run] turn show ?case by simp
qed simp

context tun_device begin

lemma recv_turn_engine:
  assumes "recv_turn recv d e = (d', e')"
  shows "outgoing d' = outgoing d \<and> (d' = d \<and> e' = e \<or>
     (\<exists>r. engine_turn B (TunRecv r) e = Some (e', no_effects) \<and>
        (\<exists>dropped. incoming d = reads e (TunRecv r) @ dropped @ incoming d' \<and> (dropped = [] \<or> \<not> en_reader e'))))"
proof (cases "en_reader e \<and> recv MAX_PACKET d \<noteq> None")
  case False
  then show ?thesis using assms by (auto simp: recv_turn_def split: if_splits option.splits)
next
  case True
  then obtain r where r: "recv MAX_PACKET d = Some (r, d')" and e': "e' = tun_reader (io_ok r) e"
    using assms by (auto simp: recv_turn_def)
  show ?thesis
  proof (cases "io_ok r")
    case None
    then have "\<not> en_reader e'" by (simp add: e' tun_reader_def)
    with None r recv_fails [OF r] recv_outgoing [OF r] show ?thesis
      by (intro conjI disjI2 exI [of _ None]) (auto simp: e')
  next
    case (Some p)
    then have "r = IoOk p" by (cases r) auto
    with r recv_Ok [of MAX_PACKET d p d'] recv_outgoing [OF r] True show ?thesis
      by (intro conjI disjI2 exI [of _ "Some p"]) (auto simp: e')
  qed
qed

lemma send_turn_engine:
  assumes "send_turn send d e = (d', e', fx)"
  shows "incoming d' = incoming d \<and> outgoing d' = outgoing d @ fx_written fx \<and>
     (\<exists>accepted. engine_turn B (TunSent accepted) e = Some (e', fx))"
proof (cases "\<not> en_writer e \<or> en_to_tun e = []")
  case True
  then show ?thesis using assms
    by (auto simp: send_turn_def tun_writer_def split: list.splits if_splits)
next
  case False
  then obtain p ps where e: "en_to_tun e = p # ps" "en_writer e" by (cases "en_to_tun e") auto
  obtain r where r: "send p d = (r, d')" and w: "tun_writer (r = IoOk ()) e = (e', fx)"
    using assms e by (auto simp: send_turn_def split: prod.splits)
  have "outgoing d' = outgoing d @ fx_written fx"
    using send_Ok [of p d d'] send_fails [OF r] r w e by (cases "r = IoOk ()") (auto simp: tun_writer_def)
  with send_incoming [OF r] w show ?thesis by auto
qed

lemma device_turn_engine:
  assumes "device_turn recv send B ev (d, e) = Some (d', e', fx)"
  shows "d' = d \<and> e' = e \<and> fx = no_effects \<and> ev \<noteq> DevSend \<or>
     (\<exists>x dropped. engine_turn B x e = Some (e', fx) \<and> is_write x = (ev = DevSend) \<and>
        outgoing d' = outgoing d @ fx_written fx \<and>
        incoming d = reads e x @ dropped @ incoming d' \<and> (dropped = [] \<or> \<not> en_reader e'))"
proof (cases ev)
  case DevRecv
  with assms have turn: "recv_turn recv d e = (d', e')" and fx: "fx = no_effects" by (auto split: prod.splits)
  from recv_turn_engine [OF turn, of B] consider "d' = d" "e' = e"
    | r dropped where "engine_turn B (TunRecv r) e = Some (e', no_effects)" "outgoing d' = outgoing d"
      "incoming d = reads e (TunRecv r) @ dropped @ incoming d'" "dropped = [] \<or> \<not> en_reader e'"
    by blast
  then show ?thesis
  proof cases
    case 2
    with fx DevRecv show ?thesis by (intro disjI2 exI [of _ "TunRecv r"] exI [of _ dropped]) simp
  qed (use fx DevRecv in simp)
next
  case DevSend
  with assms have "send_turn send d e = (d', e', fx)" by simp
  from send_turn_engine [OF this, of B] obtain accepted where
    "incoming d' = incoming d" "outgoing d' = outgoing d @ fx_written fx" "engine_turn B (TunSent accepted) e = Some (e', fx)"
    by blast
  with DevSend show ?thesis
    by (intro disjI2 exI [of _ "TunSent accepted"] exI [of _ "[]"]) simp
next
  case (Inner x)
  show ?thesis
  proof (cases "inner_event x")
    case True
    with assms Inner have "engine_turn B x e = Some (e', fx)" "d' = d" by (auto split: if_splits)
    moreover from this True have "fx_written fx = [] \<and> reads e x = [] \<and> \<not> is_write x"
      by (cases x) (auto simp: task_defs Let_def split: turn_splits)
    ultimately show ?thesis using Inner by (intro disjI2 exI [of _ x] exI [of _ "[]"]) simp
  qed (use assms Inner in simp)
qed

text \<open>A run over a device is a run of the engine on what the device answered.\<close>

lemma device_run_engine:
  assumes "device_run recv send B evs (d, e) = Some (d', e', fx)"
  shows "\<exists>es. engine_run B es e = Some (e', fx) \<and> outgoing d' = outgoing d @ fx_written fx \<and>
     length (filter is_write es) = count_list evs DevSend \<and>
     (\<exists>dropped. incoming d = trace B reads es e @ dropped @ incoming d' \<and> (dropped = [] \<or> \<not> en_reader e'))"
  using assms
proof (induction evs arbitrary: d e fx)
  case Nil
  then show ?case by (intro exI [of _ "[]"]) auto
next
  case (Cons ev evs)
  then obtain d1 e1 fx1 fx2 where turn: "device_turn recv send B ev (d, e) = Some (d1, e1, fx1)"
    and run: "device_run recv send B evs (d1, e1) = Some (d', e', fx2)" and fx: "fx = add_effects fx1 fx2"
    unfolding device_run_Cons by blast
  obtain es dropped2 where es: "engine_run B es e1 = Some (e', fx2)" "outgoing d' = outgoing d1 @ fx_written fx2"
    "length (filter is_write es) = count_list evs DevSend"
    "incoming d1 = trace B reads es e1 @ dropped2 @ incoming d'" "dropped2 = [] \<or> \<not> en_reader e'"
    using Cons.IH [OF run] by blast
  from device_turn_engine [OF turn] consider "d1 = d" "e1 = e" "fx1 = no_effects" "ev \<noteq> DevSend"
    | x dropped1 where "engine_turn B x e = Some (e1, fx1)" "is_write x = (ev = DevSend)"
      "outgoing d1 = outgoing d @ fx_written fx1" "incoming d = reads e x @ dropped1 @ incoming d1"
      "dropped1 = [] \<or> \<not> en_reader e1"
    by blast
  then show ?case
  proof cases
    case 1
    with es fx show ?thesis by (intro exI [of _ es]) (auto simp: add_effects_def no_effects_def)
  next
    case x: 2
    have "dropped1 = [] \<or> trace B reads es e1 = [] \<and> \<not> en_reader e'"
      using x(5) reads_off_run [OF _ es(1)] by auto
    then have "incoming d = trace B reads (x # es) e @ (dropped1 @ dropped2) @ incoming d' \<and>
      (dropped1 @ dropped2 = [] \<or> \<not> en_reader e')"
      using x(1,4) es(4,5) by auto
    moreover have "engine_run B (x # es) e = Some (e', fx)" "outgoing d' = outgoing d @ fx_written fx"
      "length (filter is_write (x # es)) = count_list (ev # evs) DevSend"
      using x(1,2,3) es(1,2,3) fx by simp_all
    ultimately show ?thesis by blast
  qed
qed

end

section \<open>Wintun\<close>

text \<open>
  A session: a blocking receive, \<open>None\<close> while it blocks; the allocation of a packet to send, of a size given in
  sixteen bits, answered with the size of the buffer; sending an allocated packet; and the shutdown.
\<close>

record 's wintun_lib =
  wt_receive_blocking :: "'s \<Rightarrow> ((unit + bytes) \<times> 's) option"
  wt_allocate_send_packet :: "u16 \<Rightarrow> 's \<Rightarrow> (unit + nat) \<times> 's"
  wt_send_packet :: "bytes \<Rightarrow> 's \<Rightarrow> 's"
  wt_shutdown :: "'s \<Rightarrow> 's"

definition device_recv :: "'s wintun_lib \<Rightarrow> nat \<Rightarrow> 's \<Rightarrow> (bytes io_result \<times> 's) option" where
  "device_recv W cap s =
     (case wt_receive_blocking W s of
        None \<Rightarrow> None
      | Some (Inl _, s') \<Rightarrow> Some (IoErr IoOther, s')
      | Some (Inr packet, s') \<Rightarrow>
          if cap < length packet then Some (IoErr InvalidInput, s') else Some (IoOk packet, s'))"

text \<open>The length is cut to sixteen bits, and the copy panics when the buffer is not as long as the packet.\<close>

definition device_send :: "'s wintun_lib \<Rightarrow> bytes \<Rightarrow> 's \<Rightarrow> unit io_result \<times> 's" where
  "device_send W packet s =
     (case wt_allocate_send_packet W (of_nat (length packet)) s of
        (Inl _, s') \<Rightarrow> (IoErr IoOther, s')
      | (Inr n, s') \<Rightarrow> if n \<noteq> length packet then (IoPanic, s') else (IoOk (), wt_send_packet W packet s'))"

text \<open>
  Wintun's documentation, for the packets \<open>rx\<close> waiting in a session, \<open>tx\<close> sent through it, and whether it is
  shut \<open>down\<close>: receiving takes the first packet or nothing, an allocation has the size asked for and sends
  nothing, and a session that is shut down stays so and no longer blocks its receiver but fails it.
\<close>

definition wintun_documented ::
  "'s wintun_lib \<Rightarrow> ('s \<Rightarrow> bytes list) \<Rightarrow> ('s \<Rightarrow> bytes list) \<Rightarrow> ('s \<Rightarrow> bool) \<Rightarrow> bool" where
  "wintun_documented W rx tx down \<longleftrightarrow>
     (\<forall>s p s'. wt_receive_blocking W s = Some (Inr p, s') \<longrightarrow> rx s = p # rx s' \<and> tx s' = tx s) \<and>
     (\<forall>s u s'. wt_receive_blocking W s = Some (Inl u, s') \<longrightarrow> rx s' = rx s \<and> tx s' = tx s) \<and>
     (\<forall>s n r s'. wt_allocate_send_packet W n s = (r, s') \<longrightarrow>
        rx s' = rx s \<and> tx s' = tx s \<and> down s' = down s \<and> (\<forall>m. r = Inr m \<longrightarrow> m = unat n)) \<and>
     (\<forall>s p. rx (wt_send_packet W p s) = rx s \<and> tx (wt_send_packet W p s) = tx s @ [p] \<and>
        down (wt_send_packet W p s) = down s) \<and>
     (\<forall>s. down (wt_shutdown W s)) \<and>
     (\<forall>s. down s \<longrightarrow> (\<exists>u s'. wt_receive_blocking W s = Some (Inl u, s') \<and> down s'))"

text \<open>A packet boringtun can write fits the sixteen bits: sending it never panics.\<close>

lemma device_send_no_panic:
  assumes "wintun_documented W rx tx down" "length packet \<le> MAX_PACKET"
  shows "fst (device_send W packet s) \<noteq> IoPanic"
proof -
  have "unat (of_nat (length packet) :: u16) = length packet"
    using assms(2) by (simp add: MAX_PACKET_def unsigned_of_nat take_bit_nat_eq_self)
  with assms(1) show ?thesis
    by (auto simp: device_send_def wintun_documented_def split: prod.splits sum.splits)
qed

lemma wintun_receives:
  assumes "wintun_documented W rx tx down" "wt_receive_blocking W s = Some (Inr p, s')"
  shows "rx s = p # rx s' \<and> tx s' = tx s"
proof -
  have "\<forall>s p s'. wt_receive_blocking W s = Some (Inr p, s') \<longrightarrow> rx s = p # rx s' \<and> tx s' = tx s"
    using assms(1) unfolding wintun_documented_def by (rule conjunct1)
  with assms(2) show ?thesis by (elim allE impE)
qed

lemma device_recv_cases:
  assumes "wintun_documented W rx tx down" "device_recv W cap s = Some (r, s')"
  shows "tx s' = tx s \<and> (rx s' = rx s \<and> r = IoErr IoOther \<or>
     (\<exists>p. rx s = p # rx s' \<and> r = (if cap < length p then IoErr InvalidInput else IoOk p)))"
proof -
  obtain q where q: "wt_receive_blocking W s = Some (q, s')"
    using assms(2) by (auto simp: device_recv_def split: option.splits sum.splits if_splits)
  show ?thesis
  proof (cases q)
    case (Inl u)
    with q have "rx s' = rx s \<and> tx s' = tx s" using assms(1) unfolding wintun_documented_def by blast
    with q Inl assms(2) show ?thesis by (simp add: device_recv_def)
  next
    case (Inr p)
    with q have "rx s = p # rx s' \<and> tx s' = tx s" using wintun_receives [OF assms(1)] by simp
    moreover have "r = (if cap < length p then IoErr InvalidInput else IoOk p)"
      using q Inr assms(2) by (auto simp: device_recv_def split: if_splits)
    ultimately show ?thesis by blast
  qed
qed

lemma device_send_cases:
  assumes "wintun_documented W rx tx down" "device_send W p s = (r, s')"
  shows "rx s' = rx s \<and> down s' = down s \<and> tx s' = (if r = IoOk () then tx s @ [p] else tx s)"
proof -
  obtain q t where q: "wt_allocate_send_packet W (of_nat (length p)) s = (q, t)" by fastforce
  with assms(1) have t: "rx t = rx s" "tx t = tx s" "down t = down s"
    unfolding wintun_documented_def by blast+
  have "rx (wt_send_packet W p t) = rx t" "tx (wt_send_packet W p t) = tx t @ [p]" "down (wt_send_packet W p t) = down t"
    using assms(1) unfolding wintun_documented_def by blast+
  with t q assms(2) show ?thesis by (auto simp: device_send_def split: sum.splits if_splits)
qed

lemma device_is_tun:
  assumes "wintun_documented W rx tx down"
  shows "tun_device (device_recv W) (device_send W) rx tx"
proof
  fix cap s r s' assume "device_recv W cap s = Some (r, s')"
  note cases = device_recv_cases [OF assms this]
  show "\<exists>dropped. rx s = dropped @ rx s'" using cases by (metis append_Cons append_Nil)
  show "tx s' = tx s" using cases by blast
next
  fix cap s p s' assume "device_recv W cap s = Some (IoOk p, s')"
  from device_recv_cases [OF assms this] show "rx s = p # rx s' \<and> length p \<le> cap"
    by (auto split: if_splits)
qed (use device_send_cases [OF assms] in auto)

text \<open>Once the session is shut down it stays so, and the next turn of the read thread is its last.\<close>

lemma shut_down_run:
  assumes "wintun_documented W rx tx down" "down d"
    and "device_run (device_recv W) (device_send W) B evs (d, e) = Some (d', e', fx)"
  shows "down d' \<and> (DevRecv \<in> set evs \<longrightarrow> \<not> en_reader e')"
  using assms(2,3)
proof (induction evs arbitrary: d e fx)
  case (Cons ev evs)
  then obtain d1 e1 fx1 fx2 where turn: "device_turn (device_recv W) (device_send W) B ev (d, e) = Some (d1, e1, fx1)"
    and run: "device_run (device_recv W) (device_send W) B evs (d1, e1) = Some (d', e', fx2)"
    unfolding device_run_Cons by blast
  have "\<exists>u s'. wt_receive_blocking W d = Some (Inl u, s') \<and> down s'"
    using assms(1) Cons.prems(1) unfolding wintun_documented_def by meson
  then obtain u s' where "wt_receive_blocking W d = Some (Inl u, s')" "down s'" by blast
  then have shut: "device_recv W MAX_PACKET d = Some (IoErr IoOther, s')" "down s'"
    by (simp_all add: device_recv_def)
  have "down d1 \<and> (ev = DevRecv \<longrightarrow> \<not> en_reader e1)"
  proof (cases ev)
    case DevRecv
    with turn shut Cons.prems(1) show ?thesis
      by (auto simp: recv_turn_def tun_reader_def split: if_splits)
  next
    case DevSend
    with turn Cons.prems(1) show ?thesis
      using device_send_cases [OF assms(1)] by (auto simp: send_turn_def split: if_splits prod.splits)
  next
    case (Inner x)
    with turn Cons.prems(1) show ?thesis by (auto split: if_splits)
  qed
  moreover have "\<not> en_reader e'" if "\<not> en_reader e1"
  proof -
    obtain es where "engine_run B es e1 = Some (e', fx2)"
      using tun_device.device_run_engine [OF device_is_tun [OF assms(1)] run] by blast
    with that show ?thesis using reads_off_run by blast
  qed
  ultimately show ?case using Cons.IH [OF _ run] by auto
qed simp

section \<open>Connecting by name\<close>

text \<open>\<open>Tunnel::connect\<close>: the endpoint is resolved first, and nothing is started when it cannot be.\<close>

definition tunnel_connect ::
  "(string \<Rightarrow> socket_addr list option) \<Rightarrow> (string \<Rightarrow> nat \<Rightarrow> socket_addr list option) \<Rightarrow> key_lib
    \<Rightarrow> ('t, 'l, 'i) boringtun_lib \<Rightarrow> nat \<Rightarrow> 'net client_config \<Rightarrow> socket_addr option \<Rightarrow> bool
    \<Rightarrow> engine_event list \<Rightarrow> (bytes \<Rightarrow> bool) \<Rightarrow> nat \<Rightarrow> (nat \<times> engine_event list) list
    \<Rightarrow> resolve_error + ('t, 'l) connect_outcome option" where
  "tunnel_connect lookup_str lookup_pair K B now cfg bridge sock_ok early sent_ok t0 polls =
     and_then (resolve_endpoint lookup_str lookup_pair (cc_endpoint cfg)) (\<lambda>remote.
       Inr (connect_to K B now cfg remote bridge sock_ok early sent_ok t0 polls))"

text \<open>An engine that is handed out had its endpoint resolved and its handshake completed.\<close>

lemma tunnel_connect_Connected:
  assumes "tunnel_connect lookup_str lookup_pair K B now cfg bridge sock_ok [] sent_ok t0 polls = Inr (Some (Connected c))"
  obtains remote where "resolve_endpoint lookup_str lookup_pair (cc_endpoint cfg) = Inr remote"
    "time_since_last_handshake B (en_wg c) 0 \<noteq> None"
proof -
  obtain remote where remote: "resolve_endpoint lookup_str lookup_pair (cc_endpoint cfg) = Inr remote"
    "connect_to K B now cfg remote bridge sock_ok [] sent_ok t0 polls = Some (Connected c)"
    using assms by (auto simp: tunnel_connect_def and_then_Inr_iff)
  obtain deadline e where "await_handshake B deadline polls e = Some (Connected c)"
    using remote(2) by (auto simp: connect_to_def Let_def split: sum.splits prod.splits option.splits if_splits)
  then have "time_since_last_handshake B (en_wg c) 0 \<noteq> None"
    by (induction B deadline polls e rule: await_handshake.induct) (auto split: if_splits option.splits prod.splits)
  with remote(1) that show ?thesis by blast
qed

section \<open>Properties\<close>

text \<open>
  C10: between the Wintun ring and the tunnel nothing is lost or reordered. However the threads and tasks interleave, as long
  as they run, what was taken off the ring went, empty packets apart, to the uplink in order, and what was decrypted
  went to the ring in order; the rest waits in the two channels.
\<close>

theorem device_lossless:
  assumes "wintun_documented W rx tx down"
    and "device_run (device_recv W) (device_send W) B evs (d, e) = Some (d', e', fx)"
    and "en_reader e'" "en_writer e'" "en_uplink e'"
  shows "\<exists>es ring. engine_run B es e = Some (e', fx) \<and>
     rx d = ring @ rx d' \<and> en_from_tun e @ filter (\<lambda>p. p \<noteq> []) ring = trace B taken es e @ en_from_tun e' \<and>
     tx d' = tx d @ fx_written fx \<and> en_to_tun e @ trace B (decrypted B) es e = fx_written fx @ en_to_tun e'"
proof -
  obtain es where es: "engine_run B es e = Some (e', fx)" "tx d' = tx d @ fx_written fx"
    "rx d = trace B reads es e @ rx d'"
    using tun_device.device_run_engine [OF device_is_tun [OF assms(1)] assms(2)] assms(3) by auto
  with run_downlink [OF es(1) assms(4)] run_uplink [OF es(1) assms(5)] reads_accepted [OF es(1) assms(5)]
  show ?thesis by auto
qed

text \<open>
  C11: disconnecting leaves no thread behind. After \<open>close\<close> and the shutdown of the session that dropping the
  adapter ends with, the read thread ends with its next turn, though no packet may ever come, and the write
  thread once its queue is drained; no datagram leaves and no session is touched.
\<close>

theorem disconnect_frees_the_device:
  assumes "wintun_documented W rx tx down"
    and "device_run (device_recv W) (device_send W) B evs (wt_shutdown W d, close e) = Some (d', e', fx)"
    and "DevRecv \<in> set evs" "length (en_to_tun e) < count_list evs DevSend"
  shows "\<not> en_reader e' \<and> \<not> en_writer e' \<and> fx_sent fx = [] \<and> en_wg e' = en_wg e"
proof -
  have "down (wt_shutdown W d)" using assms(1) by (simp add: wintun_documented_def)
  from shut_down_run [OF assms(1) this assms(2)] assms(3) have "\<not> en_reader e'" by blast
  moreover obtain es where es: "engine_run B es (close e) = Some (e', fx)"
    "length (filter is_write es) = count_list evs DevSend"
    using tun_device.device_run_engine [OF device_is_tun [OF assms(1)] assms(2)] by blast
  moreover have "wound_down (close e)" by (simp add: wound_down_def close_def abort_tasks_def)
  ultimately show ?thesis
    using wound_down_run [OF _ es(1)] close_drains [of e] assms(4) by (auto simp: drain_left_def split: if_splits)
qed

section \<open>Examples\<close>

text \<open>A session as two queues and whether it is shut down.\<close>

fun ring_receive :: "bytes list \<times> bytes list \<times> bool \<Rightarrow> ((unit + bytes) \<times> bytes list \<times> bytes list \<times> bool) option" where
  "ring_receive (ins, outs, dn) =
     (if dn then Some (Inl (), ins, outs, dn)
      else (case ins of [] \<Rightarrow> None | p # ps \<Rightarrow> Some (Inr p, ps, outs, dn)))"

definition ring_wintun :: "(bytes list \<times> bytes list \<times> bool) wintun_lib" where
  "ring_wintun =
     \<lparr>wt_receive_blocking = ring_receive, wt_allocate_send_packet = (\<lambda>n s. (Inr (unat n), s)),
      wt_send_packet = (\<lambda>p (ins, outs, dn). (ins, outs @ [p], dn)), wt_shutdown = (\<lambda>(ins, outs, dn). (ins, outs, True))\<rparr>"

lemma ring_documented: "wintun_documented ring_wintun fst (fst \<circ> snd) (snd \<circ> snd)"
  by (auto simp: wintun_documented_def ring_wintun_def split: if_splits list.splits)

interpretation ring_device: tun_device "device_recv ring_wintun" "device_send ring_wintun" fst "fst \<circ> snd"
  by (rule device_is_tun [OF ring_documented])

abbreviation ring_recv :: "nat \<Rightarrow> bytes list \<times> bytes list \<times> bool \<Rightarrow> (bytes io_result \<times> bytes list \<times> bytes list \<times> bool) option" where
  "ring_recv \<equiv> device_recv ring_wintun"

abbreviation ring_send :: "bytes \<Rightarrow> bytes list \<times> bytes list \<times> bool \<Rightarrow> unit io_result \<times> bytes list \<times> bytes list \<times> bool" where
  "ring_send \<equiv> device_send ring_wintun"

lemmas ring_defs = device_recv_def device_send_def ring_wintun_def recv_turn_def send_turn_def tun_reader_def tun_writer_def

lemma ring_run:
  "device_run ring_recv ring_send tracing_boringtun [DevRecv, DevRecv, Inner Uplink, DevSend]
     (([[0x45], [0x60], [0x46]], [], False), sample_engine\<lparr>en_to_tun := [[7]]\<rparr>) =
   Some (([[0x46]], [[7]], False), sample_engine\<lparr>en_from_tun := [[0x60]], en_tx := 2\<rparr>,
     \<lparr>fx_sent = [[4, 0x45]], fx_written = [[7]]\<rparr>)"
  by (simp add: ring_defs MAX_PACKET_def sample_engine_def uplink_task_def is_v6_def encapsulate_def tracing_boringtun_def
      count_sent_def no_effects_def add_effects_def)

theorem device_lossless_witness:
  "\<exists>es ring. fst ([[0x45], [0x60], [0x46 :: u8]], [] :: bytes list, False) = ring @ [[0x46]] \<and>
     filter (\<lambda>p. p \<noteq> []) ring = trace tracing_boringtun taken es (sample_engine\<lparr>en_to_tun := [[7]]\<rparr>) @ [[0x60]]"
proof -
  have "en_reader (sample_engine\<lparr>en_from_tun := [[0x60]], en_tx := 2\<rparr>)"
    "en_writer (sample_engine\<lparr>en_from_tun := [[0x60]], en_tx := 2\<rparr>)"
    "en_uplink (sample_engine\<lparr>en_from_tun := [[0x60]], en_tx := 2\<rparr>)"
    by (simp_all add: sample_engine_def)
  from device_lossless [OF ring_documented ring_run this] show ?thesis
    by (auto simp: sample_engine_def)
qed

theorem disconnect_frees_the_device_witness:
  "\<exists>d' e' fx. device_run ring_recv ring_send tracing_boringtun [DevSend, DevRecv, DevSend]
      (wt_shutdown ring_wintun ([], [], False), close (sample_engine\<lparr>en_to_tun := [[7]]\<rparr>)) = Some (d', e', fx) \<and>
     \<not> en_reader e' \<and> \<not> en_writer e'"
proof -
  obtain d' e' fx where run: "device_run ring_recv ring_send tracing_boringtun [DevSend, DevRecv, DevSend]
      (wt_shutdown ring_wintun ([], [], False), close (sample_engine\<lparr>en_to_tun := [[7]]\<rparr>)) = Some (d', e', fx)"
    by (simp add: ring_defs MAX_PACKET_def sample_engine_def close_def abort_tasks_def)
  have "\<not> en_reader e' \<and> \<not> en_writer e'"
    using disconnect_frees_the_device [OF ring_documented run] by (simp add: sample_engine_def)
  with run show ?thesis by blast
qed

end
