(* ===== verification/Probe.thy ===== *)
theory Probe
  imports Client_Device Net_Packets
begin

text \<open>
  \<open>crates/wgclient/examples/probe.rs\<close>: the program that connects through a configuration file, sends a DNS query,
  an NTP request and, on demand, a burst of NTP requests through the tunnel, and reports what came back. Its packet
  device \<open>MockTun\<close> is a pair of channels.
\<close>

section \<open>The device\<close>

text \<open>The two channels of the standard library, and whether their other ends are still there.\<close>

record mock_tun =
  mt_up :: "bytes list"
  mt_up_open :: bool
  mt_down :: "bytes list"
  mt_down_open :: bool

definition mock_recv :: "nat \<Rightarrow> mock_tun \<Rightarrow> (bytes io_result \<times> mock_tun) option" where
  "mock_recv cap m =
     (case mt_up m of
        [] \<Rightarrow> if mt_up_open m then None else Some (IoErr BrokenPipe, m)
      | p # ps \<Rightarrow> Some (if cap < length p then IoPanic else IoOk p, m\<lparr>mt_up := ps\<rparr>))"

definition mock_send :: "bytes \<Rightarrow> mock_tun \<Rightarrow> unit io_result \<times> mock_tun" where
  "mock_send packet m =
     (if mt_down_open m then (IoOk (), m\<lparr>mt_down := mt_down m @ [packet]\<rparr>) else (IoErr BrokenPipe, m))"

interpretation mock_device: tun_device mock_recv mock_send mt_up mt_down
  by unfold_locales (auto simp: mock_recv_def mock_send_def split: list.splits if_splits)

text \<open>So the probe's packets reach the engine in order, and the engine's the probe.\<close>

lemmas probe_device = mock_device.device_run_engine

section \<open>The packets\<close>

text \<open>
  \<open>etherparse\<close>, as far as the probe uses it: the builder for IPv4 with UDP, and the parser, whose network
  headers are those of \<open>Net_Packets\<close>.
\<close>

datatype payload_slice = PayloadUdp bytes | PayloadOther

record probe_lib =
  pl_write_v4_udp :: "u32 \<Rightarrow> u32 \<Rightarrow> u8 \<Rightarrow> u16 \<Rightarrow> u16 \<Rightarrow> bytes \<Rightarrow> bytes option"
  pl_from_ip_slice :: "bytes \<Rightarrow> (net_headers option \<times> payload_slice) option"

definition QUERY :: bytes where
  "QUERY = [0x12, 0x34, 1, 0, 0, 1, 0, 0, 0, 0, 0, 0, 7] @ map of_char ''example'' @ [3] @ map of_char ''com'' @ [0, 0, 1, 0, 1]"

definition ntp_request :: bytes where
  "ntp_request = (replicate 48 0)[0 := 0x23]"

datatype probe_error =
    ConfUnreadable
  | ConfRejected conf_error
  | Ipv4ConfOnly
  | NotResolvedTo resolve_error
  | NoTunnel
  | PacketNotBuilt
  | DeviceGone
  | NoDnsAnswer
  | ReplyMalformed
  | ReplyNotIpv4
  | ReplyNotUdp
  | NtpReplyNotUdp
  | Panicked
  | TurnsOver

definition probe_packet :: "probe_lib \<Rightarrow> u32 \<Rightarrow> u32 \<Rightarrow> u16 \<Rightarrow> u16 \<Rightarrow> bytes \<Rightarrow> probe_error + bytes" where
  "probe_packet P client dst sport dport payload =
     ok_or PacketNotBuilt (pl_write_v4_udp P client dst 64 sport dport payload)"

section \<open>Reading the answers\<close>

record dns_report =
  dr_source :: u32
  dr_bytes :: nat
  dr_rcode :: u8
  dr_answers :: u16
  dr_last :: "bytes option"

text \<open>The header fields are indexed without a check of the length: a shorter payload panics.\<close>

definition dns_report_of :: "probe_lib \<Rightarrow> bytes \<Rightarrow> probe_error + dns_report" where
  "dns_report_of P reply =
     and_then (ok_or ReplyMalformed (pl_from_ip_slice P reply)) (\<lambda>(net, payload).
       case net of
         None \<Rightarrow> Inl Panicked
       | Some (NetIpv4 src dst) \<Rightarrow>
           (case payload of
              PayloadUdp data \<Rightarrow>
                if length data < 8 then Inl Panicked
                else Inr \<lparr>dr_source = src, dr_bytes = length data, dr_rcode = data ! 3 AND 0x0f,
                  dr_answers = be16_of_bytes (data ! 6) (data ! 7),
                  dr_last = (if 4 \<le> length data then Some (drop (length data - 4) data) else None)\<rparr>
            | PayloadOther \<Rightarrow> Inl ReplyNotUdp)
       | Some _ \<Rightarrow> Inl ReplyNotIpv4)"

text \<open>The NTP answer's length and stratum; no answer is not an error.\<close>

definition ntp_report_of :: "probe_lib \<Rightarrow> bytes option \<Rightarrow> probe_error + (nat \<times> u8) option" where
  "ntp_report_of P answer =
     (case answer of
        None \<Rightarrow> Inr None
      | Some reply \<Rightarrow>
          and_then (ok_or ReplyMalformed (pl_from_ip_slice P reply)) (\<lambda>(net, payload).
            case payload of
              PayloadUdp data \<Rightarrow> Inr (Some (length data, if 1 < length data then data ! 1 else 0))
            | PayloadOther \<Rightarrow> Inl NtpReplyNotUdp))"

section \<open>The burst\<close>

definition burst_ips :: "string \<Rightarrow> u32 list" where
  "burst_ips list = List.map_filter (\<lambda>s. parse_ipv4 (trim s)) (split_char (CHR '','') list)"

text \<open>\<open>41000 + i as u16\<close> is an addition of \<open>u16\<close> values, which panics on overflow as the example is built.\<close>

definition burst_port :: "nat \<Rightarrow> u16 option" where
  "burst_port i = (if 41000 + unat (of_nat i :: u16) < 2 ^ 16 then Some (41000 + of_nat i) else None)"

text \<open>One request per address, in order; \<open>up i\<close> tells whether the device still takes the \<open>i\<close>-th.\<close>

fun burst_sends :: "probe_lib \<Rightarrow> (nat \<Rightarrow> bool) \<Rightarrow> u32 \<Rightarrow> nat \<Rightarrow> u32 list \<Rightarrow> probe_error + bytes list" where
  "burst_sends P up client i [] = Inr []"
| "burst_sends P up client i (ip # ips) =
     and_then (ok_or Panicked (burst_port i)) (\<lambda>port.
     and_then (probe_packet P client ip port 123 ntp_request) (\<lambda>packet.
     and_then (ensure (up i) DeviceGone) (\<lambda>_.
     and_then (burst_sends P up client (i + 1) ips) (\<lambda>packets. Inr (packet # packets)))))"

text \<open>
  The distinct sources heard so far; each turn has the milliseconds since the start and what a receive of at
  most 200 ms brought. \<open>Inl\<close> is a loop still waiting when the turns end.
\<close>

definition burst_hears :: "probe_lib \<Rightarrow> bytes option \<Rightarrow> u32 list \<Rightarrow> u32 list" where
  "burst_hears P answer got =
     (case Option.bind answer (pl_from_ip_slice P) of
        Some (Some (NetIpv4 src dst), _) \<Rightarrow> List.insert src got
      | _ \<Rightarrow> got)"

fun burst_collect :: "probe_lib \<Rightarrow> nat \<Rightarrow> u32 list \<Rightarrow> (nat \<times> bytes option) list \<Rightarrow> u32 list + u32 list" where
  "burst_collect P wanted got [] = (if length got < wanted then Inl got else Inr got)"
| "burst_collect P wanted got ((elapsed, answer) # turns) =
     (if length got < wanted \<and> elapsed < 8000 then burst_collect P wanted (burst_hears P answer got) turns
      else Inr got)"

text \<open>The burst only runs with \<open>PROBE_BURST\<close> set; the report is how many of how many answered. \<open>TurnsOver\<close> is no
  error of the program: the burst is still waiting when the turns given end.\<close>

definition burst_report ::
  "probe_lib \<Rightarrow> (nat \<Rightarrow> bool) \<Rightarrow> u32 \<Rightarrow> string option \<Rightarrow> (nat \<times> bytes option) list
    \<Rightarrow> probe_error + (nat \<times> nat) option" where
  "burst_report P up client list turns =
     (case list of
        None \<Rightarrow> Inr None
      | Some l \<Rightarrow>
          (let ips = burst_ips l in
           and_then (burst_sends P up client 0 ips) (\<lambda>_.
             case burst_collect P (length ips) [] turns of
               Inl got \<Rightarrow> Inl TurnsOver
             | Inr got \<Rightarrow> Inr (Some (length got, length ips)))))"

section \<open>The program\<close>

text \<open>
  What the world answers: the file, whether the device takes the two first packets and those of the burst, the
  answers to the two requests within ten seconds, the environment variable, and the turns of the burst.
\<close>

record probe_world =
  pw_conf :: "string option"
  pw_up :: "bool \<times> bool"
  pw_dns :: "bytes option"
  pw_ntp :: "bytes option"
  pw_burst :: "string option"
  pw_burst_up :: "nat \<Rightarrow> bool"
  pw_turns :: "(nat \<times> bytes option) list"

definition probe_talk ::
  "probe_lib \<Rightarrow> u32 \<Rightarrow> probe_world \<Rightarrow> probe_error + dns_report \<times> (nat \<times> u8) option \<times> (nat \<times> nat) option" where
  "probe_talk P client w =
     and_then (probe_packet P client (v4_addr 1 1 1 1) 40005 53 QUERY) (\<lambda>_.
     and_then (ensure (fst (pw_up w)) DeviceGone) (\<lambda>_.
     and_then (ok_or NoDnsAnswer (pw_dns w)) (\<lambda>reply.
     and_then (dns_report_of P reply) (\<lambda>dns.
     and_then (probe_packet P client (v4_addr 162 159 200 1) 40006 123 ntp_request) (\<lambda>_.
     and_then (ensure (snd (pw_up w)) DeviceGone) (\<lambda>_.
     and_then (ntp_report_of P (pw_ntp w)) (\<lambda>ntp.
     and_then (burst_report P (pw_burst_up w) client (pw_burst w) (pw_turns w)) (\<lambda>burst.
       Inr (dns, ntp, burst)))))))))"

definition probe_client :: "'net ipnet_lib \<Rightarrow> 'net client_config \<Rightarrow> probe_error + u32" where
  "probe_client L cfg = (case net_addr L (cc_address cfg) of V4 a \<Rightarrow> Inr a | V6 _ \<Rightarrow> Inl Ipv4ConfOnly)"

definition connected_engine :: "('t, 'l) connect_outcome option \<Rightarrow> probe_error + ('t, 'l) engine" where
  "connected_engine outcome = (case outcome of Some (Connected e) \<Rightarrow> Inr e | _ \<Rightarrow> Inl NoTunnel)"

text \<open>
  \<open>main\<close>: the arguments of \<open>tunnel_connect\<close> are what the resolver, the socket and the clock answer while it
  connects, \<open>meanwhile\<close> is what the engine's tasks do during the conversation; in the end the statistics are
  read and the tunnel is closed.
\<close>

definition probe_main ::
  "probe_lib \<Rightarrow> key_lib \<Rightarrow> 'net net_text \<Rightarrow> 'net ipnet_lib \<Rightarrow> ('t, 'l, 'i) boringtun_lib
    \<Rightarrow> (string \<Rightarrow> socket_addr list option) \<Rightarrow> (string \<Rightarrow> nat \<Rightarrow> socket_addr list option) \<Rightarrow> socket_addr option
    \<Rightarrow> bool \<Rightarrow> engine_event list \<Rightarrow> (bytes \<Rightarrow> bool) \<Rightarrow> nat \<Rightarrow> (nat \<times> engine_event list) list
    \<Rightarrow> engine_event list \<Rightarrow> nat \<Rightarrow> nat \<Rightarrow> probe_world
    \<Rightarrow> probe_error + (dns_report \<times> (nat \<times> u8) option \<times> (nat \<times> nat) option) \<times> engine_stats \<times> ('t, 'l) engine" where
  "probe_main P K N L B lookup_str lookup_pair bridge sock_ok early sent_ok t0 polls meanwhile now since w =
     and_then (ok_or ConfUnreadable (pw_conf w)) (\<lambda>text.
     and_then (map_sum ConfRejected id (parse_conf K N text)) (\<lambda>cfg.
     and_then (probe_client L cfg) (\<lambda>client.
     and_then (map_sum NotResolvedTo id
         (tunnel_connect lookup_str lookup_pair K B since cfg bridge sock_ok early sent_ok t0 polls)) (\<lambda>outcome.
     and_then (connected_engine outcome) (\<lambda>e.
     and_then (ok_or NoTunnel (engine_run B meanwhile e)) (\<lambda>(e', fx).
     and_then (probe_talk P client w) (\<lambda>report.
       Inr (report, stats B now since e', close e'))))))))"

section \<open>What it reports\<close>

lemma distinct_burst_hears: "distinct got \<Longrightarrow> distinct (burst_hears P answer got)"
  by (auto simp: burst_hears_def split: option.split net_headers.split)

lemma burst_collect_spec:
  "burst_collect P wanted got turns = Inr heard \<Longrightarrow> distinct got \<Longrightarrow>
     \<exists>k. heard = fold (\<lambda>turn. burst_hears P (snd turn)) (take k turns) got \<and> distinct heard \<and>
       (wanted \<le> length heard \<or> (k < length turns \<and> 8000 \<le> fst (turns ! k)))"
proof (induction P wanted got turns rule: burst_collect.induct)
  case (1 P wanted got)
  then show ?case by (auto split: if_splits)
next
  case (2 P wanted got elapsed answer turns)
  show ?case
  proof (cases "length got < wanted \<and> elapsed < 8000")
    case False
    then have "heard = got" using "2.prems"(1) by (simp split: if_splits)
    with False "2.prems"(2) show ?thesis by (intro exI [of _ 0]) auto
  next
    case True
    then have "burst_collect P wanted (burst_hears P answer got) turns = Inr heard" using "2.prems"(1) by simp
    from "2.IH" [OF True this distinct_burst_hears [OF "2.prems"(2)]] obtain k where
      "heard = fold (\<lambda>turn. burst_hears P (snd turn)) (take k turns) (burst_hears P answer got)" "distinct heard"
      "wanted \<le> length heard \<or> (k < length turns \<and> 8000 \<le> fst (turns ! k))" by blast
    then show ?thesis by (intro exI [of _ "Suc k"]) simp
  qed
qed

lemma burst_hears_source:
  "src \<in> set (burst_hears P answer got) \<Longrightarrow>
     src \<in> set got \<or> (\<exists>p dst rest. answer = Some p \<and> pl_from_ip_slice P p = Some (Some (NetIpv4 src dst), rest))"
proof (cases "\<exists>p s dst rest. answer = Some p \<and> pl_from_ip_slice P p = Some (Some (NetIpv4 s dst), rest)")
  case False
  then have "burst_hears P answer got = got"
    unfolding burst_hears_def by (cases answer) (auto split: option.split net_headers.split prod.split)
  then show "src \<in> set (burst_hears P answer got) \<Longrightarrow> ?thesis" by simp
qed (auto simp: burst_hears_def)

lemma burst_hears_sources:
  "src \<in> set (fold (\<lambda>turn. burst_hears P (snd turn)) turns got) \<Longrightarrow>
     src \<in> set got \<or>
     (\<exists>turn \<in> set turns. \<exists>p dst rest. snd turn = Some p \<and> pl_from_ip_slice P p = Some (Some (NetIpv4 src dst), rest))"
proof (induction turns arbitrary: got)
  case (Cons turn turns)
  from Cons.IH [of "burst_hears P (snd turn) got"] Cons.prems burst_hears_source [of src P "snd turn" got]
  show ?case by (simp only: fold_simps list.set insert_iff bex_simps) blast
qed simp

text \<open>
  An address given twice counts twice among those asked but once among those heard: with answers only from the
  addresses asked, the loop then always waits for its eight seconds, and reports relays as silent.
\<close>

lemma repeated_address_never_answers:
  assumes "burst_collect P (length ips) [] turns = Inr heard" "\<not> distinct ips"
    and "\<forall>turn \<in> set turns. \<forall>p src dst rest. snd turn = Some p \<longrightarrow>
      pl_from_ip_slice P p = Some (Some (NetIpv4 src dst), rest) \<longrightarrow> src \<in> set ips"
  shows "length heard < length ips \<and> (\<exists>turn \<in> set turns. 8000 \<le> fst turn)"
proof -
  obtain k where k: "heard = fold (\<lambda>turn. burst_hears P (snd turn)) (take k turns) []" "distinct heard"
    "length ips \<le> length heard \<or> (k < length turns \<and> 8000 \<le> fst (turns ! k))"
    using burst_collect_spec [OF assms(1)] by auto
  have "set heard \<subseteq> set ips"
  proof
    fix src assume "src \<in> set heard"
    then obtain turn p dst rest where "turn \<in> set (take k turns)" "snd turn = Some p"
      "pl_from_ip_slice P p = Some (Some (NetIpv4 src dst), rest)"
      using burst_hears_sources [of src P "take k turns" "[]"] unfolding k(1) by auto
    with assms(3) show "src \<in> set ips" by (meson in_set_takeD)
  qed
  then have "length heard \<le> card (set ips)"
    using k(2) by (metis List.finite_set card_mono distinct_card)
  also have "card (set ips) < length ips"
    using assms(2) by (metis card_distinct card_length nat_less_le)
  finally show ?thesis using k(3) by (auto intro: nth_mem)
qed

text \<open>The DNS answer is reported exactly when it is IPv4 with UDP of at least eight bytes; a shorter one panics.\<close>

lemma dns_report_of_Inr_iff:
  "dns_report_of P reply = Inr d \<longleftrightarrow>
     (\<exists>src dst data. pl_from_ip_slice P reply = Some (Some (NetIpv4 src dst), PayloadUdp data) \<and> 8 \<le> length data \<and>
        d = \<lparr>dr_source = src, dr_bytes = length data, dr_rcode = data ! 3 AND 0x0f,
          dr_answers = be16_of_bytes (data ! 6) (data ! 7), dr_last = Some (drop (length data - 4) data)\<rparr>)"
proof (cases "pl_from_ip_slice P reply")
  case (Some parsed)
  obtain net payload where parsed: "parsed = (net, payload)" by fastforce
  show ?thesis
  proof (cases net)
    case (Some n)
    with \<open>pl_from_ip_slice P reply = Some parsed\<close> parsed show ?thesis
      by (cases n; cases payload) (auto simp: dns_report_of_def)
  qed (use Some parsed in \<open>simp add: dns_report_of_def\<close>)
qed (simp add: dns_report_of_def)

lemma short_answer_panics:
  "pl_from_ip_slice P reply = Some (Some (NetIpv4 src dst), PayloadUdp data) \<Longrightarrow> length data < 8 \<Longrightarrow>
     dns_report_of P reply = Inl Panicked"
  by (simp add: dns_report_of_def)

lemma probe_client_Inr_iff: "probe_client L cfg = Inr a \<longleftrightarrow> net_addr L (cc_address cfg) = V4 a"
  by (simp add: probe_client_def split: ip_addr.split)

lemma connected_engine_Inr_iff: "connected_engine outcome = Inr e \<longleftrightarrow> outcome = Some (Connected e)"
  by (auto simp: connected_engine_def split: option.split connect_outcome.split)

lemma probe_talk_Inr:
  "probe_talk P client w = Inr (dns, ntp, burst) \<Longrightarrow> \<exists>reply. pw_dns w = Some reply \<and> dns_report_of P reply = Inr dns"
  by (auto simp: probe_talk_def and_then_Inr_iff)

text \<open>
  The probe succeeds only after a completed handshake and a readable DNS answer; what it leaves behind is a
  closed tunnel.
\<close>

lemma probe_main_Inr:
  assumes "probe_main P K N L B lookup_str lookup_pair bridge sock_ok early sent_ok t0 polls meanwhile now since w =
      Inr ((dns, ntp, burst), st, closed)"
  obtains conf cfg client e e' fx reply where "pw_conf w = Some conf" "parse_conf K N conf = Inr cfg"
    "net_addr L (cc_address cfg) = V4 client" 
    "tunnel_connect lookup_str lookup_pair K B since cfg bridge sock_ok early sent_ok t0 polls = Inr (Some (Connected e))"
    "engine_run B meanwhile e = Some (e', fx)" "st = stats B now since e'" "closed = close e'"
    "pw_dns w = Some reply" "dns_report_of P reply = Inr dns"
  using assms
  by (auto simp: probe_main_def and_then_Inr_iff map_sum_Inr_iff probe_client_Inr_iff connected_engine_Inr_iff
      dest!: probe_talk_Inr)

end
