(* ===== verification/Router_Spec.thy ===== *)
theory Router_Spec
  imports Server
begin

text \<open>
  What the data plane promises, as an abstract router that knows neither keys, sessions nor routing tables: peers own
  addresses, a gate admits destinations, each peer has the address it was last heard from, and packets wait for the
  TCP/IP stack. The server refines it, with the ownership and the isolation blocks of its configuration.
\<close>

section \<open>The router\<close>

text \<open>What an observer of the server's socket and of its stack sees; each turn carries the datagrams it sent.\<close>

datatype io =
    Received "(bytes \<times> socket_addr) option" sent
  | FromStack bytes sent
  | Ticked sent
  | ToStack bytes

record router =
  rt_stack :: "bytes list"
  rt_home :: "nat \<Rightarrow> socket_addr option"

definition all_to :: "(socket_addr \<Rightarrow> bool) \<Rightarrow> sent \<Rightarrow> bool" where
  "all_to ok out \<longleftrightarrow> list_all (\<lambda>(d, a). ok a) out"

lemma all_to_simps [simp]:
  "all_to ok []" "all_to ok (x # out) \<longleftrightarrow> ok (snd x) \<and> all_to ok out" "all_to ok (xs @ ys) \<longleftrightarrow> all_to ok xs \<and> all_to ok ys"
  by (simp_all add: all_to_def split: prod.split)

lemma all_to_mono: "all_to P out \<Longrightarrow> (\<And>a. P a \<Longrightarrow> Q a) \<Longrightarrow> all_to Q out"
  by (induction out) auto

lemma all_to_map [simp]: "all_to ok (map (\<lambda>d. (d, a)) ds) \<longleftrightarrow> ds = [] \<or> ok a"
  by (induction ds) auto

text \<open>A peer's packet is passed on when the peer owns its source and the gate admits its destination.\<close>

definition passes ::
  "(bytes \<Rightarrow> ip_addr option) \<Rightarrow> (bytes \<Rightarrow> ip_addr option) \<Rightarrow> (nat \<Rightarrow> ip_addr \<Rightarrow> bool) \<Rightarrow> (ip_addr \<Rightarrow> bool)
    \<Rightarrow> nat \<Rightarrow> bytes \<Rightarrow> bool" where
  "passes src_of dst_of owner gate i p \<longleftrightarrow>
     (\<exists>src dst. src_of p = Some src \<and> dst_of p = Some dst \<and> owner i src \<and> gate dst)"

text \<open>
  A datagram is either noise, or it carries packets of one peer, which may thereby move to the sender's address;
  both are answered to the sender only. A packet from the stack goes to where the owner of its destination is, timers
  send to where peers are, and the stack takes packets in order. What exceeds the queue is dropped from the tail.
\<close>

inductive router_act ::
  "(bytes \<Rightarrow> nat \<Rightarrow> bytes list \<Rightarrow> bool) \<Rightarrow> (bytes \<Rightarrow> ip_addr option) \<Rightarrow> (bytes \<Rightarrow> ip_addr option)
    \<Rightarrow> (nat \<Rightarrow> ip_addr \<Rightarrow> bool) \<Rightarrow> (ip_addr \<Rightarrow> bool) \<Rightarrow> nat \<Rightarrow> router \<Rightarrow> io \<Rightarrow> router \<Rightarrow> bool"
  for carries src_of dst_of owner gate cap where
  noise: "all_to (\<lambda>a. map_option snd received = Some a) out \<Longrightarrow> router_act carries src_of dst_of owner gate cap s (Received received out) s"
| heard: "carries datagram i ps \<Longrightarrow> all_to (\<lambda>a. a = from) out \<Longrightarrow> home = rt_home s \<or> home = (rt_home s)(i := Some from) \<Longrightarrow>
    router_act carries src_of dst_of owner gate cap s (Received (Some (datagram, from)) out)
      \<lparr>rt_stack = take cap (rt_stack s @ filter (passes src_of dst_of owner gate i) ps), rt_home = home\<rparr>"
| answered: "all_to (\<lambda>a. \<exists>dst i. dst_of p = Some dst \<and> owner i dst \<and> rt_home s i = Some a) out \<Longrightarrow>
    router_act carries src_of dst_of owner gate cap s (FromStack p out) s"
| ticked: "all_to (\<lambda>a. \<exists>i. rt_home s i = Some a) out \<Longrightarrow> router_act carries src_of dst_of owner gate cap s (Ticked out) s"
| taken: "rt_stack s = p # ps \<Longrightarrow> router_act carries src_of dst_of owner gate cap s (ToStack p) (s\<lparr>rt_stack := ps\<rparr>)"

definition initial_router :: router where
  "initial_router = \<lparr>rt_stack = [], rt_home = \<lambda>_. None\<rparr>"

section \<open>What the router guarantees\<close>

text \<open>The addresses datagrams came from, and those a turn sends to.\<close>

fun heard_from :: "io \<Rightarrow> socket_addr set" where
  "heard_from (Received (Some (datagram, from)) out) = {from}"
| "heard_from _ = {}"

fun out_of :: "io \<Rightarrow> sent" where
  "out_of (Received r out) = out"
| "out_of (FromStack p out) = out"
| "out_of (Ticked out) = out"
| "out_of (ToStack p) = []"

definition router_inv ::
  "(bytes \<Rightarrow> ip_addr option) \<Rightarrow> (bytes \<Rightarrow> ip_addr option) \<Rightarrow> (nat \<Rightarrow> ip_addr \<Rightarrow> bool) \<Rightarrow> (ip_addr \<Rightarrow> bool) \<Rightarrow> nat
    \<Rightarrow> socket_addr set \<Rightarrow> router \<Rightarrow> bool" where
  "router_inv src_of dst_of owner gate cap known s \<longleftrightarrow>
     length (rt_stack s) \<le> cap \<and> (\<forall>i a. rt_home s i = Some a \<longrightarrow> a \<in> known) \<and>
     (\<forall>p \<in> set (rt_stack s). \<exists>i. passes src_of dst_of owner gate i p)"

lemma router_act_inv:
  assumes "router_act carries src_of dst_of owner gate cap s l s'" "router_inv src_of dst_of owner gate cap known s"
  shows "router_inv src_of dst_of owner gate cap (known \<union> heard_from l) s' \<and>
    all_to (\<lambda>a. a \<in> known \<union> heard_from l) (out_of l) \<and>
    (\<forall>p. l = ToStack p \<longrightarrow> (\<exists>i. passes src_of dst_of owner gate i p))"
  using assms(1)
proof (cases rule: router_act.cases)
  case (noise received out)
  have "all_to (\<lambda>a. a \<in> known \<union> heard_from l) out"
    using noise(3) by (rule all_to_mono) (auto simp: noise(1))
  with noise assms(2) show ?thesis by (auto simp: router_inv_def)
next
  case (heard datagram i ps "from" out home)
  have "all_to (\<lambda>a. a \<in> known \<union> heard_from l) out"
    using heard(4) by (rule all_to_mono) (auto simp: heard(1))
  moreover have "\<exists>i. passes src_of dst_of owner gate i p" if "p \<in> set (rt_stack s')" for p
    using that assms(2) by (auto simp: heard(2) router_inv_def dest!: in_set_takeD)
  ultimately show ?thesis using heard assms(2) by (auto simp: router_inv_def split: if_splits)
next
  case (answered p out)
  have "all_to (\<lambda>a. a \<in> known \<union> heard_from l) out"
    using answered(3) by (rule all_to_mono) (use assms(2) in \<open>auto simp: router_inv_def\<close>)
  with answered assms(2) show ?thesis by (auto simp: router_inv_def)
next
  case (ticked out)
  have "all_to (\<lambda>a. a \<in> known \<union> heard_from l) out"
    using ticked(3) by (rule all_to_mono) (use assms(2) in \<open>auto simp: router_inv_def\<close>)
  with ticked assms(2) show ?thesis by (auto simp: router_inv_def)
next
  case (taken p ps)
  with assms(2) show ?thesis by (auto simp: router_inv_def)
qed

lemma router_run_inv:
  "run_of (router_act carries src_of dst_of owner gate cap) s ls s' \<Longrightarrow> router_inv src_of dst_of owner gate cap known s \<Longrightarrow>
     router_inv src_of dst_of owner gate cap (known \<union> \<Union> (heard_from ` set ls)) s'"
proof (induction ls arbitrary: s known)
  case (Cons l ls)
  then obtain t where t: "router_act carries src_of dst_of owner gate cap s l t" "run_of (router_act carries src_of dst_of owner gate cap) t ls s'"
    by auto
  from router_act_inv [OF t(1) Cons.prems(2)] have "router_inv src_of dst_of owner gate cap (known \<union> heard_from l) t" by blast
  from Cons.IH [OF t(2) this] show ?case by (simp add: Un_assoc)
qed simp

text \<open>
  A router that has started empty sends only to addresses it has heard from, and hands its stack only packets that
  pass.
\<close>

lemma router_run_safe:
  assumes "run_of (router_act carries src_of dst_of owner gate cap) initial_router (pre @ l # post) s"
  shows "all_to (\<lambda>a. \<exists>m \<in> set (pre @ [l]). a \<in> heard_from m) (out_of l) \<and>
    (\<forall>p. l = ToStack p \<longrightarrow> (\<exists>i. passes src_of dst_of owner gate i p))"
proof -
  obtain t u where t: "run_of (router_act carries src_of dst_of owner gate cap) initial_router pre t" "router_act carries src_of dst_of owner gate cap t l u"
    using assms by (auto simp: run_of_append)
  have "router_inv src_of dst_of owner gate cap {} initial_router" by (simp add: router_inv_def initial_router_def)
  from router_act_inv [OF t(2) router_run_inv [OF t(1) this]]
  have "all_to (\<lambda>a. a \<in> {} \<union> \<Union> (heard_from ` set pre) \<union> heard_from l) (out_of l)"
    "\<forall>p. l = ToStack p \<longrightarrow> (\<exists>i. passes src_of dst_of owner gate i p)" by blast+
  moreover from this(1) have "all_to (\<lambda>a. \<exists>m \<in> set (pre @ [l]). a \<in> heard_from m) (out_of l)"
    by (rule all_to_mono) auto
  ultimately show ?thesis by blast
qed

section \<open>The server as a system with the same labels\<close>

inductive server_act ::
  "'net ipnet_lib \<Rightarrow> etherparse_lib \<Rightarrow> ('t, 'l, 'i) boringtun_lib \<Rightarrow> (bytes \<Rightarrow> 'q \<Rightarrow> 'q option)
    \<Rightarrow> ('q \<Rightarrow> (bytes \<times> 'q) option) \<Rightarrow> ('net, 't, 'l, 'q) server \<Rightarrow> io \<Rightarrow> ('net, 't, 'l, 'q) server \<Rightarrow> bool"
  for L E B ts rc where
  from_peer: "ingress L E B ts sv received = Some (sv', out) \<Longrightarrow> server_act L E B ts rc sv (Received received out) sv'"
| to_peer: "egress L B sv packet = (sv', out) \<Longrightarrow> server_act L E B ts rc sv (FromStack packet out) sv'"
| timers: "tick B now sv = (sv', out) \<Longrightarrow> server_act L E B ts rc sv (Ticked out) sv'"
| stack_takes: "rc (sv_to_stack sv) = Some (p, q) \<Longrightarrow> server_act L E B ts rc sv (ToStack p) (sv\<lparr>sv_to_stack := q\<rparr>)"

text \<open>Forgetting the labels gives the steps of the data plane.\<close>

lemma server_act_step: "(\<exists>l. server_act L E B ts rc sv l sv') \<longleftrightarrow> server_step L E B ts rc sv sv'"
  by (auto elim!: server_act.cases server_step.cases intro: server_act.intros server_step.intros)

definition router_of :: "('q \<Rightarrow> bytes list) \<Rightarrow> ('net, 't, 'l, 'q) server \<Rightarrow> router" where
  "router_of items sv = \<lparr>rt_stack = items (sv_to_stack sv), rt_home = endpoint (sv_wg sv)\<rparr>"

text \<open>
  What a datagram carries under a configuration: the packets an endpoint with the configured keys reads from it, in
  some state of its sessions, and the entry of the peer it attributes them to.
\<close>

definition keyed_as :: "key_lib \<Rightarrow> 'net config \<Rightarrow> ('t, 'l) wg \<Rightarrow> bool" where
  "keyed_as K cfg wg \<longleftrightarrow> decode_key K (cfg_private_key cfg) = Inr (wg_private wg) \<and>
     map (decode_key K \<circ> pc_public_key) (cfg_peers cfg) = map (Inr \<circ> peer_public_key) (wg_peers wg)"

definition datagram_carries ::
  "key_lib \<Rightarrow> ('t, 'l, 'i) boringtun_lib \<Rightarrow> 'net config \<Rightarrow> bytes \<Rightarrow> nat \<Rightarrow> bytes list \<Rightarrow> bool" where
  "datagram_carries K B cfg datagram i ps \<longleftrightarrow>
     (\<exists>wg from wg' net_out. keyed_as K cfg wg \<and> recv_from_network B wg from datagram [] [] = Some (wg', net_out, ps, Some i))"

text \<open>The router of a configuration.\<close>

abbreviation config_router ::
  "key_lib \<Rightarrow> 'net ipnet_lib \<Rightarrow> ('t, 'l, 'i) boringtun_lib \<Rightarrow> 'net config \<Rightarrow> router \<Rightarrow> io \<Rightarrow> router \<Rightarrow> bool" where
  "config_router K L B cfg \<equiv>
     router_act (datagram_carries K B cfg) src_address (dst_address B) (owns L (routing_table (cfg_peers cfg)))
       (isolation_spec (net_contains L (cfg_address cfg)) (cfg_allow_private cfg)) QUEUE"

abbreviation config_passes ::
  "'net ipnet_lib \<Rightarrow> ('t, 'l, 'i) boringtun_lib \<Rightarrow> 'net config \<Rightarrow> nat \<Rightarrow> bytes \<Rightarrow> bool" where
  "config_passes L B cfg \<equiv>
     passes src_address (dst_address B) (owns L (routing_table (cfg_peers cfg)))
       (isolation_spec (net_contains L (cfg_address cfg)) (cfg_allow_private cfg))"

definition refines ::
  "key_lib \<Rightarrow> 'net ipnet_lib \<Rightarrow> ('t, 'l, 'i) boringtun_lib \<Rightarrow> (bytes \<Rightarrow> 'q \<Rightarrow> 'q option) \<Rightarrow> ('q \<Rightarrow> (bytes \<times> 'q) option)
    \<Rightarrow> ('q \<Rightarrow> bytes list) \<Rightarrow> 'net config \<Rightarrow> ('net, 't, 'l, 'q) server \<Rightarrow> router \<Rightarrow> bool" where
  "refines K L B ts rc items cfg sv rt \<longleftrightarrow>
     ipnet_documented L \<and> bounded_channel ts rc items QUEUE \<and> validate K L cfg = Inr () \<and>
     server_inv L B items cfg sv \<and> keyed_as K cfg (sv_wg sv) \<and> rt = router_of items sv"

lemma keyed_as_same: "same_registration w v \<Longrightarrow> keyed_as K cfg w \<Longrightarrow> keyed_as K cfg v"
  by (simp add: keyed_as_def same_registration_def flip: map_map)

text \<open>In a validated configuration the check of the data plane is the router's.\<close>

lemma owner_exact:
  assumes "ipnet_documented L" "validate K L cfg = Inr ()"
  shows "peer_for L (routing_table (cfg_peers cfg)) a = Some i \<longleftrightarrow> owns L (routing_table (cfg_peers cfg)) i a"
proof -
  have "nets_ok L (cfg_address cfg) (all_nets (cfg_peers cfg))"
    using assms(2) by (intro config_ok_nets) (simp add: validate_ok_iff)
  then show ?thesis using nets_ok_unique_owner [OF assms(1)] peer_table.lookup_exclusive by blast
qed

lemma admitted_passes:
  assumes "ipnet_documented L" "validate K L cfg = Inr ()" "server_inv L B items cfg sv"
  shows "sv_admitted L B sv i = config_passes L B cfg i"
proof
  fix p show "sv_admitted L B sv i p = config_passes L B cfg i p"
    using assms(3) by (auto simp: admitted_def passes_def server_inv_def allowed_dst_blocks owner_exact [OF assms(1,2)]
        split: option.splits)
qed

text \<open>Where peers are reached: only a received datagram changes it, for the peer it came from.\<close>

lemma endpoint_update_timers: "update_timers B now wg out = (wg', out') \<Longrightarrow> endpoint wg' i = endpoint wg i"
  by (drule update_timers_spec) (simp add: endpoint_def)

lemma endpoint_recv:
  assumes "recv_from_network B wg from datagram [] [] = Some (wg', net', ip', res)"
  shows "endpoint wg' = endpoint wg \<or> (\<exists>i. res = Some i \<and> endpoint wg' = (endpoint wg)(i := Some from))"
proof (cases res)
  case None
  then show ?thesis using recv_peers [OF assms] by (auto simp: endpoint_def fun_eq_iff)
next
  case (Some i)
  then have "endpoint wg' j = endpoint wg j" if "j \<noteq> i" for j
    using that recv_peers [OF assms] by (auto simp: endpoint_def)
  moreover have "endpoint wg' i = endpoint wg i \<or> endpoint wg' i = Some from"
    using recv_endpoint [OF assms [unfolded Some]] by (simp split: if_splits)
  ultimately show ?thesis using Some by (metis ext fun_upd_apply)
qed

lemma endpoint_ingress_packets:
  "ingress_packets L E B ts idx from sv ps = (sv', out) \<Longrightarrow> endpoint (sv_wg sv') = endpoint (sv_wg sv)"
proof (induction ps arbitrary: sv out)
  case (Cons p ps)
  obtain wg' net_out where e: "\<And>rst. tcp_rst E p = Some rst \<Longrightarrow> encapsulate B (sv_wg sv) idx rst [] = (wg', net_out)"
    by (cases "tcp_rst E p") (auto, fastforce)
  have "endpoint wg' = endpoint (sv_wg sv)" if "tcp_rst E p \<noteq> None"
    using that e endpoint_encapsulate by (auto simp: fun_eq_iff)
  with Cons e show ?case
    by (auto simp: Let_def split: option.splits if_splits prod.splits)
qed simp

section \<open>The simulation\<close>

lemma ingress_refines:
  assumes "refines K L B ts rc items cfg sv rt" "ingress L E B ts sv received = Some (sv', out)"
  shows "config_router K L B cfg rt (Received received out) (router_of items sv')"
proof (cases received)
  case None
  with assms show ?thesis by (auto simp: refines_def intro: noise)
next
  case (Some r)
  obtain datagram "from" where r: "r = (datagram, from)" by (cases r)
  from assms(1) have inv: "ipnet_documented L" "validate K L cfg = Inr ()" "server_inv L B items cfg sv"
    "bounded_channel ts rc items QUEUE" "rt = router_of items sv"
    by (simp_all add: refines_def)
  from assms(2) Some r obtain wg' net_out ip_out res where w:
    "recv_from_network B (sv_wg sv) from datagram [] [] = Some (wg', net_out, ip_out, res)"
    "sv_to_stack sv' = fold (send_or_drop ts)
       (case res of None \<Rightarrow> [] | Some idx \<Rightarrow> filter (sv_admitted L B sv idx) ip_out) (sv_to_stack sv)"
    "\<forall>(d, a) \<in> set out. a = from"
    by (auto elim: ingress_spec)
  have out: "all_to (\<lambda>a. a = from) out" using w(3) by (simp add: all_to_def list_all_iff)
  have home: "endpoint (sv_wg sv') = endpoint wg'"
    using assms(2) Some r w(1) endpoint_ingress_packets
    by (fastforce simp: ingress_def Let_def split: option.splits prod.splits)
  show ?thesis
  proof (cases res)
    case None
    then have "endpoint wg' = endpoint (sv_wg sv)" using endpoint_recv [OF w(1)] by simp
    with None w(2) home have "router_of items sv' = rt" by (simp add: router_of_def inv(5))
    moreover have "all_to (\<lambda>a. map_option snd received = Some a) out"
      using out by (rule all_to_mono) (simp add: Some r)
    ultimately show ?thesis by (auto intro: noise)
  next
    case (Some i)
    have room: "length (items (sv_to_stack sv)) \<le> QUEUE" using inv(3) by (simp add: server_inv_def)
    have "items (sv_to_stack sv') = take QUEUE (items (sv_to_stack sv) @ filter (config_passes L B cfg i) ip_out)"
      using w(2) Some bounded_channel.offers_take [OF inv(4) room] by (simp add: admitted_passes [OF inv(1-3)])
    then have abs: "router_of items sv' =
        \<lparr>rt_stack = take QUEUE (rt_stack rt @ filter (config_passes L B cfg i) ip_out), rt_home = endpoint wg'\<rparr>"
      by (simp add: router_of_def inv(5) home)
    have moved: "endpoint wg' = rt_home rt \<or> endpoint wg' = (rt_home rt)(i := Some from)"
      using endpoint_recv [OF w(1)] Some by (simp add: router_of_def inv(5))
    have carried: "datagram_carries K B cfg datagram i ip_out"
      using assms(1) w(1) Some unfolding datagram_carries_def refines_def by blast
    show ?thesis unfolding \<open>received = Some r\<close> r abs by (rule heard) (rule carried out moved)+
  qed
qed

lemma egress_refines:
  assumes "refines K L B ts rc items cfg sv rt" "egress L B sv packet = (sv', out)"
  shows "config_router K L B cfg rt (FromStack packet out) (router_of items sv')"
  using assms(2)
proof (cases rule: egress_cases)
  case dropped
  with assms(1) show ?thesis by (auto simp: refines_def intro: answered)
next
  case (routed dst idx wg' net_out)
  from assms(1) have inv: "ipnet_documented L" "validate K L cfg = Inr ()" "server_inv L B items cfg sv"
    "rt = router_of items sv" by (simp_all add: refines_def)
  have "owns L (routing_table (cfg_peers cfg)) idx dst"
    using routed(2) inv(3) owner_exact [OF inv(1,2)] by (simp add: server_inv_def)
  then have "all_to (\<lambda>a. \<exists>dst i. dst_address B packet = Some dst \<and> owns L (routing_table (cfg_peers cfg)) i dst \<and>
      rt_home rt i = Some a) out"
    using routed(1,5) by (auto simp: inv(4) router_of_def split: option.split)
  moreover have "endpoint wg' = endpoint (sv_wg sv)" using endpoint_encapsulate [OF routed(3)] by blast
  then have "router_of items sv' = rt" by (simp add: router_of_def inv(4) routed(4))
  ultimately show ?thesis by (auto intro: answered)
qed

lemma tick_refines:
  assumes "refines K L B ts rc items cfg sv rt" "tick B now sv = (sv', out)"
  shows "config_router K L B cfg rt (Ticked out) (router_of items sv')"
proof -
  from assms(1) have rt: "rt = router_of items sv" by (simp add: refines_def)
  obtain wg' emitted where u: "update_timers B now (sv_wg sv) [] = (wg', emitted)" by fastforce
  have home: "endpoint wg' = endpoint (sv_wg sv)" using endpoint_update_timers [OF u] by blast
  have out: "out = concat (map (\<lambda>((_, d), ep). case ep of Some e \<Rightarrow> [(d, e)] | None \<Rightarrow> [])
      (zip emitted (map (\<lambda>(i, _). endpoint wg' i) emitted)))" and sv': "sv' = sv\<lparr>sv_wg := wg'\<rparr>"
    using assms(2) u by (simp_all add: tick_def)
  have "all_to (\<lambda>a. \<exists>i. rt_home rt i = Some a) out"
    unfolding out by (induction emitted) (auto simp: rt router_of_def home split: option.split)
  moreover have "router_of items sv' = rt" by (simp add: rt router_of_def sv' home)
  ultimately show ?thesis by (auto intro: ticked)
qed

lemma server_act_refines:
  assumes R: "refines K L B ts rc items cfg sv rt" and act: "server_act L E B ts rc sv l sv'"
  shows "config_router K L B cfg rt l (router_of items sv')"
  using act
proof (cases rule: server_act.cases)
  case (from_peer received out)
  show ?thesis unfolding from_peer(1) by (rule ingress_refines [OF R from_peer(2)])
next
  case (to_peer packet out)
  show ?thesis unfolding to_peer(1) by (rule egress_refines [OF R to_peer(2)])
next
  case (timers now out)
  show ?thesis unfolding timers(1) by (rule tick_refines [OF R timers(2)])
next
  case (stack_takes p q)
  have "bounded_channel ts rc items QUEUE" "rt = router_of items sv" using R by (simp_all add: refines_def)
  moreover from this(1) have "items (sv_to_stack sv) = p # items q"
    using stack_takes(3) by (rule bounded_channel.receive_Some)
  ultimately show ?thesis
    unfolding stack_takes(1) using taken [of rt p "items q"] by (simp add: router_of_def stack_takes(2))
qed

lemma server_act_invariant:
  assumes "refines K L B ts rc items cfg sv rt" "server_act L E B ts rc sv l sv'"
  shows "refines K L B ts rc items cfg sv' (router_of items sv')"
proof -
  have step: "server_step L E B ts rc sv sv'" using assms(2) server_act_step by blast
  from assms(1) have R: "ipnet_documented L" "bounded_channel ts rc items QUEUE" "validate K L cfg = Inr ()"
    "server_inv L B items cfg sv" by (simp_all add: refines_def)
  have "keyed_as K cfg (sv_wg sv')"
    using assms(1) server_step_tables [OF step] by (auto simp: refines_def same_tables_def intro: keyed_as_same)
  with server_step_inv [OF R(2,4) step] R(1-3) show ?thesis by (simp add: refines_def)
qed

interpretation server_router: simulation "server_act L E B ts rc" "config_router K L B cfg" "refines K L B ts rc items cfg"
  for K L E B ts rc items cfg
  by unfold_locales (blast intro: server_act_refines server_act_invariant)

text \<open>No peer has been heard from when the server starts.\<close>

lemma start_peers_homeless:
  "start_peers K B global tb ps = Inr tb' \<Longrightarrow> list_all (\<lambda>p. peer_endpoint p = None) (wg_peers (tb_wg tb)) \<Longrightarrow>
     list_all (\<lambda>p. peer_endpoint p = None) (wg_peers (tb_wg tb'))"
  by (induction ps arbitrary: tb) (auto simp: and_then_Inr_iff add_peer_Inr_iff)

lemma start_peers_private: "start_peers K B global tb ps = Inr tb' \<Longrightarrow> wg_private (tb_wg tb') = wg_private (tb_wg tb)"
  by (induction ps arbitrary: tb) (auto simp: and_then_Inr_iff add_peer_Inr_iff)

lemma started_keyed:
  assumes "started K B items cfg sv"
  shows "keyed_as K cfg (sv_wg sv)"
proof -
  obtain now tb global key where tb: "start_peers K B global \<lparr>tb_wg = wg_new B now key, tb_allowed = [], tb_upstreams = []\<rparr> (cfg_peers cfg) = Inr tb"
    "sv_wg sv = tb_wg tb" "decode_key K (cfg_private_key cfg) = Inr key"
    using assms by (auto simp: started_def start_tables_def and_then_Inr_iff)
  from start_peers_tables [OF tb(1)] start_peers_private [OF tb(1)] tb(2,3) show ?thesis
    by (simp add: keyed_as_def wg_new_def Let_def)
qed

lemma started_refines:
  assumes "ipnet_documented L" "bounded_channel ts rc items QUEUE" "validate K L cfg = Inr ()" "started K B items cfg sv"
  shows "refines K L B ts rc items cfg sv initial_router"
proof -
  obtain now tb global key where tb: "start_peers K B global \<lparr>tb_wg = wg_new B now key, tb_allowed = [], tb_upstreams = []\<rparr> (cfg_peers cfg) = Inr tb"
    "sv_wg sv = tb_wg tb" "items (sv_to_stack sv) = []"
    using assms(4) by (auto simp: started_def start_tables_def and_then_Inr_iff)
  have "list_all (\<lambda>p. peer_endpoint p = None) (wg_peers (sv_wg sv))"
    unfolding tb(2) using tb(1) by (rule start_peers_homeless) (simp add: wg_new_def Let_def)
  then have "endpoint (sv_wg sv) = (\<lambda>_. None)" by (auto simp: endpoint_def list_all_length)
  with tb(3) assms started_inv [OF assms(4)] started_keyed [OF assms(4)] show ?thesis by (simp add: refines_def router_of_def initial_router_def)
qed

section \<open>Properties\<close>

text \<open>
  C2: the server implements the router of its configuration. Whatever a server started from a validated
  configuration is seen to do on its socket and towards its stack, in any order of its tasks, that router does too,
  turn by turn: of the packets a datagram carries it passes on exactly those whose source the datagram's peer owns and
  whose destination the documented blocks admit, as far as the queue has room, answers a datagram to its sender only,
  and sends packets of the stack only to where the owner of their destination was last heard from.
\<close>

theorem server_refines_router:
  assumes "ipnet_documented L" "bounded_channel ts rc items QUEUE" "validate K L cfg = Inr ()"
    and "started K B items cfg sv" "run_of (server_act L E B ts rc) sv ios sv'"
  shows "run_of (config_router K L B cfg) initial_router ios (router_of items sv')"
  using server_router.run_simulated [OF assms(5) started_refines [OF assms(1-4)]] by (auto simp: refines_def)

text \<open>
  C3: the server never sends a datagram to an address it has not heard from, in no turn of any run, so it cannot be
  made to attack a third party; and each packet it hands to its stack is of a peer that owns its source, for a
  destination the documented blocks admit.
\<close>

theorem server_answers_only_senders:
  assumes "ipnet_documented L" "bounded_channel ts rc items QUEUE" "validate K L cfg = Inr ()"
    and "started K B items cfg sv" "run_of (server_act L E B ts rc) sv (pre @ io # post) sv'"
  shows "(\<forall>(d, a) \<in> set (out_of io). \<exists>m \<in> set (pre @ [io]). a \<in> heard_from m) \<and>
    (\<forall>p. io = ToStack p \<longrightarrow> (\<exists>i src dst. src_address p = Some src \<and> dst_address B p = Some dst \<and>
       owns L (routing_table (cfg_peers cfg)) i src \<and>
       isolation_spec (net_contains L (cfg_address cfg)) (cfg_allow_private cfg) dst))"
proof -
  obtain rt where "run_of (config_router K L B cfg) initial_router (pre @ io # post) rt"
    using server_router.run_simulated [OF assms(5) started_refines [OF assms(1-4)]] by blast
  from router_run_safe [OF this] show ?thesis by (simp add: all_to_def list_all_iff passes_def)
qed

text \<open>A datagram of the first peer, whose packet the stack then takes.\<close>

lemma ex_server_run:
  obtains out sv' where "run_of (server_act cidr_lib ex_etherparse ex_boringtun (list_send QUEUE) list_receive) ex_server
    [Received (Some ([4, 0, 0, 0, 0] @ ex_packet, sock (V4 7) 9)) out, ToStack ex_packet] sv'"
proof -
  obtain sv1 out where i: "ingress cidr_lib ex_etherparse ex_boringtun (list_send QUEUE) ex_server
      (Some ([4, 0, 0, 0, 0] @ ex_packet, sock (V4 7) 9)) = Some (sv1, out)" "sv_to_stack sv1 = [ex_packet]"
    using ex_ingress by blast
  have "list_receive (sv_to_stack sv1) = Some (ex_packet, [])" by (simp add: i(2))
  then have "server_act cidr_lib ex_etherparse ex_boringtun (list_send QUEUE) list_receive sv1 (ToStack ex_packet)
      (sv1\<lparr>sv_to_stack := []\<rparr>)" by (rule server_act.stack_takes)
  with server_act.from_peer [OF i(1)] show thesis by (intro that) (auto simp del: append.simps)
qed

theorem server_refines_router_witness:
  "\<exists>out rt. run_of (config_router nibble_lib cidr_lib ex_boringtun ex_config) initial_router
     [Received (Some ([4, 0, 0, 0, 0] @ ex_packet, sock (V4 7) 9)) out, ToStack ex_packet] rt"
proof -
  obtain out sv' where run: "run_of (server_act cidr_lib ex_etherparse ex_boringtun (list_send QUEUE) list_receive) ex_server
    [Received (Some ([4, 0, 0, 0, 0] @ ex_packet, sock (V4 7) 9)) out, ToStack ex_packet] sv'" by (rule ex_server_run)
  from server_refines_router [OF cidr_lib_documented list_channel.bounded_channel_axioms ex_config_valid ex_started run]
  show ?thesis by blast
qed

theorem server_answers_only_senders_witness:
  "\<exists>i src. src_address ex_packet = Some src \<and> owns cidr_lib (routing_table (cfg_peers ex_config)) i src"
proof -
  obtain out sv' where "run_of (server_act cidr_lib ex_etherparse ex_boringtun (list_send QUEUE) list_receive) ex_server
    ([Received (Some ([4, 0, 0, 0, 0] @ ex_packet, sock (V4 7) 9)) out] @ ToStack ex_packet # []) sv'"
    using ex_server_run by auto
  from server_answers_only_senders [OF cidr_lib_documented list_channel.bounded_channel_axioms ex_config_valid ex_started this]
  show ?thesis by blast
qed

end
