(* ===== verification/Ascii_Text.thy ===== *)
theory Ascii_Text
  imports Client_Conf
begin

text \<open>
  The string functions on ASCII texts of printable characters and blanks, and the address parsers on literals, in a
  form the simplifier evaluates: what the unit tests need.
\<close>

section \<open>Texts of printable characters and blanks\<close>

definition blank_char :: "char \<Rightarrow> bool" where
  "blank_char c \<longleftrightarrow> byte c \<in> {9, 10, 11, 12, 13, 32}"

text \<open>Both predicates by the bits of a character, which is how they evaluate.\<close>

lemma blank_char_bits [code]:
  "blank_char c \<longleftrightarrow> c = CHR 0x20 \<or> c = CHR 0x09 \<or> c = CHR 0x0A \<or> c = CHR 0x0B \<or> c = CHR 0x0C \<or> c = CHR 0x0D"
proof -
  have "c = d \<longleftrightarrow> byte c = byte d" for d by (metis char_of_byte)
  then show ?thesis by (simp add: blank_char_def) blast
qed

lemma ascii_graphic_bits [code]:
  "ascii_graphic (Char b0 b1 b2 b3 b4 b5 b6 b7) \<longleftrightarrow>
     \<not> b7 \<and> (b5 \<or> b6) \<and> (b6 \<or> b4 \<or> b3 \<or> b2 \<or> b1 \<or> b0) \<and> \<not> (b0 \<and> b1 \<and> b2 \<and> b3 \<and> b4 \<and> b5 \<and> b6)"
  by (cases b0; cases b1; cases b2; cases b3; cases b4; cases b5; cases b6; cases b7) (simp_all add: ascii_graphic_def)

abbreviation ascii_text :: "string \<Rightarrow> bool" where
  "ascii_text s \<equiv> \<forall>c \<in> set s. blank_char c \<or> ascii_graphic c"

lemma strip_all_ascii:
  assumes "ps = ws_seqs \<or> ps = map rev ws_seqs"
  shows "ascii_text s \<Longrightarrow> length s \<le> n \<Longrightarrow> strip_all_fuel ps n s = dropWhile blank_char s"
proof (induction s arbitrary: n)
  case Nil
  have "strip_any ps [] = None" using assms ws_ends by (intro strip_any_graphic) auto
  then show ?case by (cases n) simp_all
next
  case (Cons c s)
  then obtain m where n: "n = Suc m" by (cases n) auto
  show ?case
  proof (cases "blank_char c")
    case True
    then have "strip_any ps (c # s) = Some s"
      using assms strip_any_ws_char [of c s] by (auto simp: blank_char_def)
    with Cons n True show ?thesis by simp
  next
    case False
    with Cons.prems have "strip_any ps (c # s) = None" using assms ws_ends by (intro strip_any_graphic) auto
    with n False show ?thesis by simp
  qed
qed

lemma trim_ascii:
  assumes "ascii_text s"
  shows "trim s = rev (dropWhile blank_char (rev (dropWhile blank_char s)))"
proof -
  have "trim_start s = dropWhile blank_char s"
    using assms strip_all_ascii [of ws_seqs s] by (simp add: trim_start_def)
  moreover have "ascii_text (rev (dropWhile blank_char s))" using assms by (auto dest: set_dropWhileD)
  ultimately show ?thesis
    using strip_all_ascii [of "map rev ws_seqs"] by (simp add: trim_def trim_end_def)
qed

lemma take_word_ascii:
  "ascii_text s \<Longrightarrow> take_word s = (takeWhile (\<lambda>c. \<not> blank_char c) s, dropWhile (\<lambda>c. \<not> blank_char c) s)"
proof (induction s)
  case (Cons c s)
  show ?case
  proof (cases "blank_char c")
    case True
    then have "strip_any ws_seqs (c # s) \<noteq> None" using strip_any_ws_char [of c s] by (auto simp: blank_char_def)
    with True show ?thesis by simp
  next
    case False
    with Cons.prems have "strip_any ws_seqs (c # s) = None" using ws_ends by (intro strip_any_graphic) auto
    with False Cons show ?thesis by simp
  qed
qed simp

lemma words_dropWhile: "filter (\<lambda>w. w \<noteq> []) (split_on p (dropWhile p s)) = filter (\<lambda>w. w \<noteq> []) (split_on p s)"
  by (induction s) simp_all

lemma words_takeWhile:
  "s \<noteq> [] \<Longrightarrow> \<not> p (hd s) \<Longrightarrow> filter (\<lambda>w. w \<noteq> []) (split_on p s) =
     takeWhile (\<lambda>c. \<not> p c) s # filter (\<lambda>w. w \<noteq> []) (split_on p (dropWhile (\<lambda>c. \<not> p c) s))"
proof (induction s)
  case (Cons c s)
  show ?case
  proof (cases "s = [] \<or> p (hd s)")
    case True
    with Cons.prems show ?thesis by (cases s) (auto split: list.splits)
  next
    case False
    with Cons obtain y ys where "split_on p s = y # ys" by (meson neq_Nil_conv split_on_nonempty)
    with Cons False hd_split_on [of p s] show ?thesis by (cases s) auto
  qed
qed simp

lemma split_whitespace_ascii:
  "ascii_text s \<Longrightarrow> split_whitespace s = filter (\<lambda>w. w \<noteq> []) (split_on blank_char s)"
proof (induction "length s" arbitrary: s rule: less_induct)
  case less
  let ?t = "dropWhile blank_char s"
  have t: "trim_start s = ?t"
    using less.prems strip_all_ascii [of ws_seqs s] by (simp add: trim_start_def)
  show ?case
  proof (cases "?t = []")
    case True
    with t words_dropWhile [of blank_char s] show ?thesis by (simp add: split_whitespace.simps [of s])
  next
    case False
    have ascii: "ascii_text ?t" using less.prems by (auto dest: set_dropWhileD)
    let ?r = "dropWhile (\<lambda>c. \<not> blank_char c) ?t"
    have hd: "\<not> blank_char (hd ?t)" using hd_dropWhile [OF False] .
    have "length ?r < length ?t"
      using False hd by (cases ?t) (auto intro: le_less_trans [OF length_dropWhile_le])
    also have "length ?t \<le> length s" by (rule length_dropWhile_le)
    finally have "split_whitespace ?r = filter (\<lambda>w. w \<noteq> []) (split_on blank_char ?r)"
      using ascii by (intro less.hyps) (auto dest: set_dropWhileD)
    then have "split_whitespace s = takeWhile (\<lambda>c. \<not> blank_char c) ?t # filter (\<lambda>w. w \<noteq> []) (split_on blank_char ?r)"
      using t False take_word_ascii [OF ascii] by (simp add: split_whitespace.simps [of s])
    also have "\<dots> = filter (\<lambda>w. w \<noteq> []) (split_on blank_char ?t)"
      using words_takeWhile [of ?t blank_char] False hd by simp
    finally show ?thesis by (simp add: words_dropWhile)
  qed
qed

lemma split_on_trailing: "\<forall>c \<in> set t. p c \<Longrightarrow> split_on p (s @ t) = split_on p s @ map (\<lambda>_. []) t"
proof (induction s)
  case Nil
  then show ?case by (induction t) simp_all
next
  case (Cons x s)
  obtain y ys where "split_on p s = y # ys" by (meson neq_Nil_conv split_on_nonempty)
  with Cons show ?case by simp
qed

text \<open>The words of a line are those of the trimmed line.\<close>

definition words :: "string \<Rightarrow> string list" where
  "words s = filter (\<lambda>w. w \<noteq> []) (split_on blank_char s)"

lemma words_trailing: "\<forall>c \<in> set t. blank_char c \<Longrightarrow> words (s @ t) = words s"
  by (simp add: words_def split_on_trailing)

lemma words_blanks: "words (dropWhile blank_char s) = words s"
  by (simp add: words_def words_dropWhile)

lemma words_trimmed: "words (rev (dropWhile blank_char (rev s))) = words s"
proof -
  have "s = rev (dropWhile blank_char (rev s)) @ rev (takeWhile blank_char (rev s))"
    by (metis rev_append rev_rev_ident takeWhile_dropWhile_id)
  moreover have "\<forall>c \<in> set (rev (takeWhile blank_char (rev s))). blank_char c" by (auto dest: set_takeWhileD)
  ultimately show ?thesis using words_trailing by metis
qed

lemma split_trim:
  assumes "ascii_text s"
  shows "split_whitespace (trim s) = words s"
proof -
  have "ascii_text (rev (dropWhile blank_char (rev (dropWhile blank_char s))))"
    using assms by (metis set_dropWhileD set_rev)
  then show ?thesis
    by (simp only: trim_ascii [OF assms] split_whitespace_ascii flip: words_def) (simp only: words_trimmed words_blanks)
qed

section \<open>Parsing literals\<close>

lemma read_octets_numeral:
  "read_octets i (numeral k) s =
     (case read_separator (CHR ''.'') i (read_number 10 (Some 3) False 255) s of
        None \<Rightarrow> None
      | Some (o1, s') \<Rightarrow>
          (case read_octets (Suc i) (pred_numeral k) s' of None \<Rightarrow> None | Some (os, s'') \<Rightarrow> Some (o1 # os, s'')))"
  by (simp add: numeral_eq_Suc)

text \<open>Trimming adds no character, so a line without a colon heads no section of a routing table.\<close>

lemma set_strip_all: "set (strip_all_fuel ps n s) \<subseteq> set s"
proof (induction ps n s rule: strip_all_fuel.induct)
  case (2 ps n s)
  show ?case
  proof (cases "strip_any ps s")
    case (Some r)
    then have "set r \<subseteq> set s" by (auto dest: strip_any_SomeD)
    with "2.IH" [OF Some] Some show ?thesis by simp
  qed simp
qed simp

lemma set_trim: "set (trim s) \<subseteq> set s"
  using set_strip_all [of ws_seqs "length s" s]
    set_strip_all [of "map rev ws_seqs" "length (trim_start s)" "rev (trim_start s)"]
  by (auto simp: trim_def trim_end_def trim_start_def)

lemma no_colon_no_marker: "CHR '':'' \<notin> set l \<Longrightarrow> \<not> marker l"
proof -
  assume "CHR '':'' \<notin> set l"
  then have "CHR '':'' \<notin> set (trim l)" using set_trim by blast
  then show ?thesis by (auto simp: marker_def prefix_def)
qed

section \<open>Texts by their lines\<close>

text \<open>A text of the given lines, each with its newline, and possibly a last one without.\<close>

definition text_of :: "string list \<Rightarrow> string" where
  "text_of ls = concat (map (\<lambda>l. l @ [CHR 0x0A]) ls)"

lemma lines_text_of_append:
  "\<forall>l \<in> set ls. CHR 0x0A \<notin> set l \<and> CHR 0x0D \<notin> set l \<Longrightarrow> lines (text_of ls @ r) = ls @ lines r"
proof (induction ls)
  case (Cons l ls)
  then have "l \<noteq> [] \<longrightarrow> last l \<noteq> CHR 0x0D" by (metis last_in_set list.set_intros(1))
  then have cr: "strip_cr l = l" unfolding strip_cr_def by argo
  have "text_of (l # ls) @ r = l @ CHR 0x0A # text_of ls @ r" by (simp add: text_of_def)
  then have "lines (text_of (l # ls) @ r) = strip_cr l # lines (text_of ls @ r)"
    using Cons.prems by (simp add: lines_Cons)
  with cr Cons show ?case by simp
qed (simp add: text_of_def)

lemma lines_text_of:
  "\<forall>l \<in> set ls. CHR 0x0A \<notin> set l \<and> CHR 0x0D \<notin> set l \<Longrightarrow> lines (text_of ls) = ls"
  using lines_text_of_append [of ls "[]"] by simp

lemma lines_last: "l \<noteq> [] \<Longrightarrow> CHR 0x0A \<notin> set l \<Longrightarrow> lines l = [l]"
  by (simp add: lines_def split_char_none Let_def)

lemmas addr_eval = parse_ipv4_def parse_ip_def parse_socket_addr_def parse_with_def or_read_def read_socket_v4_def
  read_port_def read_ipv4_def read_octets_numeral read_separator_def read_number_def Let_def

lemmas number_eval = parse_u16_def parse_u32_def from_str_radix_def

lemmas text_eval = trim_ascii split_whitespace_ascii blank_char_bits ascii_graphic_bits

end
