(* ===== verification/Conf_Tests.thy ===== *)
theory Conf_Tests
  imports Ascii_Text
begin

text \<open>
  The unit tests of \<open>parse_conf\<close> in \<open>crates/wgclient/src/lib.rs\<close>, as propositions about the model under the names of
  the test functions. Base64 and \<open>ipnet\<close> are arguments; what the tests need of them is \<open>tests_read\<close>.
\<close>

section \<open>Scanning a line, by kinds\<close>

datatype scanned = Blank | Header string | Setting string string | Malformed

text \<open>
  A line scanned independently of the section it stands in, first with the program's \<open>trim\<close> and then with the one
  for ASCII texts, which evaluates.
\<close>

definition kind_with :: "(string \<Rightarrow> string) \<Rightarrow> string \<Rightarrow> scanned" where
  "kind_with t raw =
     (let line = t (hd (split_char (CHR ''#'') raw)) in
      if line = [] then Blank
      else (case strip_prefix ''['' line of
          Some name \<Rightarrow> Header (to_ascii_lowercase (t (trim_end_matches (CHR '']'') name)))
        | None \<Rightarrow>
            (case split_once (CHR ''='') line of
               None \<Rightarrow> Malformed
             | Some (k, v) \<Rightarrow> Setting (to_ascii_lowercase (t k)) (t v))))"

fun scan_kind :: "string \<Rightarrow> scanned \<Rightarrow> conf_state \<Rightarrow> conf_error + conf_state" where
  "scan_kind raw Blank st = Inr st"
| "scan_kind raw (Header name) (section_name, iface, peer) = Inr (name, iface, peer)"
| "scan_kind raw (Setting k v) (section_name, iface, peer) =
     (if section_name = ''interface'' then Inr (section_name, iface(k \<mapsto> v), peer)
      else if section_name = ''peer'' then Inr (section_name, iface, peer(k \<mapsto> v))
      else Inl (UnknownSection k section_name))"
| "scan_kind raw Malformed st = Inl (MalformedLine raw)"

lemma scan_line_kind: "scan_line raw st = scan_kind raw (kind_with trim raw) st"
  by (cases st) (simp add: scan_line_def kind_with_def Let_def split: option.split prod.split)

definition ascii_trim :: "string \<Rightarrow> string" where
  "ascii_trim s = rev (dropWhile blank_char (rev (dropWhile blank_char s)))"

lemma set_ascii_trim: "set (ascii_trim s) \<subseteq> set s"
  by (auto simp: ascii_trim_def dest!: set_dropWhileD)

lemma trim_is_ascii_trim: "ascii_text s \<Longrightarrow> trim s = ascii_trim s"
  by (simp add: trim_ascii ascii_trim_def)

lemma set_hd_split_on: "set (hd (split_on p s)) \<subseteq> set s"
  by (auto simp: hd_split_on dest: set_takeWhileD)

lemma kind_ascii:
  assumes "ascii_text raw"
  shows "kind_with trim raw = kind_with ascii_trim raw"
proof -
  let ?line = "ascii_trim (hd (split_char (CHR ''#'') raw))"
  have first: "ascii_text (hd (split_char (CHR ''#'') raw))" 
    using assms set_hd_split_on [of "\<lambda>x. x = CHR ''#''" raw] by (simp add: split_char_def) blast
  then have line: "ascii_text ?line" using set_ascii_trim by blast
  show ?thesis
  proof (cases "strip_prefix ''['' ?line")
    case (Some name)
    then have "set name \<subseteq> set ?line" using strip_prefix_SomeD [OF Some] by auto
    then have "ascii_text (trim_end_matches (CHR '']'') name)"
      using line by (auto simp: trim_end_matches_def dest!: set_dropWhileD)
    with Some show ?thesis by (simp add: kind_with_def Let_def trim_is_ascii_trim [OF first] trim_is_ascii_trim)
  next
    case None
    show ?thesis
    proof (cases "split_once (CHR ''='') ?line")
      case (Some kv)
      obtain k v where kv: "kv = (k, v)" by (cases kv)
      then have split: "?line = k @ CHR ''='' # v" using split_once_SomeD [OF Some [unfolded kv]] by blast
      then have "set k \<subseteq> set ?line" "set v \<subseteq> set ?line" by (simp_all only: split set_append set_simps) auto
      then have "ascii_text k" "ascii_text v" using line by blast+
      with None Some kv show ?thesis
        by (simp add: kind_with_def Let_def trim_is_ascii_trim [OF first] trim_is_ascii_trim)
    qed (use None in \<open>simp add: kind_with_def Let_def trim_is_ascii_trim [OF first]\<close>)
  qed
qed

fun scan_kinds :: "(string \<times> scanned) list \<Rightarrow> conf_state \<Rightarrow> conf_error + conf_state" where
  "scan_kinds [] st = Inr st"
| "scan_kinds ((l, k) # ls) st = and_then (scan_kind l k st) (scan_kinds ls)"

lemma scan_lines_kinds:
  "list_all (\<lambda>l. ascii_text l) ls \<Longrightarrow> scan_lines ls st = scan_kinds (zip ls (map (kind_with ascii_trim) ls)) st"
proof (induction ls arbitrary: st)
  case (Cons l ls)
  then have "scan_lines ls = scan_kinds (zip ls (map (kind_with ascii_trim) ls))" by (intro ext) simp
  with Cons.prems show ?case by (simp add: scan_line_kind kind_ascii)
qed simp

section \<open>The texts\<close>

definition PRIV :: string where
  "PRIV = ''qJ9Uq0Ie6/1bV2h0TaXGqUcyqO5qOZ0JqJLQqPqXmFo=''"

definition PUB :: string where
  "PUB = ''1Y0HGMRPPPDCF9BZSGKbiRKFJvCDSCgjF3gVCFkFYxc=''"

definition tabs :: string where
  "tabs = [CHR 0x09, CHR 0x09, CHR 0x09]"

definition full_lines :: "string list" where
  "full_lines =
    [[],
     tabs @ ''[Interface]  # our side'',
     tabs @ ''PrivateKey = '' @ PRIV,
     tabs @ ''Address = 10.7.0.2/32, fd00::2/128'',
     tabs @ ''DNS = 1.1.1.1, 9.9.9.9, corp.example'',
     tabs @ ''MTU=1400'',
     [],
     tabs @ ''[Peer]'',
     tabs @ ''PublicKey='' @ PUB,
     tabs @ ''PresharedKey = '' @ PRIV,
     tabs @ ''allowedips = 0.0.0.0/0, ::/0'',
     tabs @ ''Endpoint = vpn.example.com:51820'',
     tabs @ ''PersistentKeepalive = 25'']"

definition full_conf :: string where
  "full_conf = text_of full_lines @ [CHR 0x09, CHR 0x09]"

definition base_lines :: "string list" where
  "base_lines = [''[Interface]'', ''PrivateKey='' @ PRIV, ''Address=10.7.0.2'', ''[Peer]'', ''PublicKey='' @ PUB]"

definition minimal_lines :: "string list" where
  "minimal_lines =
    [''[Interface]'', ''PrivateKey='' @ PRIV, ''Address=10.7.0.2/32'', ''[Peer]'', ''PublicKey='' @ PUB,
     ''Endpoint=203.0.113.9:51820'']"

section \<open>The tests\<close>

fun ok_with :: "('a \<Rightarrow> bool) \<Rightarrow> 'e + 'a \<Rightarrow> bool" where
  "ok_with P (Inl e) = False"
| "ok_with P (Inr x) = P x"

definition full_conf_parses :: "key_lib \<Rightarrow> 'net net_text \<Rightarrow> bool" where
  "full_conf_parses K N \<longleftrightarrow>
     ok_with (\<lambda>cfg. nt_parse N ''10.7.0.2/32'' = Some (cc_address cfg) \<and>
         cc_dns cfg = [V4 (v4_addr 1 1 1 1), V4 (v4_addr 9 9 9 9)] \<and> cc_mtu cfg = 1400 \<and> cc_keepalive cfg = Some 25 \<and>
         length (cc_allowed_ips cfg) = 2 \<and> cc_preshared_key cfg = Some PRIV \<and>
         cc_endpoint cfg = EpUdpHost ''vpn.example.com:51820'')
       (parse_conf K N full_conf)"

definition endpoints_pick_their_transport :: "key_lib \<Rightarrow> 'net net_text \<Rightarrow> bool" where
  "endpoints_pick_their_transport K N \<longleftrightarrow>
     (let parse = \<lambda>more. parse_conf K N (text_of (base_lines @ more)) in
      ok_with (\<lambda>ws. cc_endpoint ws = EpWs ''wss://vpn.example.com/tunnel'' True \<and> cc_mtu ws = 1380 \<and>
          nt_parse N ''10.7.0.2/32'' = Some (cc_address ws))
        (parse [''Endpoint = wss://vpn.example.com/tunnel'', ''InsecureTls = true'']) \<and>
      ok_with (\<lambda>udp. cc_endpoint udp = EpUdp (sock (V4 (v4_addr 203 0 113 9)) 51820) \<and> cc_mtu udp = 1420 \<and>
          cc_keepalive udp = None \<and> cc_allowed_ips udp = [] \<and> cc_dns udp = [])
        (parse [''Endpoint = 203.0.113.9:51820'']) \<and>
      ok_with (\<lambda>upper. cc_endpoint upper = EpWs ''WS://host:8080/x'' False)
        (parse [''Endpoint = WS://host:8080/x'']))"

text \<open>\<open>join\<close>: the lines with newlines between them.\<close>

definition joined :: "string list \<Rightarrow> string" where
  "joined ls = text_of (butlast ls) @ last ls"

definition missing_and_broken_keys_are_rejected :: "key_lib \<Rightarrow> 'net net_text \<Rightarrow> bool" where
  "missing_and_broken_keys_are_rejected K N \<longleftrightarrow>
     is_ok (parse_conf K N (text_of minimal_lines)) \<and>
     list_all (\<lambda>gone. \<not> is_ok (parse_conf K N (joined (filter (\<lambda>l. \<not> prefix gone l) minimal_lines))))
       [''PrivateKey'', ''Address'', ''PublicKey'', ''Endpoint''] \<and>
     \<not> is_ok (parse_conf K N (text_of (minimal_lines[1 := ''PrivateKey=notakey'']))) \<and>
     \<not> is_ok (parse_conf K N (text_of (minimal_lines[5 := ''Endpoint=vpn.example.com'']))) \<and>
     \<not> is_ok (parse_conf K N (''PrivateKey='' @ PRIV))"

lemma full_kinds:
  "map (kind_with ascii_trim) full_lines =
    [Blank, Header ''interface'', Setting ''privatekey'' PRIV, Setting ''address'' ''10.7.0.2/32, fd00::2/128'',
     Setting ''dns'' ''1.1.1.1, 9.9.9.9, corp.example'', Setting ''mtu'' ''1400'', Blank, Header ''peer'',
     Setting ''publickey'' PUB, Setting ''presharedkey'' PRIV, Setting ''allowedips'' ''0.0.0.0/0, ::/0'',
     Setting ''endpoint'' ''vpn.example.com:51820'', Setting ''persistentkeepalive'' ''25'']"
  by code_simp

text \<open>
  What the tests need of base64 and \<open>ipnet\<close>: the two keys are keys and \<open>notakey\<close> is none, the networks they name
  parse, and an address alone is its host network.
\<close>

definition tests_read :: "key_lib \<Rightarrow> 'net net_text \<Rightarrow> bool" where
  "tests_read K N \<longleftrightarrow>
     is_ok (decode_key K PRIV) \<and> is_ok (decode_key K PUB) \<and> \<not> is_ok (decode_key K ''notakey'') \<and>
     nt_parse N ''10.7.0.2/32'' \<noteq> None \<and> nt_new N (V4 (v4_addr 10 7 0 2)) 32 = nt_parse N ''10.7.0.2/32'' \<and>
     nt_parse N ''0.0.0.0/0'' \<noteq> None \<and> nt_parse N ''::/0'' \<noteq> None"

lemma tests_readD:
  assumes "tests_read K N"
  obtains priv pub net default4 default6 where "decode_key K PRIV = Inr priv" "decode_key K PUB = Inr pub"
    "nt_parse N ''10.7.0.2/32'' = Some net" "nt_new N (V4 (v4_addr 10 7 0 2)) 32 = Some net"
    "nt_parse N ''0.0.0.0/0'' = Some default4" "nt_parse N ''::/0'' = Some default6"
  using assms by (auto simp: tests_read_def is_ok_iff)

lemma full_ascii: "list_all (\<lambda>l. list_all (\<lambda>c. blank_char c \<or> ascii_graphic c) l) (full_lines @ [[CHR 0x09, CHR 0x09]])"
  by code_simp

lemma full_scan: "scan_lines (lines full_conf) ([], Map.empty, Map.empty) = Inr (''peer'',
   [''privatekey'' \<mapsto> PRIV, ''address'' \<mapsto> ''10.7.0.2/32, fd00::2/128'', ''dns'' \<mapsto> ''1.1.1.1, 9.9.9.9, corp.example'', ''mtu'' \<mapsto> ''1400''],
   [''publickey'' \<mapsto> PUB, ''presharedkey'' \<mapsto> PRIV, ''allowedips'' \<mapsto> ''0.0.0.0/0, ::/0'',
    ''endpoint'' \<mapsto> ''vpn.example.com:51820'', ''persistentkeepalive'' \<mapsto> ''25''])"
proof -
  have "\<forall>l \<in> set full_lines. CHR 0x0A \<notin> set l \<and> CHR 0x0D \<notin> set l"
    by (simp add: full_lines_def tabs_def PRIV_def PUB_def)
  then have "lines full_conf = full_lines @ [[CHR 0x09, CHR 0x09]]"
    by (simp add: full_conf_def lines_text_of_append lines_last)
  moreover have "map (kind_with ascii_trim) [[CHR 0x09, CHR 0x09]] = [Blank]" by code_simp
  ultimately have "scan_lines (lines full_conf) st = scan_kinds (zip (full_lines @ [[CHR 0x09, CHR 0x09]])
      (map (kind_with ascii_trim) full_lines @ [Blank])) st" for st
    using scan_lines_kinds [of "full_lines @ [[CHR 0x09, CHR 0x09]]" st] full_ascii by (simp add: list_all_iff)
  then show ?thesis unfolding full_kinds by (simp add: full_lines_def)
qed

lemma full_address: "conf_address N ''10.7.0.2/32, fd00::2/128'' = ok_or BadAddress (nt_parse N ''10.7.0.2/32'')"
  by (simp add: conf_address_def split_char_def text_eval Let_def)

lemma full_pieces:
  "map ascii_trim (split_char (CHR '','') ''1.1.1.1, 9.9.9.9, corp.example'') = [''1.1.1.1'', ''9.9.9.9'', ''corp.example'']"
  "list_all (\<lambda>s. list_all (\<lambda>c. blank_char c \<or> ascii_graphic c) s) (split_char (CHR '','') ''1.1.1.1, 9.9.9.9, corp.example'')"
  "map ascii_trim (split_char (CHR '','') ''0.0.0.0/0, ::/0'') = [''0.0.0.0/0'', ''::/0'']"
  "list_all (\<lambda>s. list_all (\<lambda>c. blank_char c \<or> ascii_graphic c) s) (split_char (CHR '','') ''0.0.0.0/0, ::/0'')"
  by code_simp+

lemma full_addresses: "parse_ip ''1.1.1.1'' = Some (V4 (v4_addr 1 1 1 1))" "parse_ip ''9.9.9.9'' = Some (V4 (v4_addr 9 9 9 9))"
  by (simp_all add: addr_eval v4_addr_def)

lemma full_name: "parse_ip ''corp.example'' = None"
proof -
  have "read_groups 8 1 [12] ''orp.example'' = ([12], False, ''orp.example'')"
    by (subst read_groups.simps) (simp add: addr_eval)
  then have "read_groups 8 0 [] ''corp.example'' = ([12], False, ''orp.example'')"
    by (subst read_groups.simps) (simp add: addr_eval)
  then show ?thesis by (simp add: addr_eval read_ipv6_def)
qed

lemma trims_of:
  assumes "map ascii_trim ps = qs" "list_all (\<lambda>s. list_all (\<lambda>c. blank_char c \<or> ascii_graphic c) s) ps"
  shows "map trim ps = qs"
  using assms by (auto simp: list_all_iff trim_is_ascii_trim)

lemma full_dns: "conf_dns (Some ''1.1.1.1, 9.9.9.9, corp.example'') = [V4 (v4_addr 1 1 1 1), V4 (v4_addr 9 9 9 9)]"
proof -
  have "List.map_filter (\<lambda>d. parse_ip (trim d)) ps = List.map_filter parse_ip (map trim ps)" for ps
    by (induction ps) (simp_all add: List.map_filter_def)
  then show ?thesis
    using trims_of [OF full_pieces(1,2)] by (simp add: conf_dns_def map_filter_simps full_addresses full_name)
qed

lemma full_allowed:
  assumes "nt_parse N ''0.0.0.0/0'' = Some a" "nt_parse N ''::/0'' = Some b"
  shows "conf_allowed_ips N (Some ''0.0.0.0/0, ::/0'') = Inr [a, b]"
proof -
  have pieces: "split_char (CHR '','') ''0.0.0.0/0, ::/0'' = [''0.0.0.0/0'', '' ::/0'']" by (simp add: split_char_def)
  then have "trim ''0.0.0.0/0'' = ''0.0.0.0/0''" "trim '' ::/0'' = ''::/0''" using trims_of [OF full_pieces(3,4)] by simp_all
  with assms show ?thesis by (simp add: conf_allowed_ips_def pieces)
qed

lemma endpoints_read:
  "conf_endpoint ''vpn.example.com:51820'' b = Inr (EpUdpHost ''vpn.example.com:51820'')"
  "conf_endpoint ''203.0.113.9:51820'' b = Inr (EpUdp (sock (V4 (v4_addr 203 0 113 9)) 51820))"
  "conf_endpoint ''wss://vpn.example.com/tunnel'' b = Inr (EpWs ''wss://vpn.example.com/tunnel'' b)"
  "conf_endpoint ''WS://host:8080/x'' b = Inr (EpWs ''WS://host:8080/x'' b)"
  "\<not> is_ok (conf_endpoint ''vpn.example.com'' b)"
proof -
  have lower: "to_ascii_lowercase ''vpn.example.com:51820'' = ''vpn.example.com:51820''"
    "to_ascii_lowercase ''203.0.113.9:51820'' = ''203.0.113.9:51820''"
    "to_ascii_lowercase ''wss://vpn.example.com/tunnel'' = ''wss://vpn.example.com/tunnel''"
    "to_ascii_lowercase ''WS://host:8080/x'' = ''ws://host:8080/x''"
    "to_ascii_lowercase ''vpn.example.com'' = ''vpn.example.com''"
    by code_simp+
  have parsed: "parse_socket_addr ''vpn.example.com:51820'' = None" "parse_socket_addr ''vpn.example.com'' = None"
    "parse_socket_addr ''203.0.113.9:51820'' = Some (sock (V4 (v4_addr 203 0 113 9)) 51820)"
    by (simp_all add: addr_eval read_socket_v6_def v4_addr_def)
  show "conf_endpoint ''vpn.example.com:51820'' b = Inr (EpUdpHost ''vpn.example.com:51820'')"
    "conf_endpoint ''203.0.113.9:51820'' b = Inr (EpUdp (sock (V4 (v4_addr 203 0 113 9)) 51820))"
    "conf_endpoint ''wss://vpn.example.com/tunnel'' b = Inr (EpWs ''wss://vpn.example.com/tunnel'' b)"
    "conf_endpoint ''WS://host:8080/x'' b = Inr (EpWs ''WS://host:8080/x'' b)"
    "\<not> is_ok (conf_endpoint ''vpn.example.com'' b)"
    by (simp_all add: conf_endpoint_def lower parsed Let_def number_eval)
qed

lemma addresses_read:
  "conf_address N ''10.7.0.2/32, fd00::2/128'' = ok_or BadAddress (nt_parse N ''10.7.0.2/32'')"
  "conf_address N ''10.7.0.2/32'' = ok_or BadAddress (nt_parse N ''10.7.0.2/32'')"
  "conf_address N ''10.7.0.2'' = ok_or BadAddress (nt_new N (V4 (v4_addr 10 7 0 2)) 32)"
  by (simp_all add: conf_address_def split_char_def text_eval Let_def addr_eval v4_addr_def)

lemma full_conf_parses:
  assumes "tests_read K N"
  shows "full_conf_parses K N"
proof -
  obtain priv pub net default4 default6 where r: "decode_key K PRIV = Inr priv" "decode_key K PUB = Inr pub"
    "nt_parse N ''10.7.0.2/32'' = Some net" "nt_new N (V4 (v4_addr 10 7 0 2)) 32 = Some net"
    "nt_parse N ''0.0.0.0/0'' = Some default4" "nt_parse N ''::/0'' = Some default6"
    using assms by (rule tests_readD)
  have numbers: "conf_number e (Some ''1400'') = Inr (Some 1400)" "conf_number e (Some ''25'') = Inr (Some 25)" for e
    by (simp_all add: conf_number_def number_eval)
  show ?thesis
    unfolding full_conf_parses_def parse_conf_def full_scan
    by (simp add: conf_fields_def r addresses_read full_allowed [OF r(5,6)] endpoints_read numbers full_dns)
qed

text \<open>Texts of lines of printable characters and blanks, by the kinds of their lines.\<close>

definition printable_line :: "string \<Rightarrow> bool" where
  "printable_line l \<longleftrightarrow> list_all (\<lambda>c. c = CHR 0x20 \<or> ascii_graphic c) l"

lemma printable_lineD: "printable_line l \<Longrightarrow> ascii_text l \<and> CHR 0x0A \<notin> set l \<and> CHR 0x0D \<notin> set l"
  using graphic_not_control by (fastforce simp: printable_line_def list_all_iff blank_char_def)

lemma scan_text:
  assumes "list_all printable_line ls"
  shows "scan_lines (lines (text_of ls)) st = scan_kinds (zip ls (map (kind_with ascii_trim) ls)) st"
    and "ls \<noteq> [] \<Longrightarrow> last ls \<noteq> [] \<Longrightarrow>
      scan_lines (lines (joined ls)) st = scan_kinds (zip ls (map (kind_with ascii_trim) ls)) st"
proof -
  have ls: "\<forall>l \<in> set ls. ascii_text l \<and> CHR 0x0A \<notin> set l \<and> CHR 0x0D \<notin> set l"
    using assms printable_lineD by (auto simp: list_all_iff)
  then have kinds: "scan_lines ls st = scan_kinds (zip ls (map (kind_with ascii_trim) ls)) st"
    by (intro scan_lines_kinds) (simp add: list_all_iff)
  have "lines (text_of ls) = ls" using ls by (intro lines_text_of) blast
  with kinds show "scan_lines (lines (text_of ls)) st = scan_kinds (zip ls (map (kind_with ascii_trim) ls)) st" by simp
  assume ne: "ls \<noteq> []" "last ls \<noteq> []"
  have "lines (joined ls) = butlast ls @ lines (last ls)"
    unfolding joined_def using ls by (intro lines_text_of_append) (auto dest: in_set_butlastD)
  also have "lines (last ls) = [last ls]" using ls ne by (intro lines_last) auto
  finally have "lines (joined ls) = ls" using ne(1) by simp
  with kinds show "scan_lines (lines (joined ls)) st = scan_kinds (zip ls (map (kind_with ascii_trim) ls)) st" by simp
qed

lemma line_kinds:
  "kind_with ascii_trim ''[Interface]'' = Header ''interface''"
  "kind_with ascii_trim (''PrivateKey='' @ PRIV) = Setting ''privatekey'' PRIV"
  "kind_with ascii_trim ''Address=10.7.0.2'' = Setting ''address'' ''10.7.0.2''"
  "kind_with ascii_trim ''Address=10.7.0.2/32'' = Setting ''address'' ''10.7.0.2/32''"
  "kind_with ascii_trim ''[Peer]'' = Header ''peer''"
  "kind_with ascii_trim (''PublicKey='' @ PUB) = Setting ''publickey'' PUB"
  "kind_with ascii_trim ''Endpoint=203.0.113.9:51820'' = Setting ''endpoint'' ''203.0.113.9:51820''"
  "kind_with ascii_trim ''PrivateKey=notakey'' = Setting ''privatekey'' ''notakey''"
  "kind_with ascii_trim ''Endpoint=vpn.example.com'' = Setting ''endpoint'' ''vpn.example.com''"
  by code_simp+

lemma base_printable: "list_all printable_line (base_lines @ minimal_lines @ [''PrivateKey=notakey'', ''Endpoint=vpn.example.com''])"
  by code_simp

lemma base_kinds:
  "map (kind_with ascii_trim) base_lines =
    [Header ''interface'', Setting ''privatekey'' PRIV, Setting ''address'' ''10.7.0.2'', Header ''peer'', Setting ''publickey'' PUB]"
  "map (kind_with ascii_trim) minimal_lines =
    [Header ''interface'', Setting ''privatekey'' PRIV, Setting ''address'' ''10.7.0.2/32'', Header ''peer'',
     Setting ''publickey'' PUB, Setting ''endpoint'' ''203.0.113.9:51820'']"
  by (simp_all only: base_lines_def minimal_lines_def list.map line_kinds)

lemma true_is_truthy: "truthy ''true''"
  by code_simp

text \<open>A test's file: the lines of the base, then some settings of the peer.\<close>

lemma parse_base:
  assumes "list_all printable_line extra" "map (kind_with ascii_trim) extra = ks"
  shows "parse_conf K N (text_of (base_lines @ extra)) = and_then
     (scan_kinds (zip extra ks) (''peer'', [''privatekey'' \<mapsto> PRIV, ''address'' \<mapsto> ''10.7.0.2''], [''publickey'' \<mapsto> PUB]))
     (\<lambda>(_, iface, peer). conf_fields K N iface peer)"
proof -
  have "list_all printable_line (base_lines @ extra)" using base_printable assms(1) by simp
  from scan_text(1) [OF this]
  have "parse_conf K N (text_of (base_lines @ extra)) = and_then
      (scan_kinds (zip (base_lines @ extra) (map (kind_with ascii_trim) base_lines @ ks)) ([], Map.empty, Map.empty))
      (\<lambda>(_, iface, peer). conf_fields K N iface peer)"
    by (simp add: parse_conf_def assms(2))
  then show ?thesis unfolding base_kinds by (simp add: base_lines_def)
qed

lemma ws_lines:
  "list_all printable_line [''Endpoint = wss://vpn.example.com/tunnel'', ''InsecureTls = true'']"
  "map (kind_with ascii_trim) [''Endpoint = wss://vpn.example.com/tunnel'', ''InsecureTls = true''] =
     [Setting ''endpoint'' ''wss://vpn.example.com/tunnel'', Setting ''insecuretls'' ''true'']"
  by code_simp+

lemma udp_lines:
  "list_all printable_line [''Endpoint = 203.0.113.9:51820'']"
  "map (kind_with ascii_trim) [''Endpoint = 203.0.113.9:51820''] = [Setting ''endpoint'' ''203.0.113.9:51820'']"
  by code_simp+

lemma upper_lines:
  "list_all printable_line [''Endpoint = WS://host:8080/x'']"
  "map (kind_with ascii_trim) [''Endpoint = WS://host:8080/x''] = [Setting ''endpoint'' ''WS://host:8080/x'']"
  by code_simp+

lemma unset_fields: "conf_dns None = []" "conf_allowed_ips N None = Inr []" "conf_number e None = Inr None"
  by (simp_all add: conf_dns_def conf_allowed_ips_def conf_number_def)

lemma endpoints_pick_their_transport:
  assumes "tests_read K N"
  shows "endpoints_pick_their_transport K N"
proof -
  obtain priv pub net default4 default6 where r: "decode_key K PRIV = Inr priv" "decode_key K PUB = Inr pub"
    "nt_parse N ''10.7.0.2/32'' = Some net" "nt_new N (V4 (v4_addr 10 7 0 2)) 32 = Some net"
    "nt_parse N ''0.0.0.0/0'' = Some default4" "nt_parse N ''::/0'' = Some default6"
    using assms by (rule tests_readD)
  show ?thesis
    unfolding endpoints_pick_their_transport_def Let_def parse_base [OF ws_lines] parse_base [OF udp_lines]
      parse_base [OF upper_lines]
    by (simp add: conf_fields_def r addresses_read endpoints_read true_is_truthy unset_fields)
qed

text \<open>The complete file parses, and no file does that lacks a line or has a broken one.\<close>

lemma gone_lines:
  "filter (\<lambda>l. \<not> prefix ''PrivateKey'' l) minimal_lines =
     [''[Interface]'', ''Address=10.7.0.2/32'', ''[Peer]'', ''PublicKey='' @ PUB, ''Endpoint=203.0.113.9:51820'']"
  "filter (\<lambda>l. \<not> prefix ''Address'' l) minimal_lines =
     [''[Interface]'', ''PrivateKey='' @ PRIV, ''[Peer]'', ''PublicKey='' @ PUB, ''Endpoint=203.0.113.9:51820'']"
  "filter (\<lambda>l. \<not> prefix ''PublicKey'' l) minimal_lines =
     [''[Interface]'', ''PrivateKey='' @ PRIV, ''Address=10.7.0.2/32'', ''[Peer]'', ''Endpoint=203.0.113.9:51820'']"
  "filter (\<lambda>l. \<not> prefix ''Endpoint'' l) minimal_lines =
     [''[Interface]'', ''PrivateKey='' @ PRIV, ''Address=10.7.0.2/32'', ''[Peer]'', ''PublicKey='' @ PUB]"
  by (simp_all add: minimal_lines_def)

lemma gone_kinds:
  "map (kind_with ascii_trim) [''[Interface]'', ''Address=10.7.0.2/32'', ''[Peer]'', ''PublicKey='' @ PUB, ''Endpoint=203.0.113.9:51820''] =
     [Header ''interface'', Setting ''address'' ''10.7.0.2/32'', Header ''peer'', Setting ''publickey'' PUB, Setting ''endpoint'' ''203.0.113.9:51820'']"
  "map (kind_with ascii_trim) [''[Interface]'', ''PrivateKey='' @ PRIV, ''[Peer]'', ''PublicKey='' @ PUB, ''Endpoint=203.0.113.9:51820''] =
     [Header ''interface'', Setting ''privatekey'' PRIV, Header ''peer'', Setting ''publickey'' PUB, Setting ''endpoint'' ''203.0.113.9:51820'']"
  "map (kind_with ascii_trim) [''[Interface]'', ''PrivateKey='' @ PRIV, ''Address=10.7.0.2/32'', ''[Peer]'', ''Endpoint=203.0.113.9:51820''] =
     [Header ''interface'', Setting ''privatekey'' PRIV, Setting ''address'' ''10.7.0.2/32'', Header ''peer'', Setting ''endpoint'' ''203.0.113.9:51820'']"
  "map (kind_with ascii_trim) [''[Interface]'', ''PrivateKey='' @ PRIV, ''Address=10.7.0.2/32'', ''[Peer]'', ''PublicKey='' @ PUB] =
     [Header ''interface'', Setting ''privatekey'' PRIV, Setting ''address'' ''10.7.0.2/32'', Header ''peer'', Setting ''publickey'' PUB]"
  by (simp_all only: list.map line_kinds)

lemma parse_gone:
  assumes "filter (\<lambda>l. \<not> prefix gone l) minimal_lines = ls" "map (kind_with ascii_trim) ls = ks" "ls \<noteq> []" "last ls \<noteq> []"
  shows "parse_conf K N (joined (filter (\<lambda>l. \<not> prefix gone l) minimal_lines)) =
    and_then (scan_kinds (zip ls ks) ([], Map.empty, Map.empty)) (\<lambda>(_, iface, peer). conf_fields K N iface peer)"
proof -
  have "list_all printable_line ls"
    using base_printable unfolding assms(1) [symmetric] by (auto simp: list_all_iff)
  from scan_text(2) [OF this assms(3,4)] show ?thesis by (simp add: parse_conf_def assms(1,2))
qed

lemma broken_lines:
  "minimal_lines[1 := ''PrivateKey=notakey''] =
     [''[Interface]'', ''PrivateKey=notakey'', ''Address=10.7.0.2/32'', ''[Peer]'', ''PublicKey='' @ PUB, ''Endpoint=203.0.113.9:51820'']"
  "minimal_lines[5 := ''Endpoint=vpn.example.com''] =
     [''[Interface]'', ''PrivateKey='' @ PRIV, ''Address=10.7.0.2/32'', ''[Peer]'', ''PublicKey='' @ PUB, ''Endpoint=vpn.example.com'']"
  by (simp_all add: minimal_lines_def)

lemma broken_kinds:
  "map (kind_with ascii_trim) (minimal_lines[1 := ''PrivateKey=notakey'']) =
    [Header ''interface'', Setting ''privatekey'' ''notakey'', Setting ''address'' ''10.7.0.2/32'', Header ''peer'',
     Setting ''publickey'' PUB, Setting ''endpoint'' ''203.0.113.9:51820'']"
  "map (kind_with ascii_trim) (minimal_lines[5 := ''Endpoint=vpn.example.com'']) =
    [Header ''interface'', Setting ''privatekey'' PRIV, Setting ''address'' ''10.7.0.2/32'', Header ''peer'',
     Setting ''publickey'' PUB, Setting ''endpoint'' ''vpn.example.com'']"
  by (simp_all only: broken_lines list.map line_kinds)

lemma broken_printable:
  "list_all printable_line minimal_lines"
  "list_all printable_line (minimal_lines[1 := ''PrivateKey=notakey''])"
  "list_all printable_line (minimal_lines[5 := ''Endpoint=vpn.example.com''])"
  using base_printable unfolding broken_lines by (simp_all only: base_lines_def minimal_lines_def list.pred_inject append.simps)

lemma broken_scan:
  "scan_lines (lines (text_of minimal_lines)) ([], Map.empty, Map.empty) =
     Inr (''peer'', [''privatekey'' \<mapsto> PRIV, ''address'' \<mapsto> ''10.7.0.2/32''], [''publickey'' \<mapsto> PUB, ''endpoint'' \<mapsto> ''203.0.113.9:51820''])"
  "scan_lines (lines (text_of (minimal_lines[1 := ''PrivateKey=notakey'']))) ([], Map.empty, Map.empty) =
     Inr (''peer'', [''privatekey'' \<mapsto> ''notakey'', ''address'' \<mapsto> ''10.7.0.2/32''], [''publickey'' \<mapsto> PUB, ''endpoint'' \<mapsto> ''203.0.113.9:51820''])"
  "scan_lines (lines (text_of (minimal_lines[5 := ''Endpoint=vpn.example.com'']))) ([], Map.empty, Map.empty) =
     Inr (''peer'', [''privatekey'' \<mapsto> PRIV, ''address'' \<mapsto> ''10.7.0.2/32''], [''publickey'' \<mapsto> PUB, ''endpoint'' \<mapsto> ''vpn.example.com''])"
  unfolding scan_text(1) [OF broken_printable(1)] base_kinds(2) scan_text(1) [OF broken_printable(2)] broken_kinds(1)
    scan_text(1) [OF broken_printable(3)] broken_kinds(2)
  by (simp_all add: minimal_lines_def)

lemma stray_scan: "scan_lines (lines (''PrivateKey='' @ PRIV)) ([], Map.empty, Map.empty) = Inl (UnknownSection ''privatekey'' [])"
proof -
  have "joined [''PrivateKey='' @ PRIV] = ''PrivateKey='' @ PRIV" by (simp add: joined_def text_of_def)
  moreover have "list_all printable_line [''PrivateKey='' @ PRIV]"
    using base_printable by (simp only: base_lines_def list.pred_inject append.simps)
  ultimately show ?thesis
    using scan_text(2) [of "[''PrivateKey='' @ PRIV]" "([], Map.empty, Map.empty)"] line_kinds(2)
    by (simp del: append.simps)
qed

lemma missing_and_broken_keys_are_rejected:
  assumes "tests_read K N"
  shows "missing_and_broken_keys_are_rejected K N"
proof -
  obtain priv pub net default4 default6 where r: "decode_key K PRIV = Inr priv" "decode_key K PUB = Inr pub"
    "nt_parse N ''10.7.0.2/32'' = Some net" "nt_new N (V4 (v4_addr 10 7 0 2)) 32 = Some net"
    "nt_parse N ''0.0.0.0/0'' = Some default4" "nt_parse N ''::/0'' = Some default6"
    using assms by (rule tests_readD)
  have nokey: "\<not> is_ok (decode_key K ''notakey'')" using assms by (simp add: tests_read_def)
  note eval = conf_fields_def r addresses_read endpoints_read unset_fields
  have "is_ok (parse_conf K N (text_of minimal_lines))"
    unfolding parse_conf_def broken_scan(1) by (simp add: eval)
  moreover have "\<not> is_ok (parse_conf K N (text_of (minimal_lines[1 := ''PrivateKey=notakey''])))"
    unfolding parse_conf_def broken_scan(2) using nokey by (cases "decode_key K ''notakey''") (simp_all add: conf_fields_def)
  moreover have "\<not> is_ok (parse_conf K N (text_of (minimal_lines[5 := ''Endpoint=vpn.example.com''])))"
    unfolding parse_conf_def broken_scan(3) using endpoints_read(5) [of False]
    by (cases "conf_endpoint ''vpn.example.com'' False") (simp_all add: eval del: endpoints_read)
  moreover have "\<not> is_ok (parse_conf K N (''PrivateKey='' @ PRIV))"
    unfolding parse_conf_def stray_scan by simp
  moreover have "list_all (\<lambda>gone. \<not> is_ok (parse_conf K N (joined (filter (\<lambda>l. \<not> prefix gone l) minimal_lines))))
       [''PrivateKey'', ''Address'', ''PublicKey'', ''Endpoint'']"
    using parse_gone [OF gone_lines(1) gone_kinds(1), of K N] parse_gone [OF gone_lines(2) gone_kinds(2), of K N]
      parse_gone [OF gone_lines(3) gone_kinds(3), of K N] parse_gone [OF gone_lines(4) gone_kinds(4), of K N]
    by (simp add: eval)
  ultimately show ?thesis by (simp add: missing_and_broken_keys_are_rejected_def)
qed

end
