(* ===== verification/Handshake_Tests.thy ===== *)
theory Handshake_Tests
  imports Wgcore
begin

text \<open>
  The unit tests of \<open>crates/wgcore/src/lib.rs\<close> that run handshakes, as propositions about the model under the names
  of the test functions. A client's initiation is an argument, and what boringtun does with it is
  \<open>handshakes_documented\<close>.
\<close>

section \<open>What the tests rely on in boringtun\<close>

text \<open>
  \<open>load\<close> is what the rate limiter has counted since its last reset. Each check of an initiation counts, the one of
  \<open>verify_packet\<close> and the one a session makes when it decapsulates; past the limit it is answered with a cookie. Below
  it an initiation names its client's key, a fresh session for that key answers it, and once it has been answered a
  replay of it is an error.
\<close>

definition answers_once ::
  "('t, 'l, 'i) boringtun_lib \<Rightarrow> ('l \<Rightarrow> nat) \<Rightarrow> bytes \<Rightarrow> 't \<Rightarrow> 't \<Rightarrow> bool" where
  "answers_once B load d fresh answered \<longleftrightarrow>
     (\<forall>ip l. load l < HANDSHAKE_RATE_LIMIT \<longrightarrow>
        (\<exists>l' response. load l' = Suc (load l) \<and> bt_decapsulate B ip d fresh l = (answered, l', TWriteToNetwork (2 # response)))) \<and>
     (\<forall>ip l. load l < HANDSHAKE_RATE_LIMIT \<longrightarrow>
        (\<exists>l'. load l' = Suc (load l) \<and> bt_decapsulate B ip d answered l = (answered, l', TErr))) \<and>
     (\<forall>ip l. bt_decapsulate B ip [] answered l = (answered, l, TDone)) \<and>
     fst (bt_update_timers B answered) = answered"

definition handshakes_documented ::
  "key_lib \<Rightarrow> ('t, 'l, 'i) boringtun_lib \<Rightarrow> bytes \<Rightarrow> (bytes \<Rightarrow> bytes) \<Rightarrow> ('l \<Rightarrow> nat) \<Rightarrow> bytes \<Rightarrow> bool" where
  "handshakes_documented K B srv initiation load k \<longleftrightarrow>
     load (bt_new_limiter B (bt_public B srv) HANDSHAKE_RATE_LIMIT) = 0 \<and> (\<forall>l. load (bt_reset_count B l) = 0) \<and>
     (\<exists>i. bt_parse_anon B srv (bt_public B srv) i = Some (public_key K k) \<and>
        (\<forall>ip l. \<exists>l' cookie. load l' = Suc (load l) \<and> bt_verify B ip (initiation k) l =
           (l', if load l < HANDSHAKE_RATE_LIMIT then Inr (HandshakeInit i) else Inl (TWriteToNetwork (3 # cookie))))) \<and>
     (\<forall>idx. \<exists>answered. answers_once B load (initiation k) (bt_new_tunn B srv (public_key K k) None None idx) answered)"

section \<open>The tests\<close>

definition peer_addr :: socket_addr where
  "peer_addr = sock (V4 0x7F000001) 1111"

definition attacker_addr :: socket_addr where
  "attacker_addr = sock (V4 0x7F000001) 2222"

definition routed_addr :: socket_addr where
  "routed_addr = sock (V4 0x7F000001) 1234"

definition is_cookie :: "bytes \<Rightarrow> bool" where
  "is_cookie d \<longleftrightarrow> d \<noteq> [] \<and> hd d = 3"

text \<open>The datagrams come in one after the other; every one must be attributed to no peer.\<close>

fun flood ::
  "('t, 'l, 'i) boringtun_lib \<Rightarrow> socket_addr \<Rightarrow> bytes \<Rightarrow> nat \<Rightarrow> nat \<Rightarrow> ('t, 'l) wg \<Rightarrow> (('t, 'l) wg \<times> nat) option" where
  "flood B from d 0 cookies wg = Some (wg, cookies)"
| "flood B from d (Suc n) cookies wg =
     (case recv_from_network B wg from d [] [] of
        Some (wg', net, ip, None) \<Rightarrow> flood B from d n (cookies + length (filter is_cookie net)) wg'
      | _ \<Rightarrow> None)"

definition a_forged_flood_cannot_steal_an_endpoint ::
  "key_lib \<Rightarrow> ('t, 'l, 'i) boringtun_lib \<Rightarrow> nat \<Rightarrow> bytes \<Rightarrow> bytes \<Rightarrow> (bytes \<Rightarrow> bytes) \<Rightarrow> bool" where
  "a_forged_flood_cannot_steal_an_endpoint K B now srv a initiation \<longleftrightarrow>
     (case add_peer B (wg_new B now srv) (public_key K a) None None of
        Inl _ \<Rightarrow> False
      | Inr (wg, ia) \<Rightarrow>
          (case recv_from_network B wg peer_addr (initiation a) [] [] of
             None \<Rightarrow> False
           | Some (wg1, net, ip, r) \<Rightarrow>
               r = Some ia \<and> endpoint wg1 ia = Some peer_addr \<and>
               (case flood B attacker_addr (initiation a) (HANDSHAKE_RATE_LIMIT * 3) 0 wg1 of
                  None \<Rightarrow> False
                | Some (wg2, cookies) \<Rightarrow> 0 < cookies \<and> endpoint wg2 ia = Some peer_addr)))"

text \<open>The datagrams come in without a look at the results; what is sent is collected.\<close>

fun hammer ::
  "('t, 'l, 'i) boringtun_lib \<Rightarrow> socket_addr \<Rightarrow> bytes \<Rightarrow> nat \<Rightarrow> bytes list \<Rightarrow> ('t, 'l) wg \<Rightarrow> (('t, 'l) wg \<times> bytes list) option" where
  "hammer B from d 0 net wg = Some (wg, net)"
| "hammer B from d (Suc n) net wg =
     (case recv_from_network B wg from d net [] of
        None \<Rightarrow> None
      | Some (wg', net', ip, r) \<Rightarrow> hammer B from d n net' wg')"

definition the_limiter_recovers_after_a_reset ::
  "key_lib \<Rightarrow> ('t, 'l, 'i) boringtun_lib \<Rightarrow> nat \<Rightarrow> bytes \<Rightarrow> bytes \<Rightarrow> (bytes \<Rightarrow> bytes) \<Rightarrow> bool" where
  "the_limiter_recovers_after_a_reset K B now srv a initiation \<longleftrightarrow>
     (case add_peer B (wg_new B now srv) (public_key K a) None None of
        Inl _ \<Rightarrow> False
      | Inr (wg, ia) \<Rightarrow>
          (case hammer B peer_addr (initiation a) (HANDSHAKE_RATE_LIMIT * 2) [] wg of
             None \<Rightarrow> False
           | Some (wg1, net) \<Rightarrow>
               list_ex is_cookie net \<and>
               (case recv_from_network B (fst (update_timers B (now + 1100) wg1 [])) peer_addr (initiation a) [] [] of
                  None \<Rightarrow> False
                | Some (wg2, net2, ip, r) \<Rightarrow> list_all (\<lambda>d. \<not> is_cookie d) net2)))"

definition handshake_routes_to_the_right_peer ::
  "key_lib \<Rightarrow> ('t, 'l, 'i) boringtun_lib \<Rightarrow> nat \<Rightarrow> bytes \<Rightarrow> bytes \<Rightarrow> bytes \<Rightarrow> (bytes \<Rightarrow> bytes) \<Rightarrow> bool" where
  "handshake_routes_to_the_right_peer K B now srv a b initiation \<longleftrightarrow>
     (case add_peer B (wg_new B now srv) (public_key K a) None None of
        Inl _ \<Rightarrow> False
      | Inr (wg1, ia) \<Rightarrow>
          (case add_peer B wg1 (public_key K b) None None of
             Inl _ \<Rightarrow> False
           | Inr (wg, ib) \<Rightarrow>
               \<not> is_ok (add_peer B wg (public_key K b) None None) \<and>
               (case recv_from_network B wg routed_addr (initiation b) [] [] of
                  None \<Rightarrow> False
                | Some (wg2, net, ip, r) \<Rightarrow>
                    r = Some ib \<and> length net = 1 \<and> endpoint wg2 ib = Some routed_addr \<and>
                    (case recv_from_network B wg2 routed_addr (initiation a) [] [] of
                       None \<Rightarrow> False
                     | Some (wg3, net, ip, r) \<Rightarrow> r = Some ia \<and> length net = 1 \<and> endpoint wg3 ia = Some routed_addr))))"

section \<open>One initiation\<close>

lemma initiation_verified:
  assumes "handshakes_documented K B srv initiation load k"
  obtains i where "bt_parse_anon B srv (bt_public B srv) i = Some (public_key K k)"
    "\<And>ip l. load l < HANDSHAKE_RATE_LIMIT \<Longrightarrow>
       \<exists>l'. load l' = Suc (load l) \<and> bt_verify B ip (initiation k) l = (l', Inr (HandshakeInit i))"
    "\<And>ip l. HANDSHAKE_RATE_LIMIT \<le> load l \<Longrightarrow>
       \<exists>l' cookie. load l' = Suc (load l) \<and> bt_verify B ip (initiation k) l = (l', Inl (TWriteToNetwork (3 # cookie)))"
proof -
  obtain i where i: "bt_parse_anon B srv (bt_public B srv) i = Some (public_key K k)"
    "\<And>ip l. \<exists>l' cookie. load l' = Suc (load l) \<and> bt_verify B ip (initiation k) l =
       (l', if load l < HANDSHAKE_RATE_LIMIT then Inr (HandshakeInit i) else Inl (TWriteToNetwork (3 # cookie)))"
    using assms unfolding handshakes_documented_def by blast
  show thesis
  proof (rule that [OF i(1)])
    fix ip l assume "load l < HANDSHAKE_RATE_LIMIT"
    with i(2) [of l ip] show "\<exists>l'. load l' = Suc (load l) \<and> bt_verify B ip (initiation k) l = (l', Inr (HandshakeInit i))"
      by simp
  next
    fix ip l assume "HANDSHAKE_RATE_LIMIT \<le> load l"
    with i(2) [of l ip]
    show "\<exists>l' cookie. load l' = Suc (load l) \<and> bt_verify B ip (initiation k) l = (l', Inl (TWriteToNetwork (3 # cookie)))"
      by simp
  qed
qed

text \<open>The first one is answered, and shows where the peer is.\<close>

lemma initiation_answered:
  assumes "handshakes_documented K B srv initiation load k"
    and "wg_private wg = srv" "wg_public wg = bt_public B srv" "wg_by_key wg (public_key K k) = Some idx"
    and "idx < length (wg_peers wg)" "answers_once B load (initiation k) (peer_tunn (wg_peers wg ! idx)) answered"
    and "Suc (load (wg_limiter wg)) < HANDSHAKE_RATE_LIMIT"
  obtains l' response where "load l' = load (wg_limiter wg) + 2"
    "recv_from_network B wg from (initiation k) net ip = Some
       (wg\<lparr>wg_peers := (wg_peers wg)[idx := (wg_peers wg ! idx)\<lparr>peer_tunn := answered, peer_endpoint := Some from\<rparr>], wg_limiter := l'\<rparr>,
        net @ [2 # response], ip, Some idx)"
proof -
  obtain i l1 where i: "bt_parse_anon B srv (bt_public B srv) i = Some (public_key K k)"
    and v: "load l1 = Suc (load (wg_limiter wg))"
    "bt_verify B (sa_ip from) (initiation k) (wg_limiter wg) = (l1, Inr (HandshakeInit i))"
    using initiation_verified [OF assms(1)] assms(7) by (metis Suc_lessD)
  obtain l2 response where d: "load l2 = Suc (load l1)"
    "bt_decapsulate B (sa_ip from) (initiation k) (peer_tunn (wg_peers wg ! idx)) l1 = (answered, l2, TWriteToNetwork (2 # response))"
    using assms(6,7) v(1) unfolding answers_once_def by metis
  have "bt_decapsulate B (sa_ip from) [] answered l2 = (answered, l2, TDone)"
    using assms(6) unfolding answers_once_def by blast
  then have "decap_loop B (sa_ip from) [] answered l2 (net @ [2 # response]) ip = Some (answered, l2, net @ [2 # response], ip, Some False)"
    by (subst decap_loop.simps) simp
  then have "decap_loop B (sa_ip from) (initiation k) (peer_tunn (wg_peers wg ! idx)) l1 net ip =
      Some (answered, l2, net @ [2 # response], ip, Some False)"
    by (subst decap_loop.simps) (simp add: d(2))
  then show thesis
    using assms(2-5) i v d by (intro that) (simp_all add: recv_from_network_def classify_def)
qed

text \<open>A replay of it is refused below the limit, and drawn a cookie past it; neither moves the peer.\<close>

definition after_answer ::
  "key_lib \<Rightarrow> ('t, 'l, 'i) boringtun_lib \<Rightarrow> bytes \<Rightarrow> ('l \<Rightarrow> nat) \<Rightarrow> bytes \<Rightarrow> 't \<Rightarrow> socket_addr option \<Rightarrow> ('t, 'l) wg \<Rightarrow> bool" where
  "after_answer K B srv load k answered ep wg \<longleftrightarrow>
     wg_private wg = srv \<and> wg_public wg = bt_public B srv \<and> wg_by_key wg (public_key K k) = Some 0 \<and>
     (\<exists>p. wg_peers wg = [p] \<and> peer_tunn p = answered \<and> peer_endpoint p = ep) \<and>
     (even (load (wg_limiter wg)) \<or> HANDSHAKE_RATE_LIMIT \<le> load (wg_limiter wg))"

lemma replay_refused:
  assumes "handshakes_documented K B srv initiation load k" "answers_once B load (initiation k) fresh answered"
    and "after_answer K B srv load k answered ep wg" "load (wg_limiter wg) < HANDSHAKE_RATE_LIMIT"
  obtains wg' where "recv_from_network B wg from (initiation k) net ip = Some (wg', net, ip, None)"
    "after_answer K B srv load k answered ep wg'" "load (wg_limiter wg') = load (wg_limiter wg) + 2"
proof -
  obtain i l1 where i: "bt_parse_anon B srv (bt_public B srv) i = Some (public_key K k)"
    and v: "load l1 = Suc (load (wg_limiter wg))"
    "bt_verify B (sa_ip from) (initiation k) (wg_limiter wg) = (l1, Inr (HandshakeInit i))"
    using initiation_verified [OF assms(1)] assms(4) by metis
  obtain p where p: "wg_private wg = srv" "wg_public wg = bt_public B srv" "wg_by_key wg (public_key K k) = Some 0"
    "wg_peers wg = [p]" "peer_tunn p = answered" "peer_endpoint p = ep" "even (load (wg_limiter wg))"
    using assms(3,4) by (auto simp: after_answer_def)
  then have "load l1 < HANDSHAKE_RATE_LIMIT" using v(1) assms(4) by (auto simp: HANDSHAKE_RATE_LIMIT_def elim!: evenE)
  then obtain l2 where d: "load l2 = Suc (load l1)"
    "bt_decapsulate B (sa_ip from) (initiation k) answered l1 = (answered, l2, TErr)"
    using assms(2) unfolding answers_once_def by metis
  then have "decap_loop B (sa_ip from) (initiation k) answered l1 net ip = Some (answered, l2, net, ip, None)"
    by (subst decap_loop.simps) simp
  then show thesis
    using p v d i by (intro that [of "wg\<lparr>wg_peers := [p], wg_limiter := l2\<rparr>"])
      (simp_all add: recv_from_network_def classify_def after_answer_def Let_def)
qed

lemma replay_draws_cookie:
  assumes "handshakes_documented K B srv initiation load k"
    and "after_answer K B srv load k answered ep wg" "HANDSHAKE_RATE_LIMIT \<le> load (wg_limiter wg)"
  obtains wg' cookie where "recv_from_network B wg from (initiation k) net ip = Some (wg', net @ [3 # cookie], ip, None)"
    "after_answer K B srv load k answered ep wg'" "HANDSHAKE_RATE_LIMIT \<le> load (wg_limiter wg')"
proof -
  obtain l1 cookie where v: "load l1 = Suc (load (wg_limiter wg))"
    "bt_verify B (sa_ip from) (initiation k) (wg_limiter wg) = (l1, Inl (TWriteToNetwork (3 # cookie)))"
    using initiation_verified [OF assms(1)] assms(3) by metis
  then show thesis
    using assms(2,3) by (intro that [of "wg\<lparr>wg_limiter := l1\<rparr>" cookie]) (auto simp: recv_from_network_def after_answer_def)
qed

section \<open>The tests hold\<close>

lemma flood_spec:
  assumes "handshakes_documented K B srv initiation load k" "answers_once B load (initiation k) fresh answered"
  shows "after_answer K B srv load k answered ep wg \<Longrightarrow>
    \<exists>wg' c. flood B from (initiation k) n cookies wg = Some (wg', c) \<and> after_answer K B srv load k answered ep wg' \<and>
      cookies \<le> c \<and> (0 < n \<longrightarrow> HANDSHAKE_RATE_LIMIT + 2 \<le> load (wg_limiter wg) + 2 * n \<longrightarrow> cookies < c)"
proof (induction n arbitrary: wg cookies)
  case (Suc n)
  show ?case
  proof (cases "load (wg_limiter wg) < HANDSHAKE_RATE_LIMIT")
    case True
    obtain wg1 where r: "recv_from_network B wg from (initiation k) [] [] = Some (wg1, [], [], None)"
      "after_answer K B srv load k answered ep wg1" "load (wg_limiter wg1) = load (wg_limiter wg) + 2"
      using replay_refused [OF assms Suc.prems True] by blast
    from Suc.IH [OF r(2), of cookies] r(3) True show ?thesis by (auto simp: r(1))
  next
    case False
    then have "HANDSHAKE_RATE_LIMIT \<le> load (wg_limiter wg)" by simp
    from replay_draws_cookie [OF assms(1) Suc.prems this] obtain wg1 cookie where
      r: "recv_from_network B wg from (initiation k) [] [] = Some (wg1, [3 # cookie], [], None)"
      "after_answer K B srv load k answered ep wg1" by (metis append_Nil)
    from Suc.IH [OF r(2), of "Suc cookies"] show ?thesis by (auto simp: r(1) is_cookie_def)
  qed
qed simp

lemma hammer_spec:
  assumes "handshakes_documented K B srv initiation load k" "answers_once B load (initiation k) fresh answered"
  shows "after_answer K B srv load k answered ep wg \<Longrightarrow>
    \<exists>wg' more. hammer B from (initiation k) n net wg = Some (wg', net @ more) \<and> after_answer K B srv load k answered ep wg' \<and>
      (0 < n \<longrightarrow> HANDSHAKE_RATE_LIMIT + 2 \<le> load (wg_limiter wg) + 2 * n \<longrightarrow> list_ex is_cookie more)"
proof (induction n arbitrary: wg net)
  case (Suc n)
  show ?case
  proof (cases "load (wg_limiter wg) < HANDSHAKE_RATE_LIMIT")
    case True
    obtain wg1 where r: "recv_from_network B wg from (initiation k) net [] = Some (wg1, net, [], None)"
      "after_answer K B srv load k answered ep wg1" "load (wg_limiter wg1) = load (wg_limiter wg) + 2"
      using replay_refused [OF assms Suc.prems True] by blast
    from Suc.IH [OF r(2), of net] r(3) True show ?thesis by (auto simp: r(1))
  next
    case False
    then have "HANDSHAKE_RATE_LIMIT \<le> load (wg_limiter wg)" by simp
    from replay_draws_cookie [OF assms(1) Suc.prems this] obtain wg1 cookie where
      r: "recv_from_network B wg from (initiation k) net [] = Some (wg1, net @ [3 # cookie], [], None)"
      "after_answer K B srv load k answered ep wg1" by blast
    from Suc.IH [OF r(2), of "net @ [3 # cookie]"] show ?thesis by (fastforce simp: r(1) is_cookie_def)
  qed
qed simp

lemma recv_last_reset: "recv_from_network B wg from d net ip = Some (wg', net', ip', r) \<Longrightarrow> wg_last_reset wg' = wg_last_reset wg"
  by (erule recv_from_network_cases) auto

lemma hammer_last_reset: "hammer B from d n net wg = Some (wg', net') \<Longrightarrow> wg_last_reset wg' = wg_last_reset wg"
  by (induction n arbitrary: wg net) (auto split: option.splits dest: recv_last_reset)

text \<open>A second without a reset brings one, and the sessions stay.\<close>

lemma timers_reset:
  assumes "handshakes_documented K B srv initiation load k" "answers_once B load (initiation k) fresh answered"
    and "after_answer K B srv load k answered ep wg" "wg_last_reset wg + 1000 \<le> now"
  shows "after_answer K B srv load k answered ep (fst (update_timers B now wg [])) \<and>
    load (wg_limiter (fst (update_timers B now wg []))) = 0"
proof -
  have "fst (bt_update_timers B answered) = answered" "\<forall>l. load (bt_reset_count B l) = 0"
    using assms(1,2) by (simp_all add: answers_once_def handshakes_documented_def)
  with assms(3,4) show ?thesis
    by (auto simp: after_answer_def update_timers_def timer_loop_spec Let_def)
qed

text \<open>The endpoint with its one peer, and after the first initiation.\<close>

lemma one_peer:
  assumes "handshakes_documented K B srv initiation load k"
  obtains wg wg1 fresh answered response where
    "add_peer B (wg_new B now srv) (public_key K k) None None = Inr (wg, 0)"
    "recv_from_network B wg from (initiation k) [] [] = Some (wg1, [2 # response], [], Some 0)"
    "answers_once B load (initiation k) fresh answered"
    "after_answer K B srv load k answered (Some from) wg1" "load (wg_limiter wg1) = 2" "wg_last_reset wg1 = now"
proof -
  let ?fresh = "bt_new_tunn B srv (public_key K k) None None 0"
  define wg where "wg = (wg_new B now srv)\<lparr>wg_peers := [\<lparr>peer_public_key = public_key K k, peer_endpoint = None, peer_tunn = ?fresh\<rparr>],
    wg_by_key := [public_key K k \<mapsto> 0]\<rparr>"
  have add: "add_peer B (wg_new B now srv) (public_key K k) None None = Inr (wg, 0)"
    by (simp add: add_peer_def wg_new_def wg_def Let_def)
  obtain answered where once: "answers_once B load (initiation k) ?fresh answered"
    using assms unfolding handshakes_documented_def by blast
  have zero: "load (wg_limiter wg) = 0"
    using assms by (simp add: handshakes_documented_def wg_def wg_new_def Let_def)
  obtain l' response where r: "load l' = load (wg_limiter wg) + 2" "recv_from_network B wg from (initiation k) [] [] = Some
      (wg\<lparr>wg_peers := (wg_peers wg)[0 := (wg_peers wg ! 0)\<lparr>peer_tunn := answered, peer_endpoint := Some from\<rparr>], wg_limiter := l'\<rparr>,
       [] @ [2 # response], [], Some 0)"
    by (rule initiation_answered [OF assms, of wg 0 answered "from" "[]" "[]"])
      (use once zero in \<open>simp_all add: wg_def wg_new_def Let_def HANDSHAKE_RATE_LIMIT_def\<close>)
  show thesis
    by (rule that [OF add r(2) [unfolded append_Nil] once])
      (use r(1) zero in \<open>auto simp: after_answer_def wg_def wg_new_def Let_def\<close>)
qed

lemma endpoint_after_answer: "after_answer K B srv load k answered ep wg \<Longrightarrow> endpoint wg 0 = ep"
  by (auto simp: after_answer_def endpoint_def)

lemma a_forged_flood_cannot_steal_an_endpoint:
  assumes "handshakes_documented K B srv initiation load a"
  shows "a_forged_flood_cannot_steal_an_endpoint K B now srv a initiation"
proof -
  obtain wg wg1 fresh answered response where w:
    "add_peer B (wg_new B now srv) (public_key K a) None None = Inr (wg, 0)"
    "recv_from_network B wg peer_addr (initiation a) [] [] = Some (wg1, [2 # response], [], Some 0)"
    "answers_once B load (initiation a) fresh answered"
    "after_answer K B srv load a answered (Some peer_addr) wg1" "load (wg_limiter wg1) = 2"
    using one_peer [OF assms] by metis
  from flood_spec [OF assms w(3,4), of attacker_addr "HANDSHAKE_RATE_LIMIT * 3" 0] w(5)
  obtain wg2 c where "flood B attacker_addr (initiation a) (HANDSHAKE_RATE_LIMIT * 3) 0 wg1 = Some (wg2, c)"
    "after_answer K B srv load a answered (Some peer_addr) wg2" "0 < c"
    by (auto simp: HANDSHAKE_RATE_LIMIT_def)
  then show ?thesis
    using w endpoint_after_answer [OF w(4)] endpoint_after_answer
    by (auto simp: a_forged_flood_cannot_steal_an_endpoint_def simp del: flood.simps)
qed

lemma the_limiter_recovers_after_a_reset:
  assumes "handshakes_documented K B srv initiation load a"
  shows "the_limiter_recovers_after_a_reset K B now srv a initiation"
proof -
  obtain wg wg1 fresh answered response where w:
    "add_peer B (wg_new B now srv) (public_key K a) None None = Inr (wg, 0)"
    "recv_from_network B wg peer_addr (initiation a) [] [] = Some (wg1, [2 # response], [], Some 0)"
    "answers_once B load (initiation a) fresh answered"
    "after_answer K B srv load a answered (Some peer_addr) wg1" "load (wg_limiter wg1) = 2" "wg_last_reset wg1 = now"
    using one_peer [OF assms, of now peer_addr] by metis
  from hammer_spec [OF assms w(3,4), of peer_addr "HANDSHAKE_RATE_LIMIT * 2 - 1" "[2 # response]"] w(5)
  obtain wg2 more where h: "hammer B peer_addr (initiation a) (HANDSHAKE_RATE_LIMIT * 2 - 1) [2 # response] wg1 = Some (wg2, (2 # response) # more)"
    "after_answer K B srv load a answered (Some peer_addr) wg2" "list_ex is_cookie more"
    by (auto simp: HANDSHAKE_RATE_LIMIT_def)
  have "HANDSHAKE_RATE_LIMIT * 2 = Suc (HANDSHAKE_RATE_LIMIT * 2 - 1)" by (simp add: HANDSHAKE_RATE_LIMIT_def)
  then have hammered: "hammer B peer_addr (initiation a) (HANDSHAKE_RATE_LIMIT * 2) [] wg = Some (wg2, (2 # response) # more)"
    using w(2) h(1) by (metis (no_types, lifting) hammer.simps(2) option.simps(5) prod.simps(2))
  let ?wg3 = "fst (update_timers B (now + 1100) wg2 [])"
  have "after_answer K B srv load a answered (Some peer_addr) ?wg3 \<and> load (wg_limiter ?wg3) = 0"
    using timers_reset [OF assms w(3) h(2)] hammer_last_reset [OF h(1)] w(6) by simp
  then obtain wg4 where "recv_from_network B ?wg3 peer_addr (initiation a) [] [] = Some (wg4, [], [], None)"
    using replay_refused [OF assms w(3)] by (metis HANDSHAKE_RATE_LIMIT_def zero_less_numeral)
  with w(1) hammered h(3) show ?thesis
    by (simp add: the_limiter_recovers_after_a_reset_def del: hammer.simps)
qed

lemma handshake_routes_to_the_right_peer:
  assumes "handshakes_documented K B srv initiation load a" "handshakes_documented K B srv initiation load b"
    and "public_key K a \<noteq> public_key K b"
  shows "handshake_routes_to_the_right_peer K B now srv a b initiation"
proof -
  let ?ta = "bt_new_tunn B srv (public_key K a) None None 0"
  let ?tb = "bt_new_tunn B srv (public_key K b) None None 1"
  let ?pa = "\<lparr>peer_public_key = public_key K a, peer_endpoint = None, peer_tunn = ?ta\<rparr>"
  let ?pb = "\<lparr>peer_public_key = public_key K b, peer_endpoint = None, peer_tunn = ?tb\<rparr>"
  define wg1 where "wg1 = (wg_new B now srv)\<lparr>wg_peers := [?pa], wg_by_key := [public_key K a \<mapsto> 0]\<rparr>"
  define wg where "wg = wg1\<lparr>wg_peers := [?pa, ?pb], wg_by_key := [public_key K a \<mapsto> 0, public_key K b \<mapsto> 1]\<rparr>"
  have adds: "add_peer B (wg_new B now srv) (public_key K a) None None = Inr (wg1, 0)"
    "add_peer B wg1 (public_key K b) None None = Inr (wg, 1)" "\<not> is_ok (add_peer B wg (public_key K b) None None)"
    using assms(3) by (simp_all add: add_peer_def wg_new_def wg1_def wg_def Let_def is_ok_def)
  obtain sa sb where once: "answers_once B load (initiation a) ?ta sa" "answers_once B load (initiation b) ?tb sb"
    using assms(1,2) unfolding handshakes_documented_def by blast
  have zero: "load (wg_limiter wg) = 0"
    using assms(1) by (simp add: handshakes_documented_def wg_def wg1_def wg_new_def Let_def)
  note wg_sel = wg_def wg1_def wg_new_def Let_def HANDSHAKE_RATE_LIMIT_def
  obtain l response where first: "load l = load (wg_limiter wg) + 2"
    "recv_from_network B wg routed_addr (initiation b) [] [] = Some
      (wg\<lparr>wg_peers := (wg_peers wg)[1 := (wg_peers wg ! 1)\<lparr>peer_tunn := sb, peer_endpoint := Some routed_addr\<rparr>], wg_limiter := l\<rparr>,
       [] @ [2 # response], [], Some 1)"
    by (rule initiation_answered [OF assms(2), of wg 1 sb routed_addr "[]" "[]"])
      (use once zero in \<open>simp_all add: wg_sel\<close>)
  define wg2 where "wg2 = wg\<lparr>wg_peers := [?pa, ?pb\<lparr>peer_tunn := sb, peer_endpoint := Some routed_addr\<rparr>], wg_limiter := l\<rparr>"
  have first': "recv_from_network B wg routed_addr (initiation b) [] [] = Some (wg2, [2 # response], [], Some 1)"
    using first(2) by (simp add: wg2_def wg_def)
  obtain l2 response2 where second:
    "recv_from_network B wg2 routed_addr (initiation a) [] [] = Some
      (wg2\<lparr>wg_peers := (wg_peers wg2)[0 := (wg_peers wg2 ! 0)\<lparr>peer_tunn := sa, peer_endpoint := Some routed_addr\<rparr>], wg_limiter := l2\<rparr>,
       [] @ [2 # response2], [], Some 0)"
    by (rule initiation_answered [OF assms(1), of wg2 0 sa routed_addr "[]" "[]"])
      (use once zero first(1) assms(3) in \<open>simp_all add: wg2_def wg_sel\<close>)
  show ?thesis
    using adds first' second by (simp add: handshake_routes_to_the_right_peer_def endpoint_def) (simp add: wg2_def wg_def)
qed

section \<open>An instance\<close>

text \<open>A limiter that counts and sessions that answer once: the hypothesis of the tests can hold.\<close>

definition counting_boringtun :: "(bool, nat, bytes) boringtun_lib" where
  "counting_boringtun = \<lparr>bt_public = id, bt_new_limiter = (\<lambda>_ _. 0), bt_new_tunn = (\<lambda>_ _ _ _ _. False),
     bt_verify = (\<lambda>ip d l. (Suc l, if l < HANDSHAKE_RATE_LIMIT then Inr (HandshakeInit (tl d)) else Inl (TWriteToNetwork [3]))),
     bt_parse_anon = (\<lambda>_ _ i. Some i),
     bt_decapsulate = (\<lambda>ip d t l. if d = [] then (t, l, TDone) else if t then (t, Suc l, TErr) else (True, Suc l, TWriteToNetwork [2])),
     bt_encapsulate = (\<lambda>d t. (t, TDone)), bt_update_timers = (\<lambda>t. (t, TDone)), bt_since_handshake = (\<lambda>_. None),
     bt_reset_count = (\<lambda>_. 0), bt_dst_address = (\<lambda>_. None)\<rparr>"

lemma counting_documented: "handshakes_documented K counting_boringtun srv (\<lambda>k. 1 # public_key K k) id k"
proof -
  have "answers_once counting_boringtun id (1 # public_key K k) False True"
    by (simp add: answers_once_def counting_boringtun_def)
  then show ?thesis
    unfolding handshakes_documented_def by (auto simp: counting_boringtun_def)
qed

lemma flood_instance: "a_forged_flood_cannot_steal_an_endpoint K counting_boringtun now srv a (\<lambda>k. 1 # public_key K k)"
  by (rule a_forged_flood_cannot_steal_an_endpoint [OF counting_documented])

end
