(* ===== verification/Spec2Isabelle.thy ===== *)
theory Spec2Isabelle
  imports Server_Start Client_Shell WebSocket_Path Probe Router_Spec Unit_Tests Setup_Tests Conf_Tests Handshake_Tests
begin

text \<open>
  A verification development of wg-wrapper: a userspace WireGuard server whose peers reach the Internet only
  through SOCKS5 proxies, the WebSocket relay both ends can tunnel WireGuard through, and the Windows client.

  The program and its parts.
  \<^item> \<open>crates/wgcore\<close> is the multi-peer WireGuard endpoint \<open>Wg\<close>, a state machine over boringtun sessions. The
    server drives one \<open>Wg\<close> with all its peers, the client one with a single peer.
  \<^item> \<open>crates/server\<close> starts from a validated \<open>Config\<close>. Its data plane moves datagrams from the UDP socket
    through \<open>Wg\<close>, the cryptokey check \<open>peer_for\<close> and the isolation gate \<open>allowed_dst\<close> into a userspace TCP/IP
    stack, and back; the flows the stack accepts are admitted under a total and a per-peer limit and leave
    through the peer's SOCKS5 upstream.
  \<^item> \<open>crates/wsrelay\<close> carries one datagram per WebSocket message: the relay beside the server, the bridge
    inside the client.
  \<^item> \<open>crates/wgclient\<close> reads a configuration file, resolves the endpoint, brings the Windows adapter, routes and
    name resolution up, and runs the engine between the adapter and the socket.
  \<^item> \<open>crates/client-win\<close> is the desktop application around it: the session, the log, profiles, settings, updates.

  Theories, in the order of their imports.
  \<^item> \<open>Prelude\<close>: machine integers, results, the collections \<open>rust_defs\<close> and \<open>addr_defs\<close>, and the interfaces shared
    by components as locales: \<open>transition_system\<close> (a step relation with an invariant), \<open>handler\<close> (a step
    function with an invariant over event lists), \<open>semaphore\<close>, \<open>bounded_channel\<close>, \<open>byte_codec\<close>,
    \<open>simulation\<close> (labelled systems, one refining the other).
  \<^item> \<open>Rust_Str\<close>, \<open>Rust_Net\<close>, \<open>Rust_Addr\<close>: the string, address and address-parsing functions of Rust's standard
    library the source calls. A string is the list of its UTF-8 bytes. \<open>Addr_Blocks\<close> turns octet tests into
    CIDR blocks.
  \<^item> \<open>Net_Isolation\<close>, \<open>Net_Packets\<close>: \<open>crates/server/src/net.rs\<close>. \<open>allowed_dst\<close>, \<open>peer_for\<close>, \<open>tcp_rst\<close> and \<open>PacketDev\<close>;
    the locales \<open>cryptokey_table\<close>, \<open>isolation_gate\<close> and their sum \<open>guarded_plane\<close> are what the configuration
    and the data plane rely on.
  \<^item> \<open>Wgcore_Keys\<close>, \<open>Wgcore\<close>: \<open>crates/wgcore/src/lib.rs\<close>. Keys as text, packet addresses; \<open>add_peer\<close>,
    \<open>recv_from_network\<close>, \<open>encapsulate\<close>, \<open>update_timers\<close> with the record \<open>wg\<close> as the struct \<open>Wg\<close>.
  \<^item> \<open>Config\<close>: \<open>crates/server/src/config.rs\<close>. The upstream syntax, the defaults, \<open>validate\<close>.
  \<^item> \<open>Server\<close>: \<open>crates/server/src/lib.rs\<close>, the tables \<open>start\<close> builds and its data-plane tasks. \<open>Flow_Admission\<close>: the
    accept loop and \<open>FlowGuard\<close>, interleaved at every atomic operation.
  \<^item> \<open>Socks_Udp\<close>, \<open>Flow\<close>, \<open>Flow_Egress\<close>: \<open>crates/server/src/flow.rs\<close>. The SOCKS5 wire formats and \<open>associate\<close>; the
    UDP decision, the relay loop, DNS over TCP; \<open>dial\<close>, \<open>handle_tcp\<close> and every connection a flow opens.
  \<^item> \<open>Ws_Relay\<close>, \<open>Relay_Setup\<close>: \<open>crates/wsrelay/src/lib.rs\<close>, accepting and dialling side as event machines; TLS,
    the dialling of one connection, \<open>serve\<close>, \<open>run_client\<close> and \<open>main.rs\<close>.
  \<^item> \<open>Server_Start\<close>: \<open>Config::load\<close>, \<open>start\<close> and \<open>crates/server/src/main.rs\<close>.
  \<^item> \<open>Client_Conf\<close>, \<open>Client_Engine\<close>, \<open>Client_Adapter\<close>, \<open>Client_Device\<close>: \<open>crates/wgclient/src/lib.rs\<close>. The texts
    (\<open>parse_conf\<close>, \<open>resolve_endpoint\<close>, \<open>parse_routes\<close>); \<open>Tunnel\<close>, its device threads driven by events; the module
    \<open>win\<close>; the trait \<open>Tun\<close> as the locale \<open>tun_device\<close>, its implementation over wintun, the engine run over it.
  \<^item> \<open>Client_App\<close>, \<open>Client_Shell\<close>: \<open>crates/client-win/src-tauri/src/main.rs\<close>. The session and its commands; the
    window, the tray and the exit.
  \<^item> \<open>Router_Spec\<close>: the abstract router the data plane refines, as a \<open>simulation\<close> with the same observations.
  \<^item> \<open>End_To_End\<close>, \<open>WebSocket_Path\<close>: client and server composed, directly and through bridge and relay.
  \<^item> \<open>Probe\<close>: \<open>crates/wgclient/examples/probe.rs\<close>, whose channels are a second \<open>tun_device\<close>.
  \<^item> \<open>Ascii_Text\<close>, \<open>Unit_Tests\<close>, \<open>Setup_Tests\<close>, \<open>Conf_Tests\<close>, \<open>Handshake_Tests\<close>: evaluation of text functions on
    ASCII; the unit tests of the sources, proved of the model.

  What the lemmas show.
  \<^item> Isolation and routing: the gate is exactly the documented list of blocks; \<open>peer_for\<close> is a longest-prefix match
    and, in a validated configuration, finds the one owner of an address; in every reachable server state what is
    queued for the stack comes from the owner of its source and is admitted; what the stack answers is encrypted
    for the owner of its destination only. All of it together is a refinement: every run of the server is a run
    of a router that knows only ownership, the gate and where peers were last heard from, and so never sends to
    an address it has not heard from.
  \<^item> The endpoint: registration stays consistent in every reachable \<open>Wg\<close>; an endpoint moves only on proof of the
    peer's key; the flush loops end under boringtun's documented protocol.
  \<^item> Flows: no interleaving exceeds the limits and no slot leaks. The association succeeds exactly on a conforming
    conversation, the relay loop equals a filter over its events, DNS framing reads back.
  \<^item> The WebSocket relay: its connections stay under the limit, a connection pumps unchanged in both directions until the event
    that ends it, idle connections are dropped after the stated time only, the bridge keeps one connection per source,
    reconnects double their pause within bounds.
  \<^item> The client's texts: a written configuration file is read back, what \<open>parse_conf\<close> accepts is well formed, URLs
    and routing tables are read as intended.
  \<^item> The engine: two lossless first-in first-out pipes under every interleaving, no IPv6 into the tunnel, an
    outcome within the handshake wait, an orderly end after \<open>close\<close>.
  \<^item> The adapter: a failed \<open>open\<close> or a later drop runs the undo of exactly the changes that succeeded, the latest first,
    whatever the commands answer; a successful \<open>open\<close> has every route. \<open>dial\<close> composes file, adapter and engine, all or
    nothing in the same sense.
  \<^item> The session: an invariant under interleaved commands, and a refinement, step by step and to the field, of a
    five-phase automaton, up to the first dialling that overlaps another.
  \<^item> Start-up: a configuration that loads starts, unless a socket cannot be bound, with exactly its tables; printed
    keys are usable; every live flow contacts its peer's upstream only.
  \<^item> The whole path: what the client's device is given arrives at the server's stack, and answers come back,
    unchanged and in order whatever is lost on the way, over UDP and over WebSocket. On the client's side the
    same holds down to the wintun ring, and disconnecting ends both threads of the device.

  Arguments of the model. Third-party code is an argument of the definitions that use it: boringtun
  (\<open>boringtun_lib\<close>), base64 and x25519 (\<open>key_lib\<close>), \<open>ipnet\<close> (\<open>ipnet_lib\<close>, \<open>net_text\<close>, \<open>net_ops\<close>), \<open>etherparse\<close>, Tokio's
  channels and semaphores (functions, constrained by the locales), \<open>serde_json\<close> (\<open>profile_lib\<close>), the name
  resolver. What a Windows command does to the system and answers is the argument \<open>R\<close> of the adapter, on which nothing
  is assumed: the properties are about the commands that are run (\<open>traced\<close>). Each assumption on another argument is
  a named predicate on the argument, and each property under one has a witness with a concrete instance.

  Bounds and fuel. \<open>strip_all\<close> takes the string's length as fuel, and every step consumes a byte. The wait for the
  handshake polls every 25 ms for 10 s, so 401 polls decide it. Traffic counters are 64-bit words and wrap. Times are
  milliseconds or seconds as the source has them. Every other loop is a terminating recursion.

  Atomicity. A turn of a task, between two points where it may be suspended, is one step; the admission
  counters are the exception, where each atomic operation is a step. Blocking sends are the answers
  the events carry.

  Not modelled. The user interface in JavaScript; the build script; the vendored TCP/IP stack, whose accepted
  streams and datagrams are events here; the registration of commands, plugins and icons with Tauri; the parsing of
  command lines and of the server's JSON file, which are arguments; logging and printing. What a socket, a file or
  a TLS handshake answers is an event or an argument. Every unit test is proved of the model; the integration tests
  under \<open>tests/\<close> run real sockets, boringtun clients and a proxy of their own, and are left out.
\<close>

end
